(* ===== verification/Prelude.thy ===== *)
theory Prelude
  imports Main "HOL-Library.Sublist" "HOL-Library.Multiset"
begin

text \<open>
  Shared vocabulary of the development: the collections of facts the component theories add
  to, the byte strings and backends every component speaks of, the result type of a handler
  that can raise, and generic lemmas on lists and searching that the library does not have.
\<close>

section \<open>Collections\<close>

named_theorems py_defs \<open>definitions of Python's string operations\<close>
named_theorems frame \<open>fields an operation leaves alone\<close>

section \<open>Types\<close>

text \<open>
  Python's \<open>bytes\<close> are lists of 8-bit characters. A \<open>str\<close> obtained by decoding with
  latin-1 has exactly the code points of its bytes, so it is the same list and the codec is the
  identity in both directions.
\<close>

type_synonym bytes = string

type_synonym backend = "string \<times> int"

text \<open>
  What a handler does: it returns, or an exception leaves it. The object it worked on has been
  mutated up to that point in both cases, so both carry the state.
\<close>

datatype 'a outcome = Returned (final: 'a) | Raised (final: 'a)

fun and_then :: "'a outcome \<Rightarrow> ('a \<Rightarrow> 'a outcome) \<Rightarrow> 'a outcome" where
  "and_then (Returned s) f = f s"
| "and_then (Raised s) f = Raised s"

lemma and_then_Returned_iff:
  "and_then r f = Returned t \<longleftrightarrow> (\<exists>s. r = Returned s \<and> f s = Returned t)"
  by (cases r) auto

section \<open>The first occurrence of a sublist\<close>

fun find_sub :: "'a list \<Rightarrow> 'a list \<Rightarrow> nat option" where
  "find_sub pat [] = (if pat = [] then Some 0 else None)"
| "find_sub pat (x # xs) =
     (if prefix pat (x # xs) then Some 0 else map_option Suc (find_sub pat xs))"

lemma find_sub_SomeD:
  "find_sub pat s = Some i \<Longrightarrow> prefix pat (drop i s) \<and> i \<le> length s"
  by (induction s arbitrary: i) (auto split: if_splits)

lemma find_sub_bound: "find_sub pat s = Some i \<Longrightarrow> i + length pat \<le> length s"
  by (drule find_sub_SomeD) (auto dest: prefix_length_le)

lemma find_sub_split:
  assumes "find_sub pat s = Some i"
  shows "s = take i s @ pat @ drop (i + length pat) s"
proof -
  from find_sub_SomeD [OF assms] obtain r where r: "drop i s = pat @ r"
    by (auto elim: prefixE)
  then have "drop (i + length pat) s = r"
    by (metis add.commute append_eq_conv_conj drop_drop)
  with r show ?thesis by (metis append_take_drop_id)
qed

lemma find_sub_None_iff: "find_sub pat s = None \<longleftrightarrow> \<not> sublist pat s"
  by (induction s) (auto simp: sublist_Cons_right)

lemma find_sub_least:
  "find_sub pat s = Some i \<Longrightarrow> j < i \<Longrightarrow> \<not> prefix pat (drop j s)"
proof (induction s arbitrary: i j)
  case (Cons x xs)
  then show ?case by (cases j) (auto split: if_splits)
qed (auto split: if_splits)

lemma find_sub_eqI:
  assumes "prefix pat (drop i s)" and "\<And>j. j < i \<Longrightarrow> \<not> prefix pat (drop j s)"
    and "i \<le> length s"
  shows "find_sub pat s = Some i"
proof (cases "find_sub pat s")
  case None
  from assms(1) have "sublist pat s"
    by (metis prefix_imp_sublist sublist_drop sublist_order.order_trans)
  with None show ?thesis by (simp add: find_sub_None_iff)
next
  case (Some k)
  with assms find_sub_SomeD [OF Some] find_sub_least [OF Some] have "k = i"
    by (metis linorder_neqE_nat)
  with Some show ?thesis by simp
qed

lemma find_sub_append:
  assumes "find_sub pat s = Some i"
  shows "find_sub pat (s @ t) = Some i"
proof (rule find_sub_eqI)
  from find_sub_SomeD [OF assms] show "prefix pat (drop i (s @ t))"
    by (auto simp: prefix_append)
  show "i \<le> length (s @ t)" using find_sub_SomeD [OF assms] by simp
next
  fix j assume "j < i"
  show "\<not> prefix pat (drop j (s @ t))"
  proof
    assume p: "prefix pat (drop j (s @ t))"
    have len: "length pat \<le> length (drop j s)"
      using find_sub_bound [OF assms] \<open>j < i\<close> by simp
    from p \<open>j < i\<close> find_sub_bound [OF assms]
    have "prefix pat (drop j s @ t)" by simp
    with len have "prefix pat (drop j s)"
      by (metis prefix_append prefix_length_prefix prefix_order.order_refl append_prefixD prefixI)
    with find_sub_least [OF assms \<open>j < i\<close>] show False by simp
  qed
qed

lemma not_sublist_before:
  assumes "find_sub pat s = Some i" and "pat \<noteq> []"
  shows "\<not> sublist pat (take i s)"
proof
  assume "sublist pat (take i s)"
  then obtain a b where ab: "take i s = a @ pat @ b" by (auto simp: sublist_def)
  have "length a + length pat \<le> length (take i s)" unfolding ab by simp
  with assms(2) have "length a < i" by (cases pat) auto
  have "s = a @ pat @ b @ drop i s"
    using ab by (metis append.assoc append_take_drop_id)
  then have "drop (length a) s = pat @ b @ drop i s"
    by (metis append_eq_conv_conj)
  with find_sub_least [OF assms(1) \<open>length a < i\<close>] show False
    by (metis prefixI)
qed

section \<open>Proper prefixes\<close>

lemma strict_prefix_find:
  "find_sub pat s = Some i \<Longrightarrow> length s = i + length pat \<Longrightarrow> strict_prefix q s \<Longrightarrow> find_sub pat q = None"
proof (rule ccontr)
  assume s: "find_sub pat s = Some i" "length s = i + length pat" "strict_prefix q s"
    and "find_sub pat q \<noteq> None"
  then obtain j r where j: "find_sub pat q = Some j" and r: "s = q @ r"
    by (auto simp: strict_prefix_def prefix_def)
  from find_sub_append [OF j, of r] s(1) r have "i = j" by simp
  with find_sub_bound [OF j] s(2,3) show False using prefix_length_less by fastforce
qed

lemma strict_prefix_append:
  assumes "strict_prefix q (a @ b)"
  obtains "strict_prefix q a" | d where "q = a @ d" "strict_prefix d b"
proof (cases "prefix q a \<and> q \<noteq> a")
  case True
  with that(1) show ?thesis by (simp add: strict_prefix_def)
next
  case False
  with assms obtain d where "q = a @ d" "prefix d b"
    by (auto simp: strict_prefix_def prefix_append)
  with assms that(2) [of d] show ?thesis by (auto simp: strict_prefix_def)
qed

end
