(* ===== verification/PyText.thy ===== *)
theory PyText
  imports Prelude "HOL-Library.Char_ord"
begin

text \<open>
  The operations of Python's \<open>bytes\<close>, \<open>str\<close> and \<open>int\<close> that the sources use, as executable
  functions on character lists, each with the lemmas its clients need. Everything here is the
  language's own semantics (CPython 3.11): slicing and searching with negative indices, splitting,
  stripping, case folding of the 256 latin-1 characters, and the syntax \<open>int\<close> accepts.
\<close>

section \<open>Slicing and searching\<close>

text \<open>An index of a slice: negative ones count from the end, all are clamped to the length.\<close>

definition clamp_index :: "nat \<Rightarrow> int \<Rightarrow> nat" where
  [py_defs]: "clamp_index n i = (if i < 0 then nat (int n + i) else min n (nat i))"

definition py_slice :: "'a list \<Rightarrow> int \<Rightarrow> int \<Rightarrow> 'a list" where
  "py_slice s i j =
     (let a = clamp_index (length s) i; b = clamp_index (length s) j
      in take (b - a) (drop a s))"

definition py_slice_from :: "'a list \<Rightarrow> int \<Rightarrow> 'a list" where
  "py_slice_from s i = drop (clamp_index (length s) i) s"

definition py_find :: "'a list \<Rightarrow> 'a list \<Rightarrow> int" where
  "py_find s pat = (case find_sub pat s of None \<Rightarrow> - 1 | Some i \<Rightarrow> int i)"

text \<open>\<open>s.find(pat, pos)\<close> for a pattern that is not empty.\<close>

definition py_find_from :: "'a list \<Rightarrow> 'a list \<Rightarrow> int \<Rightarrow> int" where
  "py_find_from s pat pos =
     (let a = clamp_index (length s) pos
      in case find_sub pat (drop a s) of None \<Rightarrow> - 1 | Some i \<Rightarrow> int (a + i))"

lemma clamp_index_int [simp]: "clamp_index n (int k) = min n k"
  by (simp add: clamp_index_def)

lemma py_slice_int [simp]:
  "py_slice s (int a) (int b) = take (min (length s) b - min (length s) a) (drop a s)"
  by (simp add: py_slice_def min_def)

lemma py_slice_length: "py_slice s (int a) (int a + int k) = take k (drop a s)"
proof -
  have "take (min (length s) (a + k) - min (length s) a) (drop a s) = take k (drop a s)"
    by (cases "a + k \<le> length s"; cases "a \<le> length s") (simp_all add: min_def)
  then show ?thesis using py_slice_int [of s a "a + k"] by simp
qed

lemma py_slice_prefix [simp]: "py_slice s 0 (int b) = take b s"
  using py_slice_int [of s 0 b] by (simp add: min_def)

lemma py_slice_from_int [simp]: "py_slice_from s (int a) = drop a s"
  by (simp add: py_slice_from_def min_def)

lemma py_find_eq_neg1 [simp]: "py_find s pat = - 1 \<longleftrightarrow> find_sub pat s = None"
  by (auto simp: py_find_def split: option.splits)

lemma py_find_Some [simp]: "find_sub pat s = Some i \<Longrightarrow> py_find s pat = int i"
  by (simp add: py_find_def)

lemma py_find_from_int:
  "k \<le> length s \<Longrightarrow> py_find_from s pat (int k) =
     (case find_sub pat (drop k s) of None \<Rightarrow> - 1 | Some i \<Rightarrow> int (k + i))"
  by (simp add: py_find_from_def)

section \<open>Splitting\<close>

text \<open>\<open>s.split(sep, k)\<close>: at most \<open>k\<close> cuts, from the left.\<close>

fun py_split_max :: "'a list \<Rightarrow> nat \<Rightarrow> 'a list \<Rightarrow> 'a list list" where
  "py_split_max sep 0 s = [s]"
| "py_split_max sep (Suc k) s =
     (case find_sub sep s of
        None \<Rightarrow> [s]
      | Some i \<Rightarrow> take i s # py_split_max sep k (drop (i + length sep) s))"

text \<open>\<open>s.split(sep)\<close>: a string of length \<open>n\<close> cannot be cut more than \<open>n\<close> times.\<close>

definition py_split :: "'a list \<Rightarrow> 'a list \<Rightarrow> 'a list list" where
  "py_split sep s = py_split_max sep (length s) s"

text \<open>\<open>sep.join(parts)\<close>.\<close>

fun py_join :: "'a list \<Rightarrow> 'a list list \<Rightarrow> 'a list" where
  "py_join sep [] = []"
| "py_join sep [x] = x"
| "py_join sep (x # y # zs) = x @ sep @ py_join sep (y # zs)"

lemma py_split_max_nonempty [simp]: "py_split_max sep k s \<noteq> []"
  by (cases k) (auto split: option.splits)

lemma py_split_nonempty [simp]: "py_split sep s \<noteq> []"
  by (simp add: py_split_def)

lemma py_join_Cons: "zs \<noteq> [] \<Longrightarrow> py_join sep (x # zs) = x @ sep @ py_join sep zs"
  by (cases zs) auto

lemma py_join_split_max: "py_join sep (py_split_max sep k s) = s"
proof (induction k arbitrary: s)
  case (Suc k)
  show ?case
  proof (cases "find_sub sep s")
    case (Some i)
    with Suc.IH find_sub_split [OF Some] show ?thesis by (simp add: py_join_Cons)
  qed simp
qed simp

lemma py_join_split: "py_join sep (py_split sep s) = s"
  by (simp add: py_split_def py_join_split_max)

text \<open>No piece of a full split holds the separator.\<close>

lemma py_split_max_pieces:
  "sep \<noteq> [] \<Longrightarrow> length s \<le> k \<Longrightarrow> x \<in> set (py_split_max sep k s) \<Longrightarrow> \<not> sublist sep x"
proof (induction k arbitrary: s)
  case (Suc k)
  show ?case
  proof (cases "find_sub sep s")
    case None
    with Suc.prems show ?thesis by (simp add: find_sub_None_iff)
  next
    case (Some i)
    have "length (drop (i + length sep) s) \<le> k"
      using Suc.prems(1,2) by (cases sep) auto
    from Some Suc.prems(3)
    have "x = take i s \<or> x \<in> set (py_split_max sep k (drop (i + length sep) s))" by simp
    with Suc.IH [OF Suc.prems(1) \<open>length (drop (i + length sep) s) \<le> k\<close>]
      not_sublist_before [OF Some Suc.prems(1)]
    show ?thesis by blast
  qed
qed auto

lemma py_split_pieces: "sep \<noteq> [] \<Longrightarrow> x \<in> set (py_split sep s) \<Longrightarrow> \<not> sublist sep x"
  unfolding py_split_def by (rule py_split_max_pieces) auto

text \<open>The first pieces of a bounded split do not hold the separator either.\<close>

lemma py_split_max_hd:
  "sep \<noteq> [] \<Longrightarrow> py_split_max sep (Suc k) s = x # y # zs \<Longrightarrow> \<not> sublist sep x"
  by (auto split: option.splits dest: not_sublist_before)

lemma py_split_max_tl:
  "py_split_max sep (Suc k) s = x # y # zs \<Longrightarrow>
    \<exists>t. py_split_max sep k t = y # zs \<and> s = x @ sep @ t"
  by (auto split: option.splits dest: find_sub_split)

text \<open>Splitting what was joined gives the pieces back.\<close>

lemma split_max_joined:
  assumes "sep \<noteq> []" and "find_sub sep (x @ sep @ t) = Some (length x)"
  shows "py_split_max sep (Suc k) (x @ sep @ t) = x # py_split_max sep k t"
  using assms by simp

section \<open>Stripping and case\<close>

definition py_space :: "char \<Rightarrow> bool" where
  "py_space c \<longleftrightarrow> (let n = (of_char c :: nat)
     in 9 \<le> n \<and> n \<le> 13 \<or> 28 \<le> n \<and> n \<le> 32 \<or> n = 133 \<or> n = 160)"

definition strip_by :: "('a \<Rightarrow> bool) \<Rightarrow> 'a list \<Rightarrow> 'a list" where
  "strip_by p s = rev (dropWhile p (rev (dropWhile p s)))"

definition py_strip :: "string \<Rightarrow> string" where
  "py_strip s = strip_by py_space s"

definition lower_char :: "char \<Rightarrow> char" where
  "lower_char c = (let n = (of_char c :: nat)
     in if 65 \<le> n \<and> n \<le> 90 \<or> 192 \<le> n \<and> n \<le> 222 \<and> n \<noteq> 215 then char_of (n + 32) else c)"

definition py_lower :: "string \<Rightarrow> string" where
  "py_lower s = map lower_char s"

text \<open>
  Upper case leaves latin-1 for three characters (the micro sign, sharp s and y with diaeresis),
  so the result is a list of code points.
\<close>

definition upper_char :: "char \<Rightarrow> nat list" where
  "upper_char c = (let n = (of_char c :: nat)
     in if 97 \<le> n \<and> n \<le> 122 \<or> 224 \<le> n \<and> n \<le> 254 \<and> n \<noteq> 247 then [n - 32]
        else if n = 181 then [924] else if n = 223 then [83, 83] else if n = 255 then [376]
        else [n])"

definition py_upper :: "string \<Rightarrow> nat list" where
  "py_upper s = concat (map upper_char s)"

definition code_points :: "string \<Rightarrow> nat list" where
  "code_points s = map of_char s"

lemma strip_by_sublist: "sublist (strip_by p s) s"
proof -
  have "prefix (rev (dropWhile p (rev (dropWhile p s)))) (dropWhile p s)"
    using suffix_dropWhile [of p "rev (dropWhile p s)"] by (simp add: suffix_to_prefix)
  then show ?thesis unfolding strip_by_def
    using prefix_imp_sublist suffix_dropWhile suffix_imp_sublist sublist_order.order_trans by metis
qed

lemma strip_by_fixed:
  "strip_by p s = s \<longleftrightarrow> (s = [] \<or> \<not> p (hd s) \<and> \<not> p (last s))"
proof (cases s)
  case (Cons a as)
  show ?thesis
  proof (cases "p a")
    case True
    have "length (dropWhile p (rev (dropWhile p as))) \<le> length as"
      by (metis length_dropWhile_le length_rev le_trans)
    with True have "length (strip_by p s) < length s" by (simp add: Cons strip_by_def)
    then have "strip_by p s \<noteq> s" by auto
    with True Cons show ?thesis by auto
  next
    case False
    then have "strip_by p s = rev (dropWhile p (rev s))" by (simp add: strip_by_def Cons)
    moreover have "rev (dropWhile p (rev s)) = s \<longleftrightarrow> dropWhile p (rev s) = rev s"
      by (metis rev_rev_ident)
    moreover have "rev s \<noteq> []" "hd (rev s) = last s" by (simp_all add: Cons hd_rev)
    ultimately show ?thesis using False Cons
      by (metis dropWhile_eq_self_iff list.sel(1) list.distinct(1))
  qed
qed (simp add: strip_by_def)

lemma strip_by_idem [simp]: "strip_by p (strip_by p s) = strip_by p s"
proof -
  let ?t = "dropWhile p s" let ?r = "dropWhile p (rev ?t)"
  show ?thesis unfolding strip_by_fixed
  proof (cases "?r = []")
    case False
    then have "\<not> p (hd ?r)" by (metis hd_dropWhile)
    moreover have "last ?r = last (rev ?t)" using False
      by (metis last_appendR takeWhile_dropWhile_id)
    moreover have "?t \<noteq> []" using False by (metis dropWhile.simps(1) rev.simps(1))
    ultimately show "strip_by p s = [] \<or> \<not> p (hd (strip_by p s)) \<and> \<not> p (last (strip_by p s))"
      using False by (auto simp: strip_by_def hd_rev last_rev hd_dropWhile)
  next
    case True
    then have "strip_by p s = []" by (simp only: strip_by_def rev.simps)
    then show "strip_by p s = [] \<or> \<not> p (hd (strip_by p s)) \<and> \<not> p (last (strip_by p s))"
      by simp
  qed
qed

lemma strip_by_Cons: "p c \<Longrightarrow> strip_by p (c # s) = strip_by p s"
  by (simp add: strip_by_def)

lemma py_strip_idem [simp]: "py_strip (py_strip s) = py_strip s"
  by (simp add: py_strip_def)

lemma py_strip_sublist: "sublist (py_strip s) s"
  by (simp add: py_strip_def strip_by_sublist)

lemma py_strip_space [simp]: "py_strip (CHR '' '' # s) = py_strip s"
  by (simp add: py_strip_def strip_by_Cons py_space_def)

section \<open>Integers\<close>

text \<open>The blanks \<open>int\<close> skips are fewer than those \<open>strip\<close> removes.\<close>

definition int_space :: "char \<Rightarrow> bool" where
  "int_space c \<longleftrightarrow> (let n = (of_char c :: nat)
     in 9 \<le> n \<and> n \<le> 13 \<or> n = 32 \<or> n = 133 \<or> n = 160)"

definition digit_val :: "nat \<Rightarrow> char \<Rightarrow> nat option" where
  "digit_val base c =
     (let n = (of_char c :: nat);
          d = (if 48 \<le> n \<and> n \<le> 57 then n - 48
               else if 97 \<le> n \<and> n \<le> 122 then n - 87
               else if 65 \<le> n \<and> n \<le> 90 then n - 55 else base)
      in if d < base then Some d else None)"

text \<open>
  Digits with single underscores between them; the flag says that a digit must come next.
\<close>

fun py_digits :: "nat \<Rightarrow> nat \<Rightarrow> bool \<Rightarrow> string \<Rightarrow> nat option" where
  "py_digits base acc need [] = (if need then None else Some acc)"
| "py_digits base acc need (c # cs) =
     (if c = CHR ''_'' then (if need then None else py_digits base acc True cs)
      else case digit_val base c of
          None \<Rightarrow> None
        | Some d \<Rightarrow> py_digits base (acc * base + d) False cs)"

text \<open>\<open>sys.int_info.default_max_str_digits\<close>: base 10 numerals with more digits are refused.\<close>

definition max_str_digits :: nat where
  "max_str_digits = 4300"

definition py_sign :: "string \<Rightarrow> int \<times> string" where
  "py_sign s = (case s of
      [] \<Rightarrow> (1, [])
    | c # cs \<Rightarrow> if c = CHR ''+'' then (1, cs) else if c = CHR ''-'' then (- 1, cs) else (1, c # cs))"

definition hex_prefix :: "string \<Rightarrow> string" where
  "hex_prefix s = (case s of
      a # x # u # r \<Rightarrow>
        if a = CHR ''0'' \<and> (x = CHR ''x'' \<or> x = CHR ''X'')
        then (if u = CHR ''_'' then r else u # r) else s
    | [a, x] \<Rightarrow> if a = CHR ''0'' \<and> (x = CHR ''x'' \<or> x = CHR ''X'') then [] else s
    | _ \<Rightarrow> s)"

text \<open>\<open>int(s)\<close> and \<open>int(s, 16)\<close>; \<open>None\<close> is the \<open>ValueError\<close>.\<close>

definition py_int :: "string \<Rightarrow> int option" where
  "py_int s =
     (let (sg, r) = py_sign (strip_by int_space s)
      in if max_str_digits < length (filter (\<lambda>c. c \<noteq> CHR ''_'') r) then None
         else map_option (\<lambda>n. sg * int n) (py_digits 10 0 True r))"

definition py_int16 :: "string \<Rightarrow> int option" where
  "py_int16 s =
     (let (sg, r) = py_sign (strip_by int_space s)
      in map_option (\<lambda>n. sg * int n) (py_digits 16 0 True (hex_prefix r)))"

text \<open>Printing a number in decimal, and in hexadecimal as a chunk size is written.\<close>

definition digit_char :: "nat \<Rightarrow> char" where
  "digit_char d = ''0123456789abcdef'' ! d"

fun show_base :: "nat \<Rightarrow> nat \<Rightarrow> string" where
  "show_base base n =
     (if n < base \<or> base < 2 then [digit_char n]
      else show_base base (n div base) @ [digit_char (n mod base)])"

declare show_base.simps [simp del]

definition show_int :: "int \<Rightarrow> string" where
  "show_int i = (if i < 0 then CHR ''-'' # show_base 10 (nat (- i)) else show_base 10 (nat i))"

definition show_hex :: "nat \<Rightarrow> string" where
  "show_hex n = show_base 16 n"

lemma of_char_digit:
  assumes "d < 16"
  shows "(of_char (digit_char d) :: nat) = (if d < 10 then d + 48 else d + 87)"
proof -
  have "list_all (\<lambda>d. (of_char (digit_char d) :: nat) = (if d < 10 then d + 48 else d + 87)) [0..<16]"
    by code_simp
  with assms show ?thesis by (simp add: list_all_iff)
qed

lemma digit_val_digit_char: "d < base \<Longrightarrow> base \<le> 16 \<Longrightarrow> digit_val base (digit_char d) = Some d"
  by (simp add: digit_val_def of_char_digit)

lemma digit_char_props:
  assumes "d < 16"
  shows "digit_char d \<noteq> CHR ''_''" "digit_char d \<noteq> CHR ''+''" "digit_char d \<noteq> CHR ''-''"
    "\<not> int_space (digit_char d)" "\<not> py_space (digit_char d)" "digit_char d \<noteq> CHR '';''"
    "digit_char d \<noteq> CHR 0x0D" "digit_char d \<noteq> CHR 0x0A" "digit_char d \<noteq> CHR ''x''"
    "digit_char d \<noteq> CHR ''X''"
proof -
  have n: "(of_char (digit_char d) :: nat) \<in> {48..57} \<union> {97..102}"
    using assms by (auto simp: of_char_digit)
  show "\<not> int_space (digit_char d)" "\<not> py_space (digit_char d)"
    using n by (auto simp: int_space_def py_space_def Let_def)
  show "digit_char d \<noteq> CHR ''_''" "digit_char d \<noteq> CHR ''+''" "digit_char d \<noteq> CHR ''-''"
    "digit_char d \<noteq> CHR '';''" "digit_char d \<noteq> CHR 0x0D" "digit_char d \<noteq> CHR 0x0A"
    "digit_char d \<noteq> CHR ''x''" "digit_char d \<noteq> CHR ''X''"
    using n by (auto simp del: of_char_mod_256)
qed

lemma show_base_nonempty [simp]: "show_base base n \<noteq> []"
  by (subst show_base.simps) simp

lemma show_base_digits:
  "2 \<le> base \<Longrightarrow> base \<le> 16 \<Longrightarrow> c \<in> set (show_base base n) \<Longrightarrow> \<exists>d < base. c = digit_char d"
proof (induction base n rule: show_base.induct)
  case (1 base n)
  have "n mod base < base" using 1(2) by simp
  moreover from 1(4) have "c = digit_char n \<and> n < base \<or> \<not> n < base \<and>
      (c \<in> set (show_base base (n div base)) \<or> c = digit_char (n mod base))"
    using 1(2) by (subst (asm) show_base.simps) (auto split: if_splits)
  moreover have "\<not> n < base \<Longrightarrow> c \<in> set (show_base base (n div base)) \<Longrightarrow> \<exists>d < base. c = digit_char d"
    using 1(1-3) by simp
  ultimately show ?case by blast
qed

lemma py_digits_append:
  "(\<And>c. c \<in> set xs \<Longrightarrow> c \<noteq> CHR ''_'' \<and> digit_val base c \<noteq> None) \<Longrightarrow> xs \<noteq> [] \<Longrightarrow>
    py_digits base acc need (xs @ ys) = py_digits base (the (py_digits base acc need xs)) False ys"
proof (induction xs arbitrary: acc need)
  case (Cons c xs)
  then obtain d where "digit_val base c = Some d" "c \<noteq> CHR ''_''" by fastforce
  with Cons show ?case by (cases xs) auto
qed simp

lemma py_digits_show:
  "2 \<le> base \<Longrightarrow> base \<le> 16 \<Longrightarrow> py_digits base 0 True (show_base base n) = Some n"
proof (induction base n rule: show_base.induct)
  case (1 base n)
  show ?case
  proof (cases "n < base")
    case True
    with 1 show ?thesis
      by (simp add: show_base.simps [of base n] digit_val_digit_char digit_char_props)
  next
    case False
    have d: "n mod base < base" using 1(2) by simp
    with 1(3) have d16: "n mod base < 16" by simp
    have pre: "c \<noteq> CHR ''_'' \<and> digit_val base c \<noteq> None"
      if "c \<in> set (show_base base (n div base))" for c
      using show_base_digits [OF 1(2,3) that] 1(3)
      by (auto simp: digit_val_digit_char digit_char_props)
    have "py_digits base 0 True (show_base base n) =
      py_digits base (the (py_digits base 0 True (show_base base (n div base)))) False
        [digit_char (n mod base)]"
      using False 1(2) by (subst show_base.simps) (simp add: py_digits_append [OF pre])
    with False 1 d d16 show ?thesis
      by (simp add: digit_val_digit_char digit_char_props)
  qed
qed

lemma show_base_ends:
  assumes "2 \<le> base" "base \<le> 16"
  obtains a b where "a < 16" "hd (show_base base n) = digit_char a"
    "b < 16" "last (show_base base n) = digit_char b"
proof -
  have "hd (show_base base n) \<in> set (show_base base n)" "last (show_base base n) \<in> set (show_base base n)"
    by simp_all
  with show_base_digits [OF assms] assms(2) that show ?thesis by (meson less_le_trans)
qed

lemma strip_by_digits:
  "2 \<le> base \<Longrightarrow> base \<le> 16 \<Longrightarrow> strip_by int_space (show_base base n) = show_base base n"
  unfolding strip_by_fixed by (metis digit_char_props(4) show_base_ends)

lemma py_strip_digits:
  "2 \<le> base \<Longrightarrow> base \<le> 16 \<Longrightarrow> py_strip (show_base base n) = show_base base n"
  unfolding py_strip_def strip_by_fixed by (metis digit_char_props(5) show_base_ends)

lemma py_sign_digits:
  assumes "2 \<le> base" "base \<le> 16"
  shows "py_sign (show_base base n) = (1, show_base base n)"
proof -
  obtain c cs where c: "show_base base n = c # cs" by (cases "show_base base n") auto
  with show_base_digits [OF assms, of c n] obtain d where "d < base" "c = digit_char d" by auto
  with c assms show ?thesis by (simp add: py_sign_def digit_char_props)
qed

lemma length_show_base_bound: "n < 10 ^ k \<Longrightarrow> 0 < k \<Longrightarrow> length (show_base 10 n) \<le> k"
proof (induction k arbitrary: n)
  case (Suc k)
  show ?case
  proof (cases "n < 10")
    case False
    with Suc.prems have "n div 10 < 10 ^ k" "0 < k" by (cases k; simp add: less_mult_imp_div_less mult.commute)+
    from Suc.IH [OF this] False show ?thesis by (subst show_base.simps) simp
  qed (simp add: show_base.simps)
qed simp

text \<open>What is printed in decimal is read back, up to the digit limit.\<close>

lemma py_int_show:
  assumes "length (show_base 10 n) \<le> max_str_digits"
  shows "py_int (show_base 10 n) = Some (int n)"
proof -
  have "length (filter (\<lambda>c. c \<noteq> CHR ''_'') (show_base 10 n)) \<le> max_str_digits"
    using assms length_filter_le order_trans by blast
  then show ?thesis
    by (simp add: py_int_def strip_by_digits py_sign_digits py_digits_show)
qed

lemma hex_prefix_digits: "hex_prefix (show_base 16 n) = show_base 16 n"
proof -
  have "CHR ''x'' \<notin> set (show_base 16 n)" "CHR ''X'' \<notin> set (show_base 16 n)"
    using show_base_digits [of 16 _ n] digit_char_props(9,10) by force+
  then show ?thesis by (auto simp: hex_prefix_def split: list.splits)
qed

lemma py_int16_show: "py_int16 (show_hex n) = Some (int n)"
  by (simp add: py_int16_def show_hex_def strip_by_digits py_sign_digits py_digits_show hex_prefix_digits)

end
