(* ===== verification/HttpRequest.thy ===== *)
theory HttpRequest
  imports PyText "HOL-Library.AList"
begin

text \<open>
  The request half of \<open>http_parser.py\<close>: parsing a buffer into an \<open>HttpRequest\<close>, the
  \<open>X-Forwarded-For\<close> injection and the serialisation of what is forwarded. A header dict is an
  association list in insertion order with distinct keys; assigning to a key it has keeps the
  key's place, as Python does (\<open>AList.update\<close>).
\<close>

section \<open>Data\<close>

definition LINE_DELIM :: bytes where
  "LINE_DELIM = [CHR 0x0D, CHR 0x0A]"

definition HEADER_DELIM :: bytes where
  "HEADER_DELIM = [CHR 0x0D, CHR 0x0A, CHR 0x0D, CHR 0x0A]"

type_synonym headers = "(string \<times> string) list"

record http_request =
  req_method :: string
  req_path :: string
  req_version :: string
  req_headers :: headers
  req_body :: bytes
  req_raw_header_bytes :: bytes
  req_header_length :: int

section \<open>Parsing\<close>

text \<open>\<open>get_content_length\<close>: the first key that matches, 0 when it is no number.\<close>

fun get_content_length :: "headers \<Rightarrow> int" where
  "get_content_length [] = 0"
| "get_content_length ((key, val) # hs) =
     (if py_lower key = ''content-length''
      then (case py_int val of None \<Rightarrow> 0 | Some n \<Rightarrow> n)
      else get_content_length hs)"

text \<open>One line of the header loop, then the loop.\<close>

definition header_of_line :: "string \<Rightarrow> (string \<times> string) option" where
  "header_of_line line =
     (let colon = py_find line '':''
      in if colon = - 1 then None
         else Some (py_strip (py_slice line 0 colon), py_strip (py_slice_from line (colon + 1))))"

fun parse_headers :: "headers \<Rightarrow> string list \<Rightarrow> headers" where
  "parse_headers hs [] = hs"
| "parse_headers hs (line # rest) =
     (case header_of_line line of
        None \<Rightarrow> parse_headers hs rest
      | Some (name, val) \<Rightarrow> parse_headers (AList.update name val hs) rest)"

definition try_parse_request :: "bytes \<Rightarrow> http_request option" where
  "try_parse_request buf =
     (let hdr_end = py_find buf HEADER_DELIM
      in if hdr_end = - 1 then None
         else let header_section = py_slice buf 0 hdr_end;
                  header_length = hdr_end + int (length HEADER_DELIM)
              in case py_split LINE_DELIM header_section of
                   [] \<Rightarrow> None
                 | request_line # lines \<Rightarrow>
                     (case py_split_max '' '' 2 request_line of
                        [method, path, version] \<Rightarrow>
                          (let headers = parse_headers [] lines;
                               total_needed = header_length + get_content_length headers
                           in if int (length buf) < total_needed then None
                              else Some \<lparr>req_method = method, req_path = path, req_version = version,
                                         req_headers = headers,
                                         req_body = py_slice buf header_length total_needed,
                                         req_raw_header_bytes = py_slice buf 0 header_length,
                                         req_header_length = header_length\<rparr>)
                      | _ \<Rightarrow> None))"

section \<open>Injection and serialisation\<close>

fun find_forwarded_for :: "headers \<Rightarrow> string option" where
  "find_forwarded_for [] = None"
| "find_forwarded_for ((key, _) # hs) =
     (if py_lower key = ''x-forwarded-for'' then Some key else find_forwarded_for hs)"

definition inject_forwarded_for :: "http_request \<Rightarrow> string \<Rightarrow> http_request" where
  "inject_forwarded_for req client_ip =
     (case find_forwarded_for (req_headers req) of
        Some existing \<Rightarrow>
          req\<lparr>req_headers := AList.update existing
                (the (map_of (req_headers req) existing) @ '', '' @ client_ip) (req_headers req)\<rparr>
      | None \<Rightarrow>
          req\<lparr>req_headers := AList.update ''X-Forwarded-For'' client_ip (req_headers req)\<rparr>)"

definition header_line :: "string \<times> string \<Rightarrow> string" where
  "header_line h = fst h @ '': '' @ snd h"

definition request_line :: "http_request \<Rightarrow> string" where
  "request_line req = req_method req @ '' '' @ req_path req @ '' '' @ req_version req"

definition serialise_request :: "http_request \<Rightarrow> bytes" where
  "serialise_request req =
     (let lines = request_line req # map header_line (req_headers req);
          header_block = py_join LINE_DELIM lines @ HEADER_DELIM
      in header_block @ req_body req)"

section \<open>Where the first blank line is\<close>

lemma delims: "HEADER_DELIM = LINE_DELIM @ LINE_DELIM" "length LINE_DELIM = 2"
  "length HEADER_DELIM = 4" "LINE_DELIM \<noteq> []" "HEADER_DELIM \<noteq> []"
  by (simp_all add: HEADER_DELIM_def LINE_DELIM_def)

definition clean_line :: "string \<Rightarrow> bool" where
  "clean_line l \<longleftrightarrow> \<not> sublist LINE_DELIM l"

lemma clean_line_Cons:
  "clean_line (c # l) \<longleftrightarrow> clean_line l \<and> \<not> prefix LINE_DELIM (c # l)"
  by (auto simp: clean_line_def sublist_Cons_right)

lemma clean_line_Nil [simp]: "clean_line []"
  by (simp add: clean_line_def LINE_DELIM_def)

lemma clean_sublist: "clean_line l \<Longrightarrow> sublist k l \<Longrightarrow> clean_line k"
  unfolding clean_line_def using sublist_order.order_trans by blast

lemma not_prefix_clean:
  "clean_line l \<Longrightarrow> l \<noteq> [] \<Longrightarrow> \<not> prefix LINE_DELIM (l @ LINE_DELIM @ t)"
  by (cases l; cases "tl l") (auto simp: clean_line_Cons LINE_DELIM_def)

lemma find_line_end:
  "clean_line l \<Longrightarrow> find_sub LINE_DELIM (l @ LINE_DELIM @ t) = Some (length l)"
proof (induction l)
  case Nil
  show ?case by (simp add: LINE_DELIM_def)
next
  case (Cons c l)
  with not_prefix_clean [of "c # l" t] show ?case by (simp add: clean_line_Cons)
qed

lemma find_line_None: "clean_line l \<Longrightarrow> find_sub LINE_DELIM l = None"
  by (simp add: clean_line_def find_sub_None_iff)

lemma find_blank_skip:
  "clean_line l \<Longrightarrow> \<not> prefix LINE_DELIM t \<Longrightarrow>
    find_sub HEADER_DELIM (l @ LINE_DELIM @ t) =
    map_option (\<lambda>i. length l + 2 + i) (find_sub HEADER_DELIM t)"
proof (induction l)
  case Nil
  then show ?case
    by (auto simp: LINE_DELIM_def HEADER_DELIM_def option.map_comp comp_def)
next
  case (Cons c l)
  have "\<not> prefix HEADER_DELIM ((c # l) @ LINE_DELIM @ t)"
    using not_prefix_clean [OF Cons.prems(1), of t] by (auto simp: delims dest: append_prefixD)
  with Cons show ?case by (auto simp: clean_line_Cons option.map_comp comp_def)
qed

lemma find_blank_here:
  assumes "clean_line l"
  shows "find_sub HEADER_DELIM (l @ HEADER_DELIM @ t) = Some (length l)"
  using assms
proof (induction l)
  case Nil
  show ?case by (simp add: HEADER_DELIM_def)
next
  case (Cons c l)
  have "\<not> prefix HEADER_DELIM ((c # l) @ HEADER_DELIM @ t)"
    using not_prefix_clean [OF Cons.prems, of "LINE_DELIM @ t"]
    by (auto simp: delims dest: append_prefixD)
  with Cons show ?case by (simp add: clean_line_Cons)
qed

lemma find_blank_joined:
  "ls \<noteq> [] \<Longrightarrow> \<forall>l \<in> set ls. clean_line l \<Longrightarrow> \<forall>l \<in> set (tl ls). l \<noteq> [] \<Longrightarrow>
    find_sub HEADER_DELIM (py_join LINE_DELIM ls @ HEADER_DELIM @ t) =
    Some (length (py_join LINE_DELIM ls))"
proof (induction LINE_DELIM ls rule: py_join.induct)
  case (3 x y zs)
  let ?rest = "py_join LINE_DELIM (y # zs) @ HEADER_DELIM @ t"
  have "\<not> prefix LINE_DELIM ?rest"
  proof (cases zs)
    case Nil
    with 3(3,4) not_prefix_clean [of y "LINE_DELIM @ t"] show ?thesis by (simp add: delims)
  next
    case (Cons z zs')
    with 3(3,4) not_prefix_clean [of y "py_join LINE_DELIM (z # zs') @ HEADER_DELIM @ t"]
    show ?thesis by simp
  qed
  with 3 find_blank_skip [of x ?rest] show ?case by (simp add: delims)
qed (simp_all add: find_blank_here)

lemma split_joined:
  "ls \<noteq> [] \<Longrightarrow> \<forall>l \<in> set ls. clean_line l \<Longrightarrow> length ls \<le> Suc k \<Longrightarrow>
    py_split_max LINE_DELIM k (py_join LINE_DELIM ls) = ls"
proof (induction LINE_DELIM ls arbitrary: k rule: py_join.induct)
  case (2 x)
  then show ?case by (cases k) (simp_all add: find_line_None)
next
  case (3 x y zs)
  then obtain k' where "k = Suc k'" by (cases k) auto
  with 3 find_line_end [of x] show ?case by (simp add: delims)
qed simp

lemma length_py_join: "length ls \<le> Suc (length (py_join LINE_DELIM ls))"
  by (induction LINE_DELIM ls rule: py_join.induct) (simp_all add: delims)

lemma py_split_joined:
  "ls \<noteq> [] \<Longrightarrow> \<forall>l \<in> set ls. clean_line l \<Longrightarrow> py_split LINE_DELIM (py_join LINE_DELIM ls) = ls"
  unfolding py_split_def by (rule split_joined) (auto intro: length_py_join)

section \<open>Header lines\<close>

definition clean_header :: "string \<times> string \<Rightarrow> bool" where
  "clean_header h \<longleftrightarrow> py_strip (fst h) = fst h \<and> py_strip (snd h) = snd h \<and>
     CHR '':'' \<notin> set (fst h) \<and> clean_line (fst h) \<and> clean_line (snd h)"

lemma find_char_notin: "c \<notin> set a \<Longrightarrow> find_sub [c] (a @ c # b) = Some (length a)"
  by (induction a) auto

lemma find_char_before: "find_sub [c] s = Some i \<Longrightarrow> c \<notin> set (take i s)"
  using not_sublist_before [of "[c]" s i] by (simp add: sublist_code(3) in_set_conv_decomp sublist_def)

lemma clean_append:
  "c \<noteq> CHR 0x0D \<Longrightarrow> c \<noteq> CHR 0x0A \<Longrightarrow> clean_line (a @ c # b) \<longleftrightarrow> clean_line a \<and> clean_line b"
proof (induction a)
  case (Cons x a)
  have "prefix LINE_DELIM ((x # a) @ c # b) \<longleftrightarrow> prefix LINE_DELIM (x # a)" if "c \<noteq> CHR 0x0A"
    using that by (cases a) (auto simp: LINE_DELIM_def)
  with Cons show ?case by (auto simp: clean_line_Cons)
qed (auto simp: clean_line_Cons LINE_DELIM_def)

lemma clean_header_line: "clean_header h \<Longrightarrow> clean_line (header_line h)"
  using clean_append [of "CHR '' ''" "[]" "snd h"]
  by (simp add: clean_header_def header_line_def clean_append)

lemma header_line_nonempty [simp]: "header_line h \<noteq> []"
  by (simp add: header_line_def)

lemma header_of_line_back:
  assumes "clean_header h"
  shows "header_of_line (header_line h) = Some h"
proof -
  have "find_sub '':'' (header_line h) = Some (length (fst h))"
    using assms find_char_notin [of "CHR '':''" "fst h"] by (simp add: clean_header_def header_line_def)
  moreover have "py_slice_from (header_line h) (int (length (fst h)) + 1) = CHR '' '' # snd h"
    using py_slice_from_int [of "header_line h" "length (fst h) + 1"]
    by (simp add: header_line_def add.commute)
  ultimately show ?thesis using assms
    by (simp add: header_of_line_def Let_def clean_header_def) (simp add: header_line_def)
qed

lemma header_of_line_clean:
  assumes "clean_line l" and "header_of_line l = Some h"
  shows "clean_header h"
proof -
  obtain i where i: "find_sub '':'' l = Some i"
    using assms(2) by (cases "find_sub '':'' l") (auto simp: header_of_line_def)
  then have h: "h = (py_strip (take i l), py_strip (drop (Suc i) l))"
    using assms(2) py_slice_from_int [of l "Suc i"] by (simp add: header_of_line_def Let_def add.commute)
  have "clean_line (py_strip (take i l))" "clean_line (py_strip (drop (Suc i) l))"
    using assms(1) clean_sublist py_strip_sublist sublist_take sublist_drop by blast+
  moreover have "CHR '':'' \<notin> set (py_strip (take i l))"
    using find_char_before [OF i] set_mono_sublist [OF py_strip_sublist] by blast
  ultimately show ?thesis by (simp add: h clean_header_def)
qed

lemma update_new: "k \<notin> set (map fst hs) \<Longrightarrow> AList.update k v hs = hs @ [(k, v)]"
  by (induction hs) auto

lemma set_update_subset: "set (AList.update k v hs) \<subseteq> insert (k, v) (set hs)"
  by (induction hs) auto

lemma parse_headers_back:
  "\<forall>h \<in> set hs'. clean_header h \<Longrightarrow> distinct (map fst (hs @ hs')) \<Longrightarrow>
    parse_headers hs (map header_line hs') = hs @ hs'"
  by (induction hs' arbitrary: hs) (simp_all add: header_of_line_back update_new case_prod_unfold)

lemma parse_headers_clean:
  "\<forall>l \<in> set lines. clean_line l \<Longrightarrow> \<forall>h \<in> set hs. clean_header h \<Longrightarrow> distinct (map fst hs) \<Longrightarrow>
    (\<forall>h \<in> set (parse_headers hs lines). clean_header h) \<and> distinct (map fst (parse_headers hs lines))"
proof (induction lines arbitrary: hs)
  case (Cons l lines)
  show ?case
  proof (cases "header_of_line l")
    case (Some h)
    with Cons.prems have "clean_header h" by (auto intro: header_of_line_clean)
    then have "\<forall>h' \<in> set (AList.update (fst h) (snd h) hs). clean_header h'"
      using Cons.prems(2) set_update_subset [of "fst h" "snd h" hs] by auto
    with Cons Some show ?thesis by (simp add: case_prod_unfold distinct_update)
  qed (use Cons in simp)
qed simp

section \<open>Well-formed requests\<close>

definition wf_request :: "http_request \<Rightarrow> bool" where
  "wf_request req \<longleftrightarrow>
     CHR '' '' \<notin> set (req_method req) \<and> CHR '' '' \<notin> set (req_path req) \<and>
     clean_line (request_line req) \<and> distinct (map fst (req_headers req)) \<and>
     (\<forall>h \<in> set (req_headers req). clean_header h) \<and>
     get_content_length (req_headers req) = int (length (req_body req))"

definition header_block :: "http_request \<Rightarrow> bytes" where
  "header_block req =
     py_join LINE_DELIM (request_line req # map header_line (req_headers req)) @ HEADER_DELIM"

lemma serialise_split: "serialise_request req = header_block req @ req_body req"
  by (simp add: serialise_request_def header_block_def)

lemma split_request_line:
  "CHR '' '' \<notin> set m \<Longrightarrow> CHR '' '' \<notin> set p \<Longrightarrow>
    py_split_max '' '' 2 (m @ '' '' @ p @ '' '' @ v) = [m, p, v]"
  by (simp add: numeral_2_eq_2 find_char_notin)

lemma split_request_lineD:
  assumes "py_split_max '' '' 2 l = [m, p, v]"
  shows "l = m @ '' '' @ p @ '' '' @ v" and "CHR '' '' \<notin> set m" and "CHR '' '' \<notin> set p"
  using assms py_join_split_max [of "'' ''" 2 l]
  by (auto simp: numeral_2_eq_2 dest: find_char_before split: option.splits)

text \<open>The blank line of a serialised request, seen from any buffer that starts with its header block.\<close>

lemma find_header_block:
  assumes "wf_request req"
  shows "find_sub HEADER_DELIM (header_block req @ t) = Some (length (header_block req) - 4)"
proof -
  have "\<forall>l \<in> set (request_line req # map header_line (req_headers req)). clean_line l"
    using assms by (auto simp: wf_request_def clean_header_line)
  from find_blank_joined [OF _ this] show ?thesis by (simp add: header_block_def delims(3))
qed

text \<open>The parser's equation once its three splits are known.\<close>

definition request_at :: "bytes \<Rightarrow> nat \<Rightarrow> string \<times> string \<times> string \<Rightarrow> headers \<Rightarrow> http_request" where
  "request_at buf n l hs = \<lparr>req_method = fst l, req_path = fst (snd l), req_version = snd (snd l),
     req_headers = hs, req_body = py_slice buf (int n) (int n + get_content_length hs),
     req_raw_header_bytes = take n buf, req_header_length = int n\<rparr>"

lemma try_parse_eq:
  assumes "find_sub HEADER_DELIM buf = Some i" and "py_split LINE_DELIM (take i buf) = l # ls"
    and "py_split_max '' '' 2 l = [m, p, v]"
  shows "try_parse_request buf =
    (if int (length buf) < int (i + 4) + get_content_length (parse_headers [] ls) then None
     else Some (request_at buf (i + 4) (m, p, v) (parse_headers [] ls)))"
proof -
  have "py_slice buf 0 (int i + 4) = take (i + 4) buf"
    using py_slice_prefix [of buf "i + 4"] by simp
  with assms show ?thesis
    by (simp add: try_parse_request_def request_at_def delims(3) Let_def)
qed

lemma try_parse_SomeD:
  assumes "try_parse_request buf = Some req"
  obtains i l ls m p v where "find_sub HEADER_DELIM buf = Some i"
    "py_split LINE_DELIM (take i buf) = l # ls" "py_split_max '' '' 2 l = [m, p, v]"
    "req = request_at buf (i + 4) (m, p, v) (parse_headers [] ls)"
    "int (i + 4) + get_content_length (parse_headers [] ls) \<le> int (length buf)"
proof -
  obtain i where i: "find_sub HEADER_DELIM buf = Some i"
    using assms by (cases "find_sub HEADER_DELIM buf") (auto simp: try_parse_request_def)
  obtain l ls where ls: "py_split LINE_DELIM (take i buf) = l # ls"
    by (cases "py_split LINE_DELIM (take i buf)") auto
  obtain m p v where "py_split_max '' '' 2 l = [m, p, v]"
    using assms i ls by (auto simp: try_parse_request_def Let_def split: list.splits)
  with try_parse_eq [OF i ls this] assms that i ls show ?thesis by (auto split: if_splits)
qed

lemma parse_block:
  assumes "wf_request req"
  shows "try_parse_request (header_block req @ t) =
    (if length t < length (req_body req) then None
     else Some (req\<lparr>req_body := take (length (req_body req)) t,
       req_raw_header_bytes := header_block req,
       req_header_length := int (length (header_block req))\<rparr>))"
proof -
  let ?ls = "request_line req # map header_line (req_headers req)"
  let ?n = "length (header_block req)" let ?b = "length (req_body req)"
  have clean: "\<forall>l \<in> set ?ls. clean_line l"
    using assms by (auto simp: wf_request_def clean_header_line)
  have n: "?n = length (py_join LINE_DELIM ?ls) + 4" by (simp add: header_block_def delims)
  have sect: "py_split LINE_DELIM (take (?n - 4) (header_block req @ t)) = ?ls"
    using py_split_joined [OF _ clean] by (simp add: n) (simp add: header_block_def)
  have hdrs: "parse_headers [] (map header_line (req_headers req)) = req_headers req"
    using assms by (simp add: wf_request_def parse_headers_back)
  have cl: "get_content_length (req_headers req) = int ?b"
    using assms by (simp add: wf_request_def)
  have line: "py_split_max '' '' 2 (request_line req) = [req_method req, req_path req, req_version req]"
    using assms split_request_line by (simp add: wf_request_def request_line_def)
  have body: "py_slice (header_block req @ t) (int ?n) (int ?n + int ?b) = take ?b t"
    using py_slice_length [of "header_block req @ t" ?n ?b] by simp
  from n have "?n - 4 + 4 = ?n" by simp
  with try_parse_eq [OF find_header_block [OF assms] sect line] show ?thesis
    by (simp add: hdrs cl request_at_def body)
qed

section \<open>What the parser returns is well formed\<close>

lemma parse_wf:
  assumes "try_parse_request buf = Some req" and "0 \<le> get_content_length (req_headers req)"
  shows "wf_request req"
  using assms(1)
proof (cases rule: try_parse_SomeD)
  case (1 i l ls m p v)
  let ?hs = "parse_headers [] ls"
  have clean: "clean_line x" if "x = l \<or> x \<in> set ls" for x
    using py_split_pieces [of LINE_DELIM x "take i buf"] that 1(2) by (auto simp: clean_line_def delims)
  have hs: "(\<forall>h \<in> set ?hs. clean_header h) \<and> distinct (map fst ?hs)"
    using clean by (intro parse_headers_clean) auto
  define k where "k = nat (get_content_length ?hs)"
  have k: "get_content_length ?hs = int k" using assms(2) by (simp add: 1(4) request_at_def k_def)
  have "length (py_slice buf (int (i + 4)) (int (i + 4) + get_content_length ?hs)) = k"
    using 1(5) unfolding k py_slice_length by simp
  with hs split_request_lineD [OF 1(3)] clean [of l] k show ?thesis
    by (simp add: wf_request_def 1(4) request_at_def request_line_def)
qed

lemma parse_shape:
  assumes "try_parse_request buf = Some req" and "0 \<le> get_content_length (req_headers req)"
  shows "take (nat (req_header_length req)) buf = req_raw_header_bytes req"
    and "prefix (req_raw_header_bytes req @ req_body req) buf"
    and "int (length (req_raw_header_bytes req)) = req_header_length req"
proof -
  from assms(1) obtain i where i: "find_sub HEADER_DELIM buf = Some i"
    and r: "req_raw_header_bytes req = take (i + 4) buf" "req_header_length req = int (i + 4)"
      "req_body req = py_slice buf (int (i + 4)) (int (i + 4) + get_content_length (req_headers req))"
    by (cases rule: try_parse_SomeD) (auto simp: request_at_def)
  have n: "i + 4 \<le> length buf" using find_sub_bound [OF i] by (simp add: delims)
  show "take (nat (req_header_length req)) buf = req_raw_header_bytes req"
    "int (length (req_raw_header_bytes req)) = req_header_length req" using n unfolding r nat_int by simp_all
  obtain k where k: "get_content_length (req_headers req) = int k"
    using assms(2) nonneg_int_cases by blast
  have "req_body req = take k (drop (i + 4) buf)" unfolding r k py_slice_length ..
  then show "prefix (req_raw_header_bytes req @ req_body req) buf"
    by (metis r(1) append_take_drop_id same_prefix_prefix take_is_prefix)
qed

text \<open>Bytes that follow a complete request do not change it.\<close>

lemma parse_append:
  assumes "try_parse_request buf = Some req" and "0 \<le> get_content_length (req_headers req)"
  shows "try_parse_request (buf @ ext) = Some req"
  using assms(1)
proof (cases rule: try_parse_SomeD)
  case (1 i l ls m p v)
  have n: "i + 4 \<le> length buf" using find_sub_bound [OF 1(1)] by (simp add: delims)
  obtain k where k: "get_content_length (parse_headers [] ls) = int k"
    using assms(2) nonneg_int_cases by (auto simp: 1(4) request_at_def)
  have "py_split LINE_DELIM (take i (buf @ ext)) = l # ls" using n 1(2) by simp
  note eq = try_parse_eq [OF find_sub_append [OF 1(1), of ext] this 1(3)]
  have "py_slice (buf @ ext) (int (i + 4)) (int (i + 4) + int k) =
      py_slice buf (int (i + 4)) (int (i + 4) + int k)"
    using n 1(5) unfolding py_slice_length k by simp
  with eq 1(4,5) n show ?thesis by (simp add: request_at_def k)
qed

section \<open>The injection\<close>

lemma find_forwarded_for_Some:
  "find_forwarded_for hs = Some k \<Longrightarrow> k \<in> set (map fst hs) \<and> py_lower k = ''x-forwarded-for''"
  by (induction hs rule: find_forwarded_for.induct) (auto split: if_splits)

lemma find_forwarded_for_None:
  "find_forwarded_for hs = None \<longleftrightarrow> (\<forall>k \<in> set (map fst hs). py_lower k \<noteq> ''x-forwarded-for'')"
  by (induction hs rule: find_forwarded_for.induct) auto

lemma lower_xff: "py_lower ''X-Forwarded-For'' = ''x-forwarded-for''"
  by code_simp

lemma content_length_update:
  "py_lower k \<noteq> ''content-length'' \<Longrightarrow> get_content_length (AList.update k v hs) = get_content_length hs"
  by (induction hs rule: get_content_length.induct) auto

definition xff_key :: "headers \<Rightarrow> string" where
  "xff_key hs = (case find_forwarded_for hs of None \<Rightarrow> ''X-Forwarded-For'' | Some k \<Rightarrow> k)"

definition xff_value :: "headers \<Rightarrow> string \<Rightarrow> string" where
  "xff_value hs ip = (case find_forwarded_for hs of None \<Rightarrow> ip | Some k \<Rightarrow> the (map_of hs k) @ '', '' @ ip)"

lemma inject_eq:
  "inject_forwarded_for req ip =
    req\<lparr>req_headers := AList.update (xff_key (req_headers req)) (xff_value (req_headers req) ip) (req_headers req)\<rparr>"
  by (simp add: inject_forwarded_for_def xff_key_def xff_value_def split: option.splits)

lemma xff_key_lower: "py_lower (xff_key hs) = ''x-forwarded-for''"
  by (auto simp: xff_key_def lower_xff find_forwarded_for_Some split: option.splits)

lemma inject_content_length:
  "get_content_length (req_headers (inject_forwarded_for req ip)) = get_content_length (req_headers req)"
  by (simp add: inject_eq content_length_update xff_key_lower)

lemma inject_lookup:
  "map_of (req_headers (inject_forwarded_for req ip)) =
    (map_of (req_headers req))(xff_key (req_headers req) \<mapsto> xff_value (req_headers req) ip)"
  by (simp add: inject_eq update_conv')

text \<open>The textual form of a peer address: no blanks, at least one character.\<close>

definition clean_ip :: "string \<Rightarrow> bool" where
  "clean_ip ip \<longleftrightarrow> ip \<noteq> [] \<and> (\<forall>c \<in> set ip. \<not> py_space c)"

lemma clean_ip_line: "clean_ip ip \<Longrightarrow> clean_line ip \<and> py_strip ip = ip"
proof -
  assume ip: "clean_ip ip"
  have "\<not> sublist LINE_DELIM ip"
  proof
    assume "sublist LINE_DELIM ip"
    then have "set LINE_DELIM \<subseteq> set ip" by (rule set_mono_sublist)
    with ip show False by (auto simp: clean_ip_def LINE_DELIM_def py_space_def)
  qed
  with ip show ?thesis by (auto simp: clean_line_def py_strip_def strip_by_fixed clean_ip_def)
qed

lemma clean_append_ip:
  assumes "clean_header (k, v)" and "clean_ip ip"
  shows "clean_header (k, v @ '', '' @ ip)"
proof -
  have "clean_line ('','' @ '' '' @ ip)" using clean_ip_line [OF assms(2)]
      clean_append [of "CHR '' ''" "'',''" ip] clean_append [of "CHR '',''" "[]" "[]"] by simp
  then have "clean_line ('' '' @ ip)" by (simp add: clean_line_Cons)
  with assms clean_append [of "CHR '',''" v "'' '' @ ip"] have "clean_line (v @ '', '' @ ip)"
    by (simp add: clean_header_def)
  moreover have "py_strip (v @ '', '' @ ip) = v @ '', '' @ ip"
    using assms by (cases v)
      (auto simp: clean_header_def py_strip_def strip_by_fixed clean_ip_def, simp_all add: py_space_def)
  ultimately show ?thesis using assms(1) by (simp add: clean_header_def)
qed

lemma inject_wf:
  assumes "wf_request req" and "clean_ip ip"
  shows "wf_request (inject_forwarded_for req ip)"
proof -
  let ?k = "xff_key (req_headers req)" let ?v = "xff_value (req_headers req) ip"
  have "clean_header (?k, ?v)"
  proof (cases "find_forwarded_for (req_headers req)")
    case None
    have "py_strip ''X-Forwarded-For'' = ''X-Forwarded-For''" "clean_line ''X-Forwarded-For''"
      by (simp add: py_strip_def strip_by_fixed py_space_def)
        (simp add: clean_line_def LINE_DELIM_def sublist_Cons_right)
    with None clean_ip_line [OF assms(2)] show ?thesis
      by (simp add: xff_key_def xff_value_def clean_header_def)
  next
    case (Some k)
    then obtain v where "map_of (req_headers req) k = Some v"
      using find_forwarded_for_Some [OF Some] by (metis map_of_eq_None_iff not_None_eq set_map)
    moreover from this have "clean_header (k, v)"
      using assms(1) by (auto simp: wf_request_def dest: map_of_SomeD)
    ultimately show ?thesis using Some clean_append_ip [OF _ assms(2)]
      by (simp add: xff_key_def xff_value_def)
  qed
  with assms(1) set_update_subset [of ?k ?v "req_headers req"] show ?thesis
    using inject_content_length [of req ip]
    by (auto simp: wf_request_def inject_eq distinct_update request_line_def)
qed

section \<open>Requests that arrive in parts\<close>

lemma parse_incomplete:
  assumes "wf_request req" and "strict_prefix q (serialise_request req)"
  shows "try_parse_request q = None"
proof -
  from assms(2) show ?thesis unfolding serialise_split
  proof (cases rule: strict_prefix_append)
    case 1
    have "length (header_block req) = length (header_block req) - 4 + length HEADER_DELIM"
      by (simp add: header_block_def delims)
    with 1 find_header_block [OF assms(1), of "[]"] have "find_sub HEADER_DELIM q = None"
      by (intro strict_prefix_find [of _ "header_block req"]) simp_all
    then show ?thesis by (simp add: try_parse_request_def)
  next
    case (2 d)
    with prefix_length_less [OF 2(2)] show ?thesis by (simp add: parse_block [OF assms(1)])
  qed
qed

lemma parse_complete:
  assumes "wf_request req"
  shows "\<exists>raw n. try_parse_request (serialise_request req) =
    Some (req\<lparr>req_raw_header_bytes := raw, req_header_length := n\<rparr>)"
  using parse_block [OF assms, of "req_body req"] by (auto simp: serialise_split)

end
