(* ===== verification/HttpResponse.thy ===== *)
theory HttpResponse
  imports HttpRequest
begin

text \<open>
  The response half of \<open>http_parser.py\<close>: the status line, the framing headers, and the scan of a
  chunked body. The scan is a loop whose position may also move backwards, so it is a partial
  function: \<open>None\<close> is a scan that never returns.
\<close>

section \<open>Status line and framing headers\<close>

definition parse_response_status :: "bytes \<Rightarrow> int option \<times> string option" where
  "parse_response_status buf =
     (let end_pos = py_find buf LINE_DELIM
      in if end_pos = - 1 then (None, None)
         else case py_split_max '' '' 2 (py_slice buf 0 end_pos) of
                [_, code] \<Rightarrow>
                  (case py_int code of None \<Rightarrow> (None, None) | Some c \<Rightarrow> (Some c, Some ''''))
              | [_, code, reason] \<Rightarrow>
                  (case py_int code of None \<Rightarrow> (None, None) | Some c \<Rightarrow> (Some c, Some reason))
              | _ \<Rightarrow> (None, None))"

definition CONTENT_LENGTH_ABSENT :: int where
  "CONTENT_LENGTH_ABSENT = - 2"

fun length_of_lines :: "string list \<Rightarrow> int" where
  "length_of_lines [] = CONTENT_LENGTH_ABSENT"
| "length_of_lines (line # rest) =
     (case header_of_line line of
        None \<Rightarrow> length_of_lines rest
      | Some (name, val) \<Rightarrow>
          if py_lower name = ''content-length''
          then (case py_int val of None \<Rightarrow> 0 | Some n \<Rightarrow> n)
          else length_of_lines rest)"

definition get_response_content_length :: "bytes \<Rightarrow> int" where
  "get_response_content_length buf =
     (let hdr_end = py_find buf HEADER_DELIM
      in if hdr_end = - 1 then - 1
         else length_of_lines (tl (py_split LINE_DELIM (py_slice buf 0 hdr_end))))"

fun chunked_in_lines :: "string list \<Rightarrow> bool" where
  "chunked_in_lines [] = False"
| "chunked_in_lines (line # rest) =
     (case header_of_line line of
        None \<Rightarrow> chunked_in_lines rest
      | Some (name, val) \<Rightarrow>
          if py_lower name = ''transfer-encoding''
          then ''chunked'' \<in> set (map py_strip (py_split '','' (py_lower val)))
          else chunked_in_lines rest)"

definition is_chunked_response :: "bytes \<Rightarrow> bool option" where
  "is_chunked_response buf =
     (let hdr_end = py_find buf HEADER_DELIM
      in if hdr_end = - 1 then None
         else Some (chunked_in_lines (tl (py_split LINE_DELIM (py_slice buf 0 hdr_end)))))"

section \<open>The chunked scan\<close>

text \<open>The size on the line at \<open>pos\<close>, chunk extensions cut off.\<close>

definition chunk_size_of :: "string \<Rightarrow> int option" where
  "chunk_size_of size_line = py_int16 (py_strip (hd (py_split_max '';'' 1 size_line)))"

text \<open>
  One round of the \<open>while True\<close> loop: it returns (\<open>Inl\<close>) or goes on at a new position (\<open>Inr\<close>).
\<close>

definition chunk_step :: "bytes \<Rightarrow> int \<Rightarrow> int option + int" where
  "chunk_step body pos =
     (let line_end = py_find_from body LINE_DELIM pos
      in if line_end = - 1 then Inl None
         else case chunk_size_of (py_slice body pos line_end) of
                None \<Rightarrow> Inl None
              | Some chunk_size \<Rightarrow>
                  let pos1 = line_end + int (length LINE_DELIM)
                  in if chunk_size = 0
                     then let trailer_end = py_find_from body HEADER_DELIM pos1
                          in if trailer_end = - 1
                             then (if py_slice body pos1 (pos1 + int (length LINE_DELIM)) = LINE_DELIM
                                   then Inl (Some (pos1 + int (length LINE_DELIM))) else Inl None)
                             else Inl (Some (trailer_end + int (length HEADER_DELIM)))
                     else let need = chunk_size + int (length LINE_DELIM)
                          in if pos1 + need > int (length body) then Inl None
                             else let pos2 = pos1 + chunk_size
                                  in if py_slice body pos2 (pos2 + int (length LINE_DELIM)) \<noteq> LINE_DELIM
                                     then Inl None
                                     else Inr (pos2 + int (length LINE_DELIM)))"

partial_function (option) chunk_loop :: "bytes \<Rightarrow> int \<Rightarrow> int option option" where
  "chunk_loop body pos =
     (case chunk_step body pos of Inl r \<Rightarrow> Some r | Inr pos' \<Rightarrow> chunk_loop body pos')"

definition try_consume_chunked_body :: "bytes \<Rightarrow> int option option" where
  "try_consume_chunked_body body = chunk_loop body 0"

lemma chunk_loop_Inl: "chunk_step body pos = Inl r \<Longrightarrow> chunk_loop body pos = Some r"
  by (simp add: chunk_loop.simps)

lemma chunk_loop_Inr: "chunk_step body pos = Inr p \<Longrightarrow> chunk_loop body pos = chunk_loop body p"
  by (subst chunk_loop.simps) simp

section \<open>Reference encoding\<close>

text \<open>
  A chunk as RFC 7230 writes it: the size in hexadecimal, an optional extension that starts with
  a semicolon, and the data; the message ends with a zero chunk and the trailer lines.
\<close>

definition ext_ok :: "string \<Rightarrow> bool" where
  "ext_ok ext \<longleftrightarrow> (ext = [] \<or> hd ext = CHR '';'') \<and> clean_line ext"

definition encode_chunk :: "string \<times> bytes \<Rightarrow> bytes" where
  "encode_chunk c = show_hex (length (snd c)) @ fst c @ LINE_DELIM @ snd c @ LINE_DELIM"

definition encode_trailers :: "string list \<Rightarrow> bytes" where
  "encode_trailers ts = (if ts = [] then LINE_DELIM else py_join LINE_DELIM ts @ HEADER_DELIM)"

definition encode_last :: "string list \<Rightarrow> bytes" where
  "encode_last ts = ''0'' @ LINE_DELIM @ encode_trailers ts"

definition encode_chunked :: "(string \<times> bytes) list \<Rightarrow> string list \<Rightarrow> bytes" where
  "encode_chunked cs ts = concat (map encode_chunk cs) @ encode_last ts"

definition chunk_ok :: "string \<times> bytes \<Rightarrow> bool" where
  "chunk_ok c \<longleftrightarrow> ext_ok (fst c) \<and> snd c \<noteq> []"

definition trailers_ok :: "string list \<Rightarrow> bool" where
  "trailers_ok ts \<longleftrightarrow> (\<forall>t \<in> set ts. clean_line t \<and> t \<noteq> [])"

section \<open>Size lines\<close>

lemma hex_chars:
  "c \<in> set (show_hex n) \<Longrightarrow> c \<noteq> CHR '';'' \<and> c \<noteq> CHR 0x0D \<and> c \<noteq> CHR 0x0A"
  using show_base_digits [of 16 c n] digit_char_props by (force simp: show_hex_def)

lemma clean_hex_append: "clean_line ext \<Longrightarrow> clean_line (show_hex n @ ext)"
proof -
  have "clean_line (s @ ext)" if "CHR 0x0D \<notin> set s" "clean_line ext" for s
    using that by (induction s) (auto simp: clean_line_Cons LINE_DELIM_def)
  then show "clean_line ext \<Longrightarrow> clean_line (show_hex n @ ext)" using hex_chars by blast
qed

lemma find_sub_notin: "c \<notin> set s \<Longrightarrow> find_sub [c] s = None"
  by (induction s) auto

lemma chunk_size_line:
  assumes "ext_ok ext"
  shows "chunk_size_of (show_hex n @ ext) = Some (int n)"
proof -
  have no: "CHR '';'' \<notin> set (show_hex n)" using hex_chars by blast
  have "hd (py_split_max '';'' 1 (show_hex n @ ext)) = show_hex n"
  proof (cases ext)
    case Nil
    with find_sub_notin [OF no] show ?thesis by simp
  next
    case (Cons c cs)
    with assms find_char_notin [OF no, of cs] show ?thesis by (simp add: ext_ok_def)
  qed
  then show ?thesis
    using py_strip_digits [of 16 n] py_int16_show [of n] by (simp add: chunk_size_of_def show_hex_def)
qed

lemma chunk_size_zero: "chunk_size_of ''0'' = Some 0"
  using chunk_size_line [of "[]" 0] by (simp add: ext_ok_def show_hex_def show_base.simps digit_char_def)

section \<open>One round, by position\<close>

lemma py_find_from_at:
  "py_find_from (pre @ s) pat (int (length pre)) =
    (case find_sub pat s of None \<Rightarrow> - 1 | Some i \<Rightarrow> int (length pre + i))"
  by (simp add: py_find_from_int)

lemma py_slice_at: "py_slice (pre @ s) (int (length pre)) (int (length pre + k)) = take k s"
  using py_slice_length [of "pre @ s" "length pre" k] by simp

lemma step_no_line: "find_sub LINE_DELIM s = None \<Longrightarrow> chunk_step (pre @ s) (int (length pre)) = Inl None"
  by (simp add: chunk_step_def py_find_from_at)

text \<open>A round that finds its size line, with everything relative to what follows the line.\<close>

lemma step_line:
  assumes "clean_line l" and "chunk_size_of l = Some n"
  shows "chunk_step (pre @ l @ LINE_DELIM @ t) (int (length pre)) =
    (let p = length pre + length l + 2
     in if n = 0
        then (case find_sub HEADER_DELIM t of
                None \<Rightarrow> if take 2 t = LINE_DELIM then Inl (Some (int (p + 2))) else Inl None
              | Some i \<Rightarrow> Inl (Some (int (p + i + 4))))
        else if int p + n + 2 > int (length pre + length l + 2 + length t) then Inl None
        else if py_slice (pre @ l @ LINE_DELIM @ t) (int p + n) (int p + n + 2) \<noteq> LINE_DELIM then Inl None
        else Inr (int p + n + 2))"
proof -
  let ?b = "pre @ l @ LINE_DELIM @ t" let ?p = "length pre + length l + 2"
  have f: "py_find_from ?b LINE_DELIM (int (length pre)) = int (length pre + length l)"
    using find_line_end [OF assms(1)] by (simp add: py_find_from_at)
  have s: "py_slice ?b (int (length pre)) (int (length pre + length l)) = l"
    using py_slice_at [of pre "l @ LINE_DELIM @ t" "length l"] by simp
  have b: "?b = (pre @ l @ LINE_DELIM) @ t" and p: "length (pre @ l @ LINE_DELIM) = ?p"
    by (simp_all add: delims)
  have h: "py_find_from ?b HEADER_DELIM (int ?p) =
      (case find_sub HEADER_DELIM t of None \<Rightarrow> - 1 | Some i \<Rightarrow> int (?p + i))"
    using py_find_from_at [of "pre @ l @ LINE_DELIM" t HEADER_DELIM] unfolding b p .
  have s2: "py_slice ?b (int ?p) (int ?p + int 2) = take 2 t"
    using py_slice_at [of "pre @ l @ LINE_DELIM" t 2] unfolding b p by simp
  have q: "int (length pre + length l) + int (length LINE_DELIM) = int ?p" by (simp add: delims)
  have len: "length ?b = length pre + length l + 2 + length t" by (simp add: delims)
  show ?thesis
    unfolding chunk_step_def f s assms(2) Let_def q
    unfolding delims(2,3) h s2 len by (cases "find_sub HEADER_DELIM t") simp_all
qed

lemma step_chunk:
  assumes "chunk_ok c"
  shows "chunk_step (pre @ encode_chunk c @ t) (int (length pre)) =
    Inr (int (length (pre @ encode_chunk c)))"
proof -
  let ?l = "show_hex (length (snd c)) @ fst c" let ?t = "snd c @ LINE_DELIM @ t"
  let ?p = "length pre + length ?l + 2"
  have l: "clean_line ?l" "chunk_size_of ?l = Some (int (length (snd c)))"
    using assms by (auto simp: chunk_ok_def ext_ok_def clean_hex_append chunk_size_line)
  have b: "pre @ encode_chunk c @ t = pre @ ?l @ LINE_DELIM @ ?t"
    by (simp add: encode_chunk_def)
  have "py_slice (pre @ ?l @ LINE_DELIM @ ?t) (int ?p + int (length (snd c)))
      (int ?p + int (length (snd c)) + 2) = LINE_DELIM"
    using py_slice_at [of "pre @ ?l @ LINE_DELIM @ snd c" "LINE_DELIM @ t" 2]
    by (simp add: delims ac_simps)
  with step_line [OF l, of pre ?t] assms show ?thesis
    unfolding b by (simp add: Let_def chunk_ok_def encode_chunk_def delims)
qed

text \<open>The last chunk: trailers, or the bare line end when nothing after it looks like a blank line.\<close>

lemma find_trailers:
  "trailers_ok ts \<Longrightarrow> ts \<noteq> [] \<Longrightarrow>
    find_sub HEADER_DELIM (encode_trailers ts @ t) = Some (length (encode_trailers ts) - 4)"
  using find_blank_joined [of ts t] by (cases ts) (simp_all add: trailers_ok_def encode_trailers_def delims)

lemma clean_zero: "clean_line ''0''"
  by (simp add: clean_line_Cons LINE_DELIM_def)

lemma step_last:
  assumes "trailers_ok ts" and "ts \<noteq> [] \<or> \<not> sublist HEADER_DELIM (LINE_DELIM @ t)"
  shows "chunk_step (pre @ encode_last ts @ t) (int (length pre)) =
    Inl (Some (int (length (pre @ encode_last ts))))"
proof -
  have b: "pre @ encode_last ts @ t = pre @ ''0'' @ LINE_DELIM @ encode_trailers ts @ t"
    by (simp add: encode_last_def)
  note step = step_line [OF clean_zero chunk_size_zero, of pre "encode_trailers ts @ t"]
  show ?thesis
  proof (cases "ts = []")
    case True
    with assms(2) have "find_sub HEADER_DELIM (encode_trailers ts @ t) = None"
      by (simp add: find_sub_None_iff encode_trailers_def)
    with True step show ?thesis unfolding b
      by (simp add: encode_trailers_def encode_last_def delims)
  next
    case False
    then have "4 \<le> length (encode_trailers ts)" by (simp add: encode_trailers_def delims)
    with False step find_trailers [OF assms(1) False, of t] show ?thesis unfolding b
      by (simp add: encode_last_def delims)
  qed
qed

section \<open>Whole messages\<close>

lemma loop_chunks:
  "\<forall>c \<in> set cs. chunk_ok c \<Longrightarrow>
    chunk_loop (pre @ concat (map encode_chunk cs) @ t) (int (length pre)) =
    chunk_loop (pre @ concat (map encode_chunk cs) @ t) (int (length (pre @ concat (map encode_chunk cs))))"
proof (induction cs arbitrary: pre)
  case (Cons c cs)
  from Cons.prems have "chunk_ok c" by simp
  from step_chunk [OF this, of pre "concat (map encode_chunk cs) @ t"]
    Cons.IH [of "pre @ encode_chunk c"] Cons.prems show ?case
    by (simp add: chunk_loop_Inr)
qed simp

lemma consume_encoded:
  assumes "\<forall>c \<in> set cs. chunk_ok c" and "trailers_ok ts"
    and "ts \<noteq> [] \<or> \<not> sublist HEADER_DELIM (LINE_DELIM @ t)"
  shows "try_consume_chunked_body (encode_chunked cs ts @ t) =
    Some (Some (int (length (encode_chunked cs ts))))"
  using loop_chunks [OF assms(1), of "[]" "encode_last ts @ t"]
    step_last [OF assms(2,3), of "concat (map encode_chunk cs)"]
  by (simp add: try_consume_chunked_body_def encode_chunked_def chunk_loop_Inl)

text \<open>With no trailer, a blank line anywhere later in the buffer is taken for the end of the trailers.\<close>

lemma consume_overshoot:
  assumes "\<forall>c \<in> set cs. chunk_ok c" and "find_sub HEADER_DELIM (LINE_DELIM @ t) = Some i"
  shows "try_consume_chunked_body (encode_chunked cs [] @ t) =
    Some (Some (int (length (encode_chunked cs []) + i + 2)))"
proof -
  let ?pre = "concat (map encode_chunk cs)"
  have "chunk_step (?pre @ ''0'' @ LINE_DELIM @ LINE_DELIM @ t) (int (length ?pre)) =
      Inl (Some (int (length ?pre + 3 + i + 4)))"
    using step_line [OF clean_zero chunk_size_zero, of ?pre "LINE_DELIM @ t"] assms(2) by simp
  with loop_chunks [OF assms(1), of "[]" "encode_last [] @ t"] show ?thesis
    by (simp add: try_consume_chunked_body_def encode_chunked_def encode_last_def encode_trailers_def
        chunk_loop_Inl delims)
qed

section \<open>Unfinished messages\<close>

lemma step_partial_chunk:
  assumes "chunk_ok c" and "strict_prefix q (encode_chunk c)"
  shows "chunk_step (pre @ q) (int (length pre)) = Inl None"
proof -
  let ?l = "show_hex (length (snd c)) @ fst c"
  have l: "clean_line ?l" "chunk_size_of ?l = Some (int (length (snd c)))"
    using assms(1) by (auto simp: chunk_ok_def ext_ok_def clean_hex_append chunk_size_line)
  have enc: "encode_chunk c = (?l @ LINE_DELIM) @ snd c @ LINE_DELIM" by (simp add: encode_chunk_def)
  from assms(2) show ?thesis unfolding enc
  proof (cases rule: strict_prefix_append)
    case 1
    with find_line_end [OF l(1), of "[]"] have "find_sub LINE_DELIM q = None"
      by (intro strict_prefix_find [of _ "?l @ LINE_DELIM" "length ?l"]) simp_all
    then show ?thesis by (rule step_no_line)
  next
    case (2 d)
    then have "length d < length (snd c) + 2"
      using prefix_length_less [OF 2(2)] by (simp add: delims)
    with step_line [OF l, of pre d] assms(1) show ?thesis
      by (simp add: 2(1) chunk_ok_def Let_def)
  qed
qed

lemma step_partial_last:
  assumes "trailers_ok ts" and "strict_prefix q (encode_last ts)"
  shows "chunk_step (pre @ q) (int (length pre)) = Inl None"
proof -
  have enc: "encode_last ts = (''0'' @ LINE_DELIM) @ encode_trailers ts" by (simp add: encode_last_def)
  from assms(2) show ?thesis unfolding enc
  proof (cases rule: strict_prefix_append)
    case 1
    with find_line_end [OF clean_zero, of "[]"] have "find_sub LINE_DELIM q = None"
      by (intro strict_prefix_find [of _ "''0'' @ LINE_DELIM" 1]) simp_all
    then show ?thesis by (rule step_no_line)
  next
    case (2 d)
    note d = 2(2)
    have none: "find_sub HEADER_DELIM d = None \<and> take 2 d \<noteq> LINE_DELIM"
    proof (cases "ts = []")
      case True
      with d have len: "length d < 2" using prefix_length_less [OF d] by (simp add: encode_trailers_def delims)
      then have "find_sub HEADER_DELIM d = None"
        by (cases "find_sub HEADER_DELIM d") (auto dest: find_sub_bound simp: delims)
      moreover have "take 2 d = d" using len by simp
      then have "take 2 d \<noteq> LINE_DELIM" using len by (auto simp: delims)
      ultimately show ?thesis by blast
    next
      case False
      have "find_sub HEADER_DELIM d = None"
        using find_trailers [OF assms(1) False, of "[]"] d False
        by (intro strict_prefix_find [of _ "encode_trailers ts" "length (encode_trailers ts) - 4"])
          (simp_all add: encode_trailers_def delims)
      moreover obtain x xs where ts: "ts = x # xs" using False by (cases ts) auto
      obtain r where "encode_trailers ts = x @ LINE_DELIM @ r"
        using ts by (cases xs) (simp_all add: encode_trailers_def delims)
      with assms(1) not_prefix_clean [of x r] have "\<not> prefix LINE_DELIM (encode_trailers ts)"
        by (simp add: trailers_ok_def ts)
      with d have "take 2 d \<noteq> LINE_DELIM"
        by (metis prefix_order.trans strict_prefix_def take_is_prefix)
      ultimately show ?thesis by blast
    qed
    with step_line [OF clean_zero chunk_size_zero, of pre d] show ?thesis by (simp add: 2(1))
  qed
qed

lemma consume_partial:
  assumes "\<forall>c \<in> set cs. chunk_ok c" and "trailers_ok ts"
  shows "strict_prefix q (concat (map encode_chunk cs) @ encode_last ts) \<Longrightarrow>
    chunk_loop (pre @ q) (int (length pre)) = Some None"
  using assms(1)
proof (induction cs arbitrary: pre q)
  case Nil
  with step_partial_last [OF assms(2), of q pre] show ?case by (simp add: chunk_loop_Inl)
next
  case (Cons c cs)
  have "strict_prefix q (encode_chunk c @ concat (map encode_chunk cs) @ encode_last ts)"
    using Cons.prems(1) by simp
  then show ?case
  proof (cases rule: strict_prefix_append)
    case 1
    with Cons.prems step_partial_chunk [of c q pre] show ?thesis by (simp add: chunk_loop_Inl)
  next
    case (2 d)
    with Cons.prems step_chunk [of c pre d] Cons.IH [OF 2(2), of "pre @ encode_chunk c"] show ?thesis
      by (simp add: chunk_loop_Inr)
  qed
qed

section \<open>When the scan returns\<close>

text \<open>The positions the loop passes through.\<close>

inductive chunk_visits :: "bytes \<Rightarrow> int \<Rightarrow> bool" for body where
  visit_start: "chunk_visits body 0"
| visit_next: "chunk_visits body pos \<Longrightarrow> chunk_step body pos = Inr pos' \<Longrightarrow> chunk_visits body pos'"

text \<open>The size the loop reads at a position, when there is one.\<close>

definition chunk_size_at :: "bytes \<Rightarrow> int \<Rightarrow> int option" where
  "chunk_size_at body pos =
     (let line_end = py_find_from body LINE_DELIM pos
      in if line_end = - 1 then None else chunk_size_of (py_slice body pos line_end))"

lemma chunk_step_forward:
  assumes "0 \<le> pos" and "chunk_step body pos = Inr pos'" and "chunk_size_at body pos = Some n" "0 \<le> n"
  shows "pos < pos' \<and> pos' \<le> int (length body)"
proof -
  obtain k where k: "pos = int k" using assms(1) nonneg_int_cases by blast
  have "pos' = py_find_from body LINE_DELIM pos + 2 + n + 2 \<and>
      py_find_from body LINE_DELIM pos + 2 + n + 2 \<le> int (length body) \<and>
      py_find_from body LINE_DELIM pos \<noteq> - 1"
    using assms(2,3) by (auto simp: chunk_step_def chunk_size_at_def Let_def delims split: if_splits)
  moreover have "int (min k (length body)) \<le> py_find_from body LINE_DELIM pos"
    if "py_find_from body LINE_DELIM pos \<noteq> - 1"
    using that by (auto simp: k py_find_from_def Let_def simp del: find_sub.simps split: option.splits)
  ultimately show ?thesis using assms(4) k by linarith
qed

lemma chunk_step_size: "chunk_step body pos = Inr pos' \<Longrightarrow> \<exists>n. chunk_size_at body pos = Some n"
  by (auto simp: chunk_step_def chunk_size_at_def Let_def split: if_splits option.splits)

lemma chunk_loop_returns:
  assumes sizes: "\<And>pos n. chunk_visits body pos \<Longrightarrow> chunk_size_at body pos = Some n \<Longrightarrow> 0 \<le> n"
  shows "chunk_visits body pos \<Longrightarrow> 0 \<le> pos \<Longrightarrow> \<exists>r. chunk_loop body pos = Some r"
proof (induction "nat (int (length body) - pos)" arbitrary: pos rule: less_induct)
  case less
  show ?case
  proof (cases "chunk_step body pos")
    case (Inl r)
    then show ?thesis by (simp add: chunk_loop_Inl)
  next
    case (Inr pos')
    then obtain n where "chunk_size_at body pos = Some n" using chunk_step_size by blast
    with sizes [OF less(2)] chunk_step_forward [OF less(3) Inr]
    have "pos < pos'" "pos' \<le> int (length body)" by auto
    with less Inr show ?thesis by (auto simp: chunk_loop_Inr intro: visit_next)
  qed
qed

text \<open>A position the loop comes back to is never left.\<close>

lemma chunk_loop_stuck:
  assumes "chunk_step body pos = Inr pos"
  shows "chunk_loop body pos = None"
proof (rule ccontr)
  assume "chunk_loop body pos \<noteq> None"
  then obtain r where ret: "chunk_loop body pos = Some r" by auto
  have "\<not> (body = body \<and> pos = pos)"
  proof (rule chunk_loop.raw_induct
      [where P = "\<lambda>b p r. \<not> (b = body \<and> p = pos)", OF _ ret])
    fix f b p r
    assume IH: "\<And>b p r. f b p = Some r \<Longrightarrow> \<not> (b = body \<and> p = pos)"
      and eq: "(case chunk_step b p of Inl r \<Rightarrow> Some r | Inr p' \<Rightarrow> f b p') = Some r"
    show "\<not> (b = body \<and> p = pos)"
    proof
      assume at: "b = body \<and> p = pos"
      with eq assms have "f body pos = Some r" by simp
      with IH show False by blast
    qed
  qed
  then show False by simp
qed

text \<open>
  A size line can send the loop back: after the chunk \<open>1\<close>, the size \<open>-6\<close> leads to the start of
  its own line.
\<close>

definition looping_body :: bytes where
  "looping_body = ''1'' @ LINE_DELIM @ ''A'' @ LINE_DELIM @ ''-6'' @ LINE_DELIM"

lemma looping_steps: "chunk_step looping_body 0 = Inr 6" "chunk_step looping_body 6 = Inr 6"
  by code_simp+

lemma looping_body_hangs: "try_consume_chunked_body looping_body = None"
  by (simp add: try_consume_chunked_body_def chunk_loop_Inr [OF looping_steps(1)]
      chunk_loop_stuck [OF looping_steps(2)])

end
