(* ===== verification/ParserTheorems.thy ===== *)
theory ParserTheorems
  imports HttpResponse
begin

text \<open>
  The properties of \<open>http_parser.py\<close>: what the parser and the serialiser do to a request, how far
  a chunked body is read and when its scan ends.
\<close>

section \<open>Requests\<close>

text \<open>C25: The backend parses the forwarded request as the client's request with the client's
  address appended to (or set as) X-Forwarded-For: same method, path, version and body, the same
  headers in the same order but for that one.\<close>

theorem forwarded_request_roundtrip:
  assumes "try_parse_request buf = Some req" and "0 \<le> get_content_length (req_headers req)"
    and "clean_ip ip" and "r = inject_forwarded_for req ip"
  shows "try_parse_request (serialise_request r) =
      Some (r\<lparr>req_raw_header_bytes := header_block r, req_header_length := int (length (header_block r))\<rparr>)
    \<and> req_method r = req_method req \<and> req_path r = req_path req \<and> req_version r = req_version req
    \<and> req_body r = req_body req
    \<and> prefix (map fst (req_headers req)) (map fst (req_headers r))
    \<and> map_of (req_headers r) =
        (map_of (req_headers req))(xff_key (req_headers req) \<mapsto> xff_value (req_headers req) ip)"
proof -
  have "wf_request r" using inject_wf [OF parse_wf [OF assms(1,2)] assms(3)] assms(4) by simp
  from parse_block [OF this, of "req_body r"] have "try_parse_request (serialise_request r) =
      Some (r\<lparr>req_raw_header_bytes := header_block r, req_header_length := int (length (header_block r))\<rparr>)"
    by (simp add: serialise_split)
  moreover have "prefix (map fst hs) (map fst (AList.update k v hs))" for k v and hs :: headers
    by (induction hs) auto
  moreover note inject_lookup [of req ip]
  ultimately show ?thesis by (simp add: inject_eq assms(4))
qed

definition example_request :: bytes where
  "example_request = ''GET /a HTTP/1.1'' @ LINE_DELIM @ ''Host: b'' @ HEADER_DELIM"

lemma example_request_parses:
  "\<exists>req. try_parse_request example_request = Some req \<and> 0 \<le> get_content_length (req_headers req) \<and>
     req_headers req = [(''Host'', ''b'')]"
proof -
  have "(case try_parse_request example_request of None \<Rightarrow> False
     | Some req \<Rightarrow> 0 \<le> get_content_length (req_headers req) \<and> req_headers req = [(''Host'', ''b'')])"
    by code_simp
  then show ?thesis by (auto split: option.splits)
qed

lemma example_ip: "clean_ip ''10.0.0.5''"
  by (simp add: clean_ip_def py_space_def)

theorem forwarded_request_roundtrip_witness:
  "\<exists>req. try_parse_request example_request = Some req \<and>
     (let r = inject_forwarded_for req ''10.0.0.5''
      in map_of (req_headers r) ''X-Forwarded-For'' = Some ''10.0.0.5'' \<and>
         (\<exists>r'. try_parse_request (serialise_request r) = Some r' \<and> req_headers r' = req_headers r))"
proof -
  obtain req where r: "try_parse_request example_request = Some req"
    "0 \<le> get_content_length (req_headers req)" "req_headers req = [(''Host'', ''b'')]"
    using example_request_parses by blast
  have "find_forwarded_for [(''Host'', ''b'')] = None" by code_simp
  then have "xff_key (req_headers req) = ''X-Forwarded-For''" "xff_value (req_headers req) ''10.0.0.5'' = ''10.0.0.5''"
    by (simp_all add: xff_key_def xff_value_def r(3))
  with forwarded_request_roundtrip [OF r(1,2) example_ip refl] r(1) show ?thesis
    by (simp add: Let_def)
qed

text \<open>A well-formed request is not taken for complete before its last byte has arrived, and
  then it is.\<close>

theorem request_complete_at_last_byte:
  assumes "wf_request req" and "prefix q (serialise_request req)"
  shows "(try_parse_request q \<noteq> None) = (q = serialise_request req)"
proof (cases "q = serialise_request req")
  case True
  with parse_complete [OF assms(1)] show ?thesis by auto
next
  case False
  with parse_incomplete [OF assms(1), of q] assms(2) show ?thesis by (simp add: strict_prefix_def)
qed

definition tiny_request :: http_request where
  "tiny_request = \<lparr>req_method = ''PUT'', req_path = ''/'', req_version = ''HTTP/1.1'',
     req_headers = [(''Content-Length'', ''2'')], req_body = ''ok'',
     req_raw_header_bytes = [], req_header_length = 0\<rparr>"

lemma tiny_request_wf: "wf_request tiny_request"
  by code_simp

theorem request_complete_at_last_byte_witness:
  "try_parse_request (butlast (serialise_request tiny_request)) = None"
proof -
  have "prefix (butlast (serialise_request tiny_request)) (serialise_request tiny_request)"
    by (simp add: prefix_def) (metis append_butlast_last_id append.right_neutral butlast.simps(1))
  moreover have "butlast (serialise_request tiny_request) \<noteq> serialise_request tiny_request"
    by code_simp
  ultimately show ?thesis using request_complete_at_last_byte [OF tiny_request_wf] by blast
qed

text \<open>Bytes that follow a complete request never change what was parsed.\<close>

theorem parse_ignores_what_follows:
  "try_parse_request buf = Some req \<Longrightarrow> 0 \<le> get_content_length (req_headers req) \<Longrightarrow>
    try_parse_request (buf @ ext) = Some req"
  by (rule parse_append)

theorem parse_ignores_what_follows_witness:
  "\<exists>req. try_parse_request (example_request @ ''GET /next'') = Some req \<and> req_headers req = [(''Host'', ''b'')]"
  using example_request_parses parse_ignores_what_follows [of example_request _ "''GET /next''"] by blast

section \<open>Chunked bodies\<close>

text \<open>C30: A chunked body in RFC 7230 form is read exactly to its end: chunk extensions, trailers
  and whatever comes after it in the buffer make no difference, as long as the message has a
  trailer or no blank line follows.\<close>

theorem chunked_body_read_exactly:
  assumes "\<forall>c \<in> set cs. chunk_ok c" and "trailers_ok ts"
    and "ts \<noteq> [] \<or> \<not> sublist HEADER_DELIM (LINE_DELIM @ t)"
  shows "try_consume_chunked_body (encode_chunked cs ts @ t) =
    Some (Some (int (length (encode_chunked cs ts))))"
  by (rule consume_encoded [OF assms])

theorem chunked_body_read_exactly_witness:
  "try_consume_chunked_body (encode_chunked [('';x=1'', ''hello''), ([], ''!'')] [''Sum: 1''] @ ''rest'') =
    Some (Some (int (length (encode_chunked [('';x=1'', ''hello''), ([], ''!'')] [''Sum: 1'']))))"
  by (rule chunked_body_read_exactly) (code_simp, code_simp, simp)

text \<open>No proper prefix of a chunked body is taken for a complete one.\<close>

theorem chunked_prefix_incomplete:
  assumes "\<forall>c \<in> set cs. chunk_ok c" and "trailers_ok ts" and "strict_prefix q (encode_chunked cs ts)"
  shows "try_consume_chunked_body q = Some None"
  using consume_partial [OF assms(1,2), of q "[]"] assms(3)
  by (simp add: try_consume_chunked_body_def encode_chunked_def)

theorem chunked_prefix_incomplete_witness:
  "try_consume_chunked_body (butlast (encode_chunked [([], ''hello'')] [])) = Some None"
proof (rule chunked_prefix_incomplete)
  show "\<forall>c \<in> set [([], ''hello'')]. chunk_ok c" by code_simp
  show "trailers_ok []" by code_simp
  show "strict_prefix (butlast (encode_chunked [([], ''hello'')] [])) (encode_chunked [([], ''hello'')] [])"
    by code_simp
qed

text \<open>C31: The scan of a chunked body ends, on any buffer, when no size it reads is negative.\<close>

theorem chunked_scan_ends:
  assumes "\<And>pos n. chunk_visits body pos \<Longrightarrow> chunk_size_at body pos = Some n \<Longrightarrow> 0 \<le> n"
  shows "try_consume_chunked_body body \<noteq> None"
  using chunk_loop_returns [OF assms visit_start] by (auto simp: try_consume_chunked_body_def)

definition one_chunk :: bytes where
  "one_chunk = ''1'' @ LINE_DELIM @ ''A'' @ LINE_DELIM @ ''0'' @ HEADER_DELIM"

theorem chunked_scan_ends_witness: "try_consume_chunked_body one_chunk \<noteq> None"
proof (rule chunked_scan_ends)
  have steps: "chunk_step one_chunk 0 = Inr 6" "chunk_step one_chunk 6 = Inl (Some 11)" by code_simp+
  have sizes: "chunk_size_at one_chunk 0 = Some 1" "chunk_size_at one_chunk 6 = Some 0" by code_simp+
  have "pos = 0 \<or> pos = 6" if "chunk_visits one_chunk pos" for pos
    using that by (induction rule: chunk_visits.induct) (auto simp: steps)
  then show "0 \<le> n" if "chunk_visits one_chunk pos" "chunk_size_at one_chunk pos = Some n" for pos n
    using that sizes by fastforce
qed

text \<open>C32: A negative chunk size can send the scan back to a line it has read: on the body
  1 CRLF A CRLF -6 CRLF the loop never ends, and with it the event loop.\<close>

theorem chunked_scan_can_hang: "try_consume_chunked_body looping_body = None"
  by (rule looping_body_hangs)

text \<open>C33: With no trailers, a blank line in the bytes after the body is taken for the end of the
  trailers: the scan reads past the end of the message.\<close>

theorem chunked_scan_overshoots:
  assumes "\<forall>c \<in> set cs. chunk_ok c" and "find_sub HEADER_DELIM (LINE_DELIM @ t) = Some i"
  shows "try_consume_chunked_body (encode_chunked cs [] @ t) =
    Some (Some (int (length (encode_chunked cs []) + i + 2)))"
  by (rule consume_overshoot [OF assms])

theorem chunked_scan_overshoots_witness:
  "try_consume_chunked_body (encode_chunked [] [] @ ''HTTP/1.1 200 OK'' @ HEADER_DELIM) =
    Some (Some (int (length (encode_chunked [] []) + 17 + 2)))"
  by (rule chunked_scan_overshoots) (simp, code_simp)

end
