(* ===== verification/RouterSpec.thy ===== *)
theory RouterSpec
  imports Prelude
begin

text \<open>
  What the rest of the balancer relies on when it calls a router: the connection asks for a
  backend and reports the end of a connection, the health checker moves backends in and out of
  the pool. The locale \<open>backend_router\<close> states the contract and derives what the clients need;
  both routers of \<open>router.py\<close> and their union are interpretations of it.
\<close>

section \<open>The contract\<close>

text \<open>\<open>exclude or set()\<close>\<close>

definition skip_set :: "backend set option \<Rightarrow> backend set" where
  "skip_set exclude = (case exclude of None \<Rightarrow> {} | Some s \<Rightarrow> s)"

lemma skip_set_simps [simp]: "skip_set None = {}" "skip_set (Some s) = s"
  by (simp_all add: skip_set_def)

locale backend_router =
  fixes select :: "'r \<Rightarrow> backend set option \<Rightarrow> backend option \<times> 'r"
    and release :: "'r \<Rightarrow> backend \<Rightarrow> 'r"
    and down :: "'r \<Rightarrow> backend \<Rightarrow> 'r"
    and up :: "'r \<Rightarrow> backend \<Rightarrow> 'r"
    and pool :: "'r \<Rightarrow> backend set"
    and roster :: "'r \<Rightarrow> backend list"
    and ok :: "'r \<Rightarrow> bool"
  assumes select_ok: "ok r \<Longrightarrow> ok (snd (select r ex))"
    and release_ok: "ok r \<Longrightarrow> ok (release r b)"
    and down_ok: "ok r \<Longrightarrow> ok (down r b)"
    and up_ok: "ok r \<Longrightarrow> ok (up r b)"
    and select_Some: "ok r \<Longrightarrow> fst (select r ex) = Some b \<Longrightarrow> b \<in> pool r - skip_set ex"
    and select_None: "ok r \<Longrightarrow> fst (select r ex) = None \<longleftrightarrow> pool r \<subseteq> skip_set ex"
    and pool_select: "pool (snd (select r ex)) = pool r"
    and pool_release: "pool (release r b) = pool r"
    and pool_down: "ok r \<Longrightarrow> pool (down r b) = pool r - {b}"
    and pool_up: "pool (up r b) = insert b (pool r)"
    and roster_select: "roster (snd (select r ex)) = roster r"
    and roster_release: "roster (release r b) = roster r"
    and roster_down: "roster (down r b) = roster r"
    and roster_up: "roster (up r b) = roster r"
begin

lemma select_fresh:
  "ok r \<Longrightarrow> select r (Some tried) = (Some b, r') \<Longrightarrow> b \<notin> tried \<and> b \<in> pool r \<and> ok r' \<and> pool r' = pool r"
  using select_Some [of r "Some tried" b] select_ok [of r "Some tried"] pool_select [of r "Some tried"]
  by auto

text \<open>A sweep of the health checker: one verdict after the other.\<close>

lemma sweep_ok: "ok r \<Longrightarrow> ok (foldl (\<lambda>r (b, v). if v then up r b else down r b) r vs)"
  by (induction vs arbitrary: r) (auto simp: up_ok down_ok)

lemma sweep_roster: "roster (foldl (\<lambda>r (b, v). if v then up r b else down r b) r vs) = roster r"
  by (induction vs arbitrary: r) (auto simp: roster_up roster_down)

lemma sweep_pool:
  "ok r \<Longrightarrow> pool (foldl (\<lambda>r (b, v). if v then up r b else down r b) r vs) =
    {b. case map_of (rev vs) b of None \<Rightarrow> b \<in> pool r | Some v \<Rightarrow> v}"
proof (induction vs rule: rev_induct)
  case (snoc x xs)
  obtain b v where x: "x = (b, v)" by (cases x)
  have "ok (foldl (\<lambda>r (b, v). if v then up r b else down r b) r xs)"
    using snoc.prems by (rule sweep_ok)
  with snoc x show ?case by (auto simp: pool_up pool_down)
qed simp

lemma sweep_pool_fun:
  assumes "ok r"
  shows "pool (foldl (\<lambda>r (b, v). if v then up r b else down r b) r (map (\<lambda>b. (b, probe b)) bs)) =
    {b \<in> pool r. b \<notin> set bs} \<union> {b \<in> set bs. probe b}"
proof -
  have "map_of (rev (map (\<lambda>b. (b, probe b)) bs)) b = (if b \<in> set bs then Some (probe b) else None)"
    for b by (induction bs rule: rev_induct) auto
  then show ?thesis by (auto simp: sweep_pool [OF assms])
qed

text \<open>
  The failover chain of one connection: each failed backend joins the exclusions of the next call,
  whatever the health checker does in between.
\<close>

lemma chain_distinct:
  assumes "ok r" and "select r (Some tried) = (Some b, r')" and "ok r''"
    and "select r'' (Some (insert b tried)) = (Some c, r3)"
  shows "c \<noteq> b \<and> c \<notin> tried"
  using assms select_Some [of r'' "Some (insert b tried)" c] by auto

end

end
