(* ===== verification/RoundRobin.thy ===== *)
theory RoundRobin
  imports RouterSpec
begin

text \<open>
  \<open>RoundRobinRouter\<close> of \<open>router.py\<close>. Every method body runs under the router's lock, so each is
  one atomic operation on the record.
\<close>

section \<open>The router\<close>

record rr_router =
  rr_all_backends :: "backend list"
  rr_healthy :: "backend list"
  rr_index :: int

definition rr_init :: "backend list \<Rightarrow> rr_router" where
  "rr_init backends = \<lparr>rr_all_backends = backends, rr_healthy = backends, rr_index = 0\<rparr>"

text \<open>The loop of \<open>next_backend\<close>: \<open>k\<close> rounds left over a pool that is not empty.\<close>

fun rr_scan :: "backend list \<Rightarrow> backend set \<Rightarrow> nat \<Rightarrow> int \<Rightarrow> backend option \<times> int" where
  "rr_scan healthy skip 0 index = (None, index)"
| "rr_scan healthy skip (Suc k) index =
     (let backend = healthy ! nat (index mod int (length healthy))
      in if backend \<notin> skip then (Some backend, index + 1)
         else rr_scan healthy skip k (index + 1))"

definition rr_next_backend ::
    "rr_router \<Rightarrow> backend set option \<Rightarrow> backend option \<times> rr_router" where
  "rr_next_backend r exclude =
     (if rr_healthy r = [] then (None, r)
      else let (res, index) =
             rr_scan (rr_healthy r) (skip_set exclude) (length (rr_healthy r)) (rr_index r)
           in (res, r\<lparr>rr_index := index\<rparr>))"

definition rr_mark_unhealthy :: "rr_router \<Rightarrow> backend \<Rightarrow> rr_router" where
  "rr_mark_unhealthy r backend =
     (if backend \<in> set (rr_healthy r)
      then r\<lparr>rr_healthy := remove1 backend (rr_healthy r)\<rparr> else r)"

definition rr_mark_healthy :: "rr_router \<Rightarrow> backend \<Rightarrow> rr_router" where
  "rr_mark_healthy r backend =
     (if backend \<notin> set (rr_healthy r)
      then r\<lparr>rr_healthy := rr_healthy r @ [backend]\<rparr> else r)"

definition rr_get_all_backends :: "rr_router \<Rightarrow> backend list" where
  "rr_get_all_backends r = rr_all_backends r"

definition rr_get_healthy_backends :: "rr_router \<Rightarrow> backend list" where
  "rr_get_healthy_backends r = rr_healthy r"

definition rr_on_connect :: "rr_router \<Rightarrow> backend \<Rightarrow> rr_router" where
  "rr_on_connect r backend = r"

definition rr_on_disconnect :: "rr_router \<Rightarrow> backend \<Rightarrow> rr_router" where
  "rr_on_disconnect r backend = r"

section \<open>The scan\<close>

definition rr_at :: "backend list \<Rightarrow> int \<Rightarrow> backend" where
  "rr_at healthy i = healthy ! nat (i mod int (length healthy))"

lemma rr_at_mem: "healthy \<noteq> [] \<Longrightarrow> rr_at healthy i \<in> set healthy"
  by (simp add: rr_at_def nat_less_iff)

lemma rr_scan_Some:
  "healthy \<noteq> [] \<Longrightarrow> rr_scan healthy skip k i = (Some b, j) \<Longrightarrow> b \<in> set healthy - skip"
  by (induction healthy skip k i rule: rr_scan.induct)
    (auto simp: Let_def nat_less_iff split: if_splits)

lemma rr_scan_None:
  "fst (rr_scan healthy skip k i) = None \<longleftrightarrow> (\<forall>j < k. rr_at healthy (i + int j) \<in> skip)"
proof (induction healthy skip k i rule: rr_scan.induct)
  case (2 healthy skip k i)
  have "(\<forall>j < Suc k. rr_at healthy (i + int j) \<in> skip) \<longleftrightarrow>
      rr_at healthy i \<in> skip \<and> (\<forall>j < k. rr_at healthy (i + 1 + int j) \<in> skip)"
    by (auto simp: less_Suc_eq_0_disj add.assoc)
  with 2 show ?case by (simp add: Let_def rr_at_def [of healthy i])
qed simp

text \<open>One full turn visits the whole pool.\<close>

lemma rr_turn_covers:
  assumes "healthy \<noteq> []"
  shows "set healthy = {rr_at healthy (i + int j) | j. j < length healthy}"
proof -
  let ?n = "length healthy"
  have "\<exists>j < ?n. rr_at healthy (i + int j) = healthy ! k" if "k < ?n" for k
  proof (intro exI conjI)
    let ?j = "nat ((int k - i) mod int ?n)"
    show "?j < ?n" using assms by (simp add: nat_less_iff)
    have "(i + int ?j) mod int ?n = (i + (int k - i)) mod int ?n"
      using assms by (simp add: mod_add_right_eq)
    then show "rr_at healthy (i + int ?j) = healthy ! k" using that by (simp add: rr_at_def)
  qed
  then show ?thesis using rr_at_mem [OF assms] by (auto simp: in_set_conv_nth) metis
qed

lemma rr_full_scan_None:
  assumes "healthy \<noteq> []"
  shows "fst (rr_scan healthy skip (length healthy) i) = None \<longleftrightarrow> set healthy \<subseteq> skip"
  using rr_turn_covers [OF assms, of i] by (auto simp: rr_scan_None)

section \<open>The contract holds\<close>

definition rr_ok :: "rr_router \<Rightarrow> bool" where
  "rr_ok r \<longleftrightarrow> distinct (rr_healthy r)"

lemma rr_next_frame [simp]:
  "rr_healthy (snd (rr_next_backend r ex)) = rr_healthy r"
  "rr_all_backends (snd (rr_next_backend r ex)) = rr_all_backends r"
  by (auto simp: rr_next_backend_def split: prod.splits)

lemma rr_next_None:
  "fst (rr_next_backend r ex) = None \<longleftrightarrow> set (rr_healthy r) \<subseteq> skip_set ex"
  using rr_full_scan_None [of "rr_healthy r" "skip_set ex" "rr_index r"]
  by (auto simp: rr_next_backend_def split: prod.splits)

lemma rr_next_Some:
  "fst (rr_next_backend r ex) = Some b \<Longrightarrow> b \<in> set (rr_healthy r) - skip_set ex"
  using rr_scan_Some [of "rr_healthy r" "skip_set ex" _ "rr_index r" b]
  by (auto simp: rr_next_backend_def split: prod.splits if_splits)

interpretation rr: backend_router rr_next_backend rr_on_disconnect rr_mark_unhealthy rr_mark_healthy
    "\<lambda>r. set (rr_healthy r)" rr_get_all_backends rr_ok
  by unfold_locales
    (auto simp: rr_ok_def rr_on_disconnect_def rr_mark_unhealthy_def rr_mark_healthy_def
      rr_get_all_backends_def rr_next_None distinct_remove1 dest: rr_next_Some)

section \<open>The cycle\<close>

text \<open>Consecutive calls without exclusions.\<close>

fun rr_calls :: "nat \<Rightarrow> rr_router \<Rightarrow> backend option list \<times> rr_router" where
  "rr_calls 0 r = ([], r)"
| "rr_calls (Suc k) r =
     (let (b, r') = rr_next_backend r None; (bs, r'') = rr_calls k r' in (b # bs, r''))"

lemma rr_next_unrestricted:
  "rr_healthy r \<noteq> [] \<Longrightarrow> rr_next_backend r None =
    (Some (rr_at (rr_healthy r) (rr_index r)), r\<lparr>rr_index := rr_index r + 1\<rparr>)"
  by (cases "length (rr_healthy r)") (auto simp: rr_next_backend_def rr_at_def Let_def)

lemma rr_calls_eq:
  "rr_healthy r \<noteq> [] \<Longrightarrow> rr_calls k r =
    (map (\<lambda>j. Some (rr_at (rr_healthy r) (rr_index r + int j))) [0..<k],
     r\<lparr>rr_index := rr_index r + int k\<rparr>)"
proof (induction k arbitrary: r)
  case (Suc k)
  have "[0..<Suc k] = 0 # map Suc [0..<k]" by (simp add: map_Suc_upt upt_conv_Cons)
  with Suc show ?case by (simp add: rr_next_unrestricted add.assoc)
qed simp

lemma rr_at_turn: "rr_at h (i + int (length h)) = rr_at h i"
  by (simp add: rr_at_def)

lemma rr_at_inj:
  assumes "distinct h" and "j < length h" "k < length h" and "rr_at h (i + int j) = rr_at h (i + int k)"
  shows "j = k"
proof -
  have n: "0 < int (length h)" "h \<noteq> []" using assms(2) by auto
  have "nat ((i + int j) mod int (length h)) = nat ((i + int k) mod int (length h))"
    using assms n nth_eq_iff_index_eq [OF assms(1)] by (simp add: rr_at_def nat_less_iff)
  then have "(i + int j) mod int (length h) = (i + int k) mod int (length h)"
    using n(1) by (metis eq_nat_nat_iff pos_mod_sign)
  then have "(int j) mod int (length h) = int k mod int (length h)"
    by (metis add_diff_cancel_left' mod_diff_left_eq)
  with assms(2,3) show ?thesis by simp
qed

text \<open>A full turn is a permutation of the pool.\<close>

lemma rr_turn_mset:
  assumes "distinct h"
  shows "mset (map (\<lambda>j. rr_at h (i + int j)) [0..<length h]) = mset h"
proof (cases "h = []")
  case False
  have "distinct (map (\<lambda>j. rr_at h (i + int j)) [0..<length h])"
    using rr_at_inj [OF assms] by (auto simp: distinct_map inj_on_def)
  moreover have "set (map (\<lambda>j. rr_at h (i + int j)) [0..<length h]) = set h"
    using rr_turn_covers [OF False, of i] by auto
  ultimately show ?thesis using assms set_eq_iff_mset_eq_distinct by blast
qed simp

lemma rr_turns_mset:
  assumes "distinct h"
  shows "mset (map (\<lambda>j. rr_at h (i + int j)) [0..<k * length h]) = repeat_mset k (mset h)"
proof (induction k)
  case (Suc k)
  let ?n = "length h"
  have "[0..<Suc k * ?n] = [0..<k * ?n] @ [k * ?n..<k * ?n + ?n]"
    using upt_add_eq_append [of 0 "k * ?n" ?n] by (simp add: add.commute)
  moreover have "[k * ?n..<k * ?n + ?n] = map (\<lambda>j. j + k * ?n) [0..<?n]"
    by (simp add: map_add_upt add.commute)
  ultimately have split: "[0..<Suc k * ?n] = [0..<k * ?n] @ map (\<lambda>j. j + k * ?n) [0..<?n]" by simp
  have "rr_at h (i + int (j + k * ?n)) = rr_at h (i + int (k * ?n) + int j)" for j
    by (simp add: algebra_simps)
  with split have "mset (map (\<lambda>j. rr_at h (i + int j)) [0..<Suc k * ?n]) =
      mset (map (\<lambda>j. rr_at h (i + int j)) [0..<k * ?n]) +
      mset (map (\<lambda>j. rr_at h ((i + int (k * ?n)) + int j)) [0..<?n])"
    by (simp only: map_append mset_append map_map comp_def)
  with Suc rr_turn_mset [OF assms, of "i + int (k * ?n)"] show ?case by simp
qed simp

end
