(* ===== verification/Heapq.thy ===== *)
theory Heapq
  imports Prelude "HOL-Library.Product_Lexorder" "HOL-Library.List_Lexorder" "HOL-Library.Char_ord"
begin

text \<open>
  The standard library's \<open>heapq\<close>, which the least-connections router and the reactor's deadline
  queue are built on: the binary heap in a list, with the two sift loops as the library has them.
  Tuples compare lexicographically, strings by code points, as in Python. The interface the
  clients rely on is the locale \<open>priority_queue\<close>; it is interpreted on the list algorithms here.
\<close>

section \<open>The interface\<close>

locale priority_queue =
  fixes empty :: "'q"
    and push :: "'q \<Rightarrow> 'a :: linorder \<Rightarrow> 'q"
    and pop :: "'q \<Rightarrow> ('a \<times> 'q) option"
    and peek :: "'q \<Rightarrow> 'a option"
    and contents :: "'q \<Rightarrow> 'a multiset"
    and ok :: "'q \<Rightarrow> bool"
  assumes empty_ok: "ok empty"
    and contents_empty: "contents empty = {#}"
    and push_ok: "ok q \<Longrightarrow> ok (push q x)"
    and contents_push: "ok q \<Longrightarrow> contents (push q x) = add_mset x (contents q)"
    and pop_None: "ok q \<Longrightarrow> pop q = None \<longleftrightarrow> contents q = {#}"
    and pop_ok: "ok q \<Longrightarrow> pop q = Some (x, q') \<Longrightarrow> ok q'"
    and contents_pop: "ok q \<Longrightarrow> pop q = Some (x, q') \<Longrightarrow> contents q = add_mset x (contents q')"
    and pop_least: "ok q \<Longrightarrow> pop q = Some (x, q') \<Longrightarrow> y \<in># contents q \<Longrightarrow> x \<le> y"
    and peek_pop: "ok q \<Longrightarrow> peek q = map_option fst (pop q)"
begin

lemma push_all_spec:
  "ok q \<Longrightarrow> ok (foldl push q xs) \<and> contents (foldl push q xs) = contents q + mset xs"
  by (induction xs arbitrary: q) (auto simp: push_ok contents_push)

lemma set_push: "ok q \<Longrightarrow> set_mset (contents (push q x)) = insert x (set_mset (contents q))"
  by (simp add: contents_push)

lemma set_push_all: "ok q \<Longrightarrow> set_mset (contents (foldl push q xs)) = set xs \<union> set_mset (contents q)"
  by (auto simp: push_all_spec)

lemma set_pop:
  "ok q \<Longrightarrow> pop q = Some (x, q') \<Longrightarrow> set_mset (contents q) = insert x (set_mset (contents q'))"
  by (drule (1) contents_pop) simp

lemma size_pop: "ok q \<Longrightarrow> pop q = Some (x, q') \<Longrightarrow> size (contents q) = Suc (size (contents q'))"
  by (drule (1) contents_pop) simp

lemma peek_None: "ok q \<Longrightarrow> peek q = None \<longleftrightarrow> contents q = {#}"
  by (auto simp: peek_pop pop_None)

lemma peek_SomeD:
  assumes "ok q" and "peek q = Some x"
  obtains q' where "pop q = Some (x, q')" "ok q'" "contents q = add_mset x (contents q')"
    "\<And>y. y \<in># contents q \<Longrightarrow> x \<le> y"
proof -
  from assms obtain q' where "pop q = Some (x, q')" by (auto simp: peek_pop)
  with assms(1) that show ?thesis by (blast intro: pop_ok contents_pop pop_least)
qed

end

section \<open>The list algorithms\<close>

definition parentpos :: "nat \<Rightarrow> nat" where
  "parentpos i = (i - 1) div 2"

lemma parentpos_less [simp]: "0 < i \<Longrightarrow> parentpos i < i"
  by (auto simp: parentpos_def)

lemma parentpos_eq: "0 < i \<Longrightarrow> parentpos i = p \<longleftrightarrow> i = 2 * p + 1 \<or> i = 2 * p + 2"
  by (auto simp: parentpos_def)

text \<open>
  \<open>_siftdown(heap, 0, pos)\<close> with the item \<open>x\<close> held out of the list: it moves towards the root
  past every larger parent.
\<close>

function siftdown :: "'a :: linorder list \<Rightarrow> nat \<Rightarrow> 'a \<Rightarrow> 'a list" where
  "siftdown h pos x =
     (if 0 < pos \<and> x < h ! parentpos pos
      then siftdown (h[pos := h ! parentpos pos]) (parentpos pos) x
      else h[pos := x])"
  by pat_completeness auto
termination by (relation "measure (\<lambda>(h, pos, x). pos)") auto

declare siftdown.simps [simp del]

text \<open>
  \<open>_siftup(heap, pos)\<close>: the smaller child moves up until a leaf is free, then \<open>x\<close> sifts down.
\<close>

definition smaller_child :: "'a :: linorder list \<Rightarrow> nat \<Rightarrow> nat" where
  "smaller_child h pos =
     (let childpos = 2 * pos + 1; rightpos = childpos + 1
      in if rightpos < length h \<and> \<not> h ! childpos < h ! rightpos then rightpos else childpos)"

lemma smaller_child_cases: "smaller_child h p = 2 * p + 1 \<or> smaller_child h p = 2 * p + 2"
  by (simp add: smaller_child_def)

lemma smaller_child_bounds:
  "2 * p + 1 < length h \<Longrightarrow> p < smaller_child h p \<and> smaller_child h p < length h"
  by (simp add: smaller_child_def Let_def)

function siftup :: "'a :: linorder list \<Rightarrow> nat \<Rightarrow> 'a \<Rightarrow> 'a list" where
  "siftup h pos x =
     (if 2 * pos + 1 < length h
      then siftup (h[pos := h ! smaller_child h pos]) (smaller_child h pos) x
      else siftdown h pos x)"
  by pat_completeness auto
termination
  by (relation "measure (\<lambda>(h, pos, x). length h - pos)")
    (auto dest: smaller_child_bounds [simplified] intro: diff_less_mono2)

declare siftup.simps [simp del]

definition heappush :: "'a :: linorder list \<Rightarrow> 'a \<Rightarrow> 'a list" where
  "heappush h x = siftdown (h @ [x]) (length h) x"

text \<open>\<open>None\<close> is the \<open>IndexError\<close> of an empty heap.\<close>

definition heappop :: "'a :: linorder list \<Rightarrow> ('a \<times> 'a list) option" where
  "heappop h =
     (if h = [] then None
      else let lastelt = last h; h' = butlast h
           in if h' = [] then Some (lastelt, [])
              else Some (hd h', siftup (h'[0 := lastelt]) 0 lastelt))"

definition heap_head :: "'a list \<Rightarrow> 'a option" where
  "heap_head h = (case h of [] \<Rightarrow> None | x # _ \<Rightarrow> Some x)"

section \<open>The heap property\<close>

definition is_heap :: "'a :: linorder list \<Rightarrow> bool" where
  "is_heap h \<longleftrightarrow> (\<forall>i < length h. 0 < i \<longrightarrow> h ! parentpos i \<le> h ! i)"

text \<open>The heap property but for the item at \<open>p\<close>, over which the order still holds.\<close>

definition heap_but :: "'a :: linorder list \<Rightarrow> nat \<Rightarrow> bool" where
  "heap_but h p \<longleftrightarrow> p < length h \<and>
     (\<forall>i < length h. 0 < i \<longrightarrow> i \<noteq> p \<longrightarrow> parentpos i \<noteq> p \<longrightarrow> h ! parentpos i \<le> h ! i) \<and>
     (\<forall>i < length h. 0 < i \<longrightarrow> parentpos i = p \<longrightarrow> 0 < p \<longrightarrow> h ! parentpos p \<le> h ! i)"

definition below :: "'a :: linorder list \<Rightarrow> nat \<Rightarrow> 'a \<Rightarrow> bool" where
  "below h p x \<longleftrightarrow> (\<forall>i < length h. 0 < i \<longrightarrow> parentpos i = p \<longrightarrow> x \<le> h ! i)"

lemma length_siftdown [simp]: "length (siftdown h p x) = length h"
  by (induction h p x rule: siftdown.induct) (subst siftdown.simps, simp)

lemma mset_swap_update:
  "p < length h \<Longrightarrow> q < length h \<Longrightarrow> p \<noteq> q \<Longrightarrow>
    mset (h[p := h ! q, q := x]) = mset (h[p := x])"
  by (simp add: mset_update nth_list_update)

lemma mset_siftdown: "p < length h \<Longrightarrow> mset (siftdown h p x) = mset (h[p := x])"
proof (induction h p x rule: siftdown.induct)
  case (1 h p x)
  show ?case
  proof (cases "0 < p \<and> x < h ! parentpos p")
    case True
    then have "parentpos p < p" by simp
    with 1 True show ?thesis
      by (simp add: siftdown.simps [of h p x] mset_swap_update)
  qed (auto simp: siftdown.simps [of h p x])
qed

lemma heap_but_up:
  assumes "heap_but h p" and "below h p x" and "0 < p" and "x < h ! parentpos p"
  shows "heap_but (h[p := h ! parentpos p]) (parentpos p)"
    and "below (h[p := h ! parentpos p]) (parentpos p) x"
proof -
  let ?q = "parentpos p" let ?h = "h[p := h ! ?q]"
  have p: "p < length h" "?q < p" using assms(1,3) by (auto simp: heap_but_def)
  have edge: "h ! parentpos i \<le> h ! i"
    if "i < length h" "0 < i" "i \<noteq> p" "parentpos i \<noteq> p" for i
    using that assms(1) by (auto simp: heap_but_def)
  have skip: "h ! ?q \<le> h ! i" if "i < length h" "0 < i" "parentpos i = p" for i
    using that assms(1,3) by (auto simp: heap_but_def)
  have up: "h ! parentpos ?q \<le> h ! ?q" if "0 < ?q"
  proof (rule edge)
    show "parentpos ?q \<noteq> p" using that p parentpos_less [of ?q] by linarith
  qed (use that p in auto)
  have sib: "h ! ?q \<le> h ! i" if "i < length h" "0 < i" "i \<noteq> p" "parentpos i = ?q" for i
    using edge [of i] that p by simp
  have "?h ! parentpos i \<le> ?h ! i"
    if "i < length h" "0 < i" "i \<noteq> ?q" "parentpos i \<noteq> ?q" for i
    using that p edge [of i] skip [of i] by (cases "i = p"; cases "parentpos i = p") auto
  moreover have "?h ! parentpos ?q \<le> ?h ! i"
    if "i < length h" "0 < i" "parentpos i = ?q" "0 < ?q" for i
  proof -
    have "parentpos ?q \<noteq> p" using that p parentpos_less [of ?q] by linarith
    then have "?h ! parentpos ?q = h ! parentpos ?q" by simp
    also have "\<dots> \<le> h ! ?q" using up that by simp
    also have "\<dots> \<le> ?h ! i" using sib [of i] that p by (cases "i = p") auto
    finally show ?thesis .
  qed
  ultimately show "heap_but ?h ?q" using p by (simp add: heap_but_def)
  have "x \<le> ?h ! i" if "i < length h" "0 < i" "parentpos i = ?q" for i
  proof -
    have "x \<le> h ! ?q" using assms(4) by simp
    also have "\<dots> \<le> ?h ! i" using sib [of i] that p by (cases "i = p") auto
    finally show ?thesis .
  qed
  then show "below ?h ?q x" by (simp add: below_def)
qed

lemma heap_siftdown: "heap_but h p \<Longrightarrow> below h p x \<Longrightarrow> is_heap (siftdown h p x)"
proof (induction h p x rule: siftdown.induct)
  case (1 h p x)
  show ?case
  proof (cases "0 < p \<and> x < h ! parentpos p")
    case True
    with 1 heap_but_up [OF 1(2,3)] show ?thesis by (simp add: siftdown.simps [of h p x])
  next
    case False
    have "h[p := x] ! parentpos i \<le> h[p := x] ! i" if "i < length h" "0 < i" for i
      using that 1(2,3) False parentpos_less [of i]
      by (cases "i = p"; cases "parentpos i = p") (auto simp: heap_but_def below_def)
    with False show ?thesis by (auto simp: siftdown.simps [of h p x] is_heap_def)
  qed
qed

lemma length_siftup [simp]: "length (siftup h p x) = length h"
  by (induction h p x rule: siftup.induct) (subst siftup.simps, simp)

lemma mset_siftup: "p < length h \<Longrightarrow> mset (siftup h p x) = mset (h[p := x])"
proof (induction h p x rule: siftup.induct)
  case (1 h p x)
  show ?case
  proof (cases "2 * p + 1 < length h")
    case True
    with 1 smaller_child_bounds [OF True] show ?thesis
      by (simp add: siftup.simps [of h p x] mset_swap_update)
  next
    case False
    with 1(2) show ?thesis by (simp add: siftup.simps [of h p x] mset_siftdown)
  qed
qed

lemma heap_but_down:
  assumes "heap_but h p" and "2 * p + 1 < length h"
  shows "heap_but (h[p := h ! smaller_child h p]) (smaller_child h p)"
proof -
  let ?k = "smaller_child h p" let ?h = "h[p := h ! ?k]"
  have kp: "?k < length h" "p < ?k" "p < length h" "0 < ?k"
    using smaller_child_bounds [OF assms(2)] by auto
  have par: "parentpos ?k = p" using kp smaller_child_cases [of h p] by (simp add: parentpos_eq)
  have edge: "h ! parentpos i \<le> h ! i"
    if "i < length h" "0 < i" "i \<noteq> p" "parentpos i \<noteq> p" for i
    using that assms(1) by (auto simp: heap_but_def)
  have skip: "h ! parentpos p \<le> h ! i" if "i < length h" "0 < i" "parentpos i = p" "0 < p" for i
    using that assms(1) by (auto simp: heap_but_def)
  have sib: "h ! ?k \<le> h ! i" if "i < length h" "0 < i" "parentpos i = p" for i
    using that by (auto simp: smaller_child_def parentpos_eq Let_def)
  have "?h ! parentpos i \<le> ?h ! i"
    if "i < length h" "0 < i" "i \<noteq> ?k" "parentpos i \<noteq> ?k" for i
    using that kp par edge [of i] sib [of i] skip [of ?k] parentpos_less [of i]
    by (cases "i = p"; cases "parentpos i = p") auto
  moreover have "?h ! parentpos ?k \<le> ?h ! i"
    if "i < length h" "0 < i" "parentpos i = ?k" for i
  proof -
    have "i \<noteq> p" "parentpos i \<noteq> p" using that kp parentpos_less [of i] by auto
    with that kp par edge [of i] show ?thesis by simp
  qed
  ultimately show ?thesis using kp by (simp add: heap_but_def)
qed

lemma heap_siftup: "heap_but h p \<Longrightarrow> is_heap (siftup h p x)"
proof (induction h p x rule: siftup.induct)
  case (1 h p x)
  show ?case
  proof (cases "2 * p + 1 < length h")
    case True
    with 1(1) heap_but_down [OF 1(2) True] show ?thesis by (simp add: siftup.simps [of h p x])
  next
    case False
    then have "below h p x" by (auto simp: below_def parentpos_eq)
    with False 1(2) show ?thesis by (simp add: siftup.simps [of h p x] heap_siftdown)
  qed
qed

section \<open>The interpretation\<close>

lemma parentpos_le: "0 < i \<Longrightarrow> i \<le> n \<Longrightarrow> parentpos i < n"
  using parentpos_less [of i] by linarith

lemma heappush_heap:
  assumes "is_heap h"
  shows "is_heap (heappush h x)"
  unfolding heappush_def
proof (rule heap_siftdown)
  have "(h @ [x]) ! parentpos i \<le> (h @ [x]) ! i" if "i < length h" "0 < i" for i
    using that assms parentpos_le [of i "length h"] by (simp add: is_heap_def nth_append)
  moreover have "parentpos i \<noteq> length h" if "i \<le> length h" "0 < i" for i
    using that parentpos_le [of i "length h"] by simp
  ultimately show "heap_but (h @ [x]) (length h)" "below (h @ [x]) (length h) x"
    by (simp_all add: heap_but_def below_def)
qed

lemma mset_heappush [simp]: "mset (heappush h x) = add_mset x (mset h)"
  by (simp add: heappush_def mset_siftdown)

lemma set_heappush [simp]: "set (heappush h x) = insert x (set h)"
  by (metis mset_heappush set_mset_add_mset_insert set_mset_mset)

lemma length_heappush [simp]: "length (heappush h x) = Suc (length h)"
  by (simp add: heappush_def)

lemma heap_root: "is_heap h \<Longrightarrow> i < length h \<Longrightarrow> h ! 0 \<le> h ! i"
proof (induction i rule: less_induct)
  case (less i)
  show ?case
  proof (cases "i = 0")
    case False
    with less have "h ! 0 \<le> h ! parentpos i" using parentpos_less [of i] by auto
    also have "\<dots> \<le> h ! i" using less(2,3) False by (auto simp: is_heap_def)
    finally show ?thesis .
  qed simp
qed

lemma heappop_Nil [simp]: "heappop [] = None"
  by (simp add: heappop_def)

lemma heappop_None [simp]: "heappop h = None \<longleftrightarrow> h = []"
  by (simp add: heappop_def Let_def)

lemma mset_heappop: "heappop h = Some (x, h') \<Longrightarrow> mset h = add_mset x (mset h')"
proof (cases h rule: rev_cases)
  case (snoc ys y)
  assume "heappop h = Some (x, h')"
  with snoc show ?thesis
    by (cases ys) (auto simp: heappop_def Let_def mset_siftup split: if_splits)
qed (simp add: heappop_def)

lemma heappop_length: "heappop h = Some (x, h') \<Longrightarrow> length h = Suc (length h')"
  by (drule mset_heappop) (metis size_add_mset size_mset)

lemma heappop_heap:
  assumes "is_heap h" and "heappop h = Some (x, h')"
  shows "is_heap h'"
proof (cases h rule: rev_cases)
  case (snoc ys y)
  show ?thesis
  proof (cases ys)
    case Nil
    with snoc assms(2) show ?thesis by (simp add: heappop_def is_heap_def)
  next
    case (Cons z zs)
    have "ys[0 := y] ! parentpos i \<le> ys[0 := y] ! i"
      if "i < length ys" "0 < i" "parentpos i \<noteq> 0" for i
    proof -
      have "h ! parentpos i \<le> h ! i" using that assms(1) by (simp add: is_heap_def snoc)
      with that parentpos_le [of i "length ys"] show ?thesis by (simp add: snoc nth_append)
    qed
    then have "heap_but (ys[0 := y]) 0" by (simp add: Cons heap_but_def)
    then have "is_heap (siftup (ys[0 := y]) 0 y)" by (rule heap_siftup)
    with snoc Cons assms(2) show ?thesis by (simp add: heappop_def Let_def)
  qed
qed (use assms in \<open>simp add: heappop_def\<close>)

lemma heappop_hd: "heappop h = Some (x, h') \<Longrightarrow> x = hd h"
  by (cases h rule: rev_cases) (auto simp: heappop_def Let_def hd_append split: if_splits)

interpretation hq: priority_queue "[]" heappush heappop heap_head mset is_heap
proof unfold_locales
  fix q q' :: "'a list" and x y :: 'a
  show "is_heap q \<Longrightarrow> heappop q = Some (x, q') \<Longrightarrow> y \<in># mset q \<Longrightarrow> x \<le> y"
    using heap_root [of q] heappop_hd [of q x q']
    by (cases "q = []") (auto simp: in_set_conv_nth hd_conv_nth heappop_def)
  show "is_heap q \<Longrightarrow> heap_head q = map_option fst (heappop q)"
    by (cases q; cases "heappop q") (auto simp: heap_head_def heappop_def [of "[]"] dest: heappop_hd)
qed (auto simp: is_heap_def [of "[]"] heappush_heap intro: heappop_heap mset_heappop)

lemma heappop_least: "is_heap h \<Longrightarrow> heappop h = Some (x, h') \<Longrightarrow> y \<in> set h \<Longrightarrow> x \<le> y"
  by (rule hq.pop_least) auto

lemma set_heappop: "heappop h = Some (x, h') \<Longrightarrow> set h = insert x (set h')"
  by (drule mset_heappop) (metis set_mset_add_mset_insert set_mset_mset)

lemma heap_head_Nil [simp]: "heap_head [] = None" "heap_head (x # h) = Some x"
  by (simp_all add: heap_head_def)

end
