(* ===== verification/LeastConn.thy ===== *)
theory LeastConn
  imports RouterSpec Heapq
begin

text \<open>
  \<open>LeastConnectionsRouter\<close> of \<open>router.py\<close>: canonical counts in a dict, a heap of
  \<open>(count, tiebreak, backend)\<close> entries with lazy deletion, and the set of healthy backends. The
  invariant \<open>lc_ok\<close> is what makes lazy deletion sound: whatever stale entries are around, each
  healthy backend has an entry carrying its current count.
\<close>

section \<open>The router\<close>

type_synonym lc_entry = "int \<times> int \<times> backend"

record lc_router =
  lc_all_backends :: "backend list"
  lc_counts :: "backend \<rightharpoonup> int"
  lc_tiebreak :: int
  lc_heap :: "lc_entry list"
  lc_healthy_set :: "backend set"

text \<open>\<open>self._counts.get(backend, 0)\<close>\<close>

definition lc_count :: "lc_router \<Rightarrow> backend \<Rightarrow> int" where
  "lc_count r b = (case lc_counts r b of None \<Rightarrow> 0 | Some n \<Rightarrow> n)"

text \<open>\<open>self._tiebreak += 1\<close> and the push that follows it.\<close>

definition lc_push :: "lc_router \<Rightarrow> int \<Rightarrow> backend \<Rightarrow> lc_router" where
  "lc_push r n b =
     r\<lparr>lc_tiebreak := lc_tiebreak r + 1,
       lc_heap := heappush (lc_heap r) (n, lc_tiebreak r + 1, b)\<rparr>"

definition lc_init :: "backend list \<Rightarrow> lc_router" where
  "lc_init backends =
     foldl (\<lambda>r b. lc_push r 0 b)
       \<lparr>lc_all_backends = backends,
        lc_counts = (\<lambda>b. if b \<in> set backends then Some 0 else None),
        lc_tiebreak = 0, lc_heap = [], lc_healthy_set = set backends\<rparr>
       backends"

text \<open>
  The \<open>while self._heap\<close> loop: pops until an entry is fresh, healthy and not excluded; the
  excluded ones are kept aside.
\<close>

function lc_scan :: "lc_router \<Rightarrow> backend set \<Rightarrow> lc_entry list \<Rightarrow> lc_entry list \<Rightarrow>
    lc_entry option \<times> lc_entry list \<times> lc_entry list" where
  "lc_scan r skip heap deferred =
     (case heappop heap of
        None \<Rightarrow> (None, heap, deferred)
      | Some ((n, tb, b), heap') \<Rightarrow>
          if b \<notin> lc_healthy_set r then lc_scan r skip heap' deferred
          else if n \<noteq> lc_count r b then lc_scan r skip heap' deferred
          else if b \<in> skip then lc_scan r skip heap' (deferred @ [(n, tb, b)])
          else (Some (n, tb, b), heap', deferred))"
  by pat_completeness auto
termination
  by (relation "measure (\<lambda>(r, skip, heap, deferred). length heap)") (auto dest: heappop_length)

declare lc_scan.simps [simp del]

definition lc_next_backend ::
    "lc_router \<Rightarrow> backend set option \<Rightarrow> backend option \<times> lc_router" where
  "lc_next_backend r exclude =
     (case lc_scan r (skip_set exclude) (lc_heap r) [] of
        (chosen, heap, deferred) \<Rightarrow>
          let r' = r\<lparr>lc_heap := foldl heappush heap deferred\<rparr>
          in case chosen of
               None \<Rightarrow> (None, r')
             | Some (n, tb, b) \<Rightarrow>
                 (Some b, lc_push (r'\<lparr>lc_counts := (lc_counts r')(b \<mapsto> n + 1)\<rparr>) (n + 1) b))"

definition lc_on_connect :: "lc_router \<Rightarrow> backend \<Rightarrow> lc_router" where
  "lc_on_connect r backend = r"

definition lc_on_disconnect :: "lc_router \<Rightarrow> backend \<Rightarrow> lc_router" where
  "lc_on_disconnect r b =
     (let new_count = max 0 (lc_count r b - 1)
      in lc_push (r\<lparr>lc_counts := (lc_counts r)(b \<mapsto> new_count)\<rparr>) new_count b)"

definition lc_mark_unhealthy :: "lc_router \<Rightarrow> backend \<Rightarrow> lc_router" where
  "lc_mark_unhealthy r b = r\<lparr>lc_healthy_set := lc_healthy_set r - {b}\<rparr>"

definition lc_mark_healthy :: "lc_router \<Rightarrow> backend \<Rightarrow> lc_router" where
  "lc_mark_healthy r b =
     (if b \<notin> lc_healthy_set r
      then lc_push (r\<lparr>lc_healthy_set := insert b (lc_healthy_set r),
                      lc_counts := (lc_counts r)(b \<mapsto> lc_count r b)\<rparr>) (lc_count r b) b
      else r)"

definition lc_get_all_backends :: "lc_router \<Rightarrow> backend list" where
  "lc_get_all_backends r = lc_all_backends r"

text \<open>\<open>list(self._healthy_set)\<close>, whose order Python leaves open: the set itself.\<close>

definition lc_get_healthy_backends :: "lc_router \<Rightarrow> backend set" where
  "lc_get_healthy_backends r = lc_healthy_set r"

section \<open>The invariant\<close>

definition lc_fresh :: "lc_router \<Rightarrow> lc_entry \<Rightarrow> bool" where
  "lc_fresh r e \<longleftrightarrow> (case e of (n, tb, b) \<Rightarrow> b \<in> lc_healthy_set r \<and> n = lc_count r b)"

definition lc_listed :: "lc_router \<Rightarrow> lc_entry set \<Rightarrow> bool" where
  "lc_listed r E \<longleftrightarrow> (\<forall>b \<in> lc_healthy_set r. \<exists>tb. (lc_count r b, tb, b) \<in> E)"

definition lc_ok :: "lc_router \<Rightarrow> bool" where
  "lc_ok r \<longleftrightarrow> is_heap (lc_heap r) \<and> lc_listed r (set (lc_heap r)) \<and> (\<forall>b. 0 \<le> lc_count r b)"

lemma lc_push_simps [simp]:
  "lc_all_backends (lc_push r n b) = lc_all_backends r"
  "lc_counts (lc_push r n b) = lc_counts r"
  "lc_healthy_set (lc_push r n b) = lc_healthy_set r"
  "lc_tiebreak (lc_push r n b) = lc_tiebreak r + 1"
  "set (lc_heap (lc_push r n b)) = insert (n, lc_tiebreak r + 1, b) (set (lc_heap r))"
  "lc_count (lc_push r n b) c = lc_count r c"
  "mset (lc_heap (lc_push r n b)) = add_mset (n, lc_tiebreak r + 1, b) (mset (lc_heap r))"
  by (simp_all add: lc_push_def lc_count_def)

lemma lc_push_heap: "is_heap (lc_heap r) \<Longrightarrow> is_heap (lc_heap (lc_push r n b))"
  by (simp add: lc_push_def heappush_heap)

lemma lc_count_update [simp]:
  "lc_count (r\<lparr>lc_counts := (lc_counts r)(b \<mapsto> n)\<rparr>) c = (if c = b then n else lc_count r c)"
  "lc_count (r\<lparr>lc_heap := h\<rparr>) c = lc_count r c"
  "lc_count (r\<lparr>lc_healthy_set := H\<rparr>) c = lc_count r c"
  "lc_count (r\<lparr>lc_healthy_set := H, lc_counts := (lc_counts r)(b \<mapsto> n)\<rparr>) c =
    (if c = b then n else lc_count r c)"
  "lc_count (r\<lparr>lc_heap := h, lc_counts := (lc_counts r)(b \<mapsto> n)\<rparr>) c =
    (if c = b then n else lc_count r c)"
  by (simp_all add: lc_count_def)

lemma lc_init_fold:
  "is_heap (lc_heap r) \<Longrightarrow>
   (let r' = foldl (\<lambda>r b. lc_push r 0 b) r bs in
     is_heap (lc_heap r') \<and> lc_counts r' = lc_counts r \<and> lc_healthy_set r' = lc_healthy_set r \<and>
     lc_all_backends r' = lc_all_backends r \<and>
     set (lc_heap r) \<subseteq> set (lc_heap r') \<and> (\<forall>b \<in> set bs. \<exists>tb. (0, tb, b) \<in> set (lc_heap r')))"
proof (induction bs arbitrary: r)
  case (Cons b bs)
  have "(0, lc_tiebreak r + 1, b) \<in> set (lc_heap (lc_push r 0 b))" by simp
  with Cons.IH [OF lc_push_heap [OF Cons.prems], of 0 b] show ?case
    unfolding Let_def by (auto 4 3)
qed simp

lemma lc_init_ok: "lc_ok (lc_init backends)"
proof -
  let ?r = "\<lparr>lc_all_backends = backends,
    lc_counts = (\<lambda>b. if b \<in> set backends then Some 0 else None),
    lc_tiebreak = 0, lc_heap = [], lc_healthy_set = set backends\<rparr>"
  have "is_heap (lc_heap ?r)" by (simp add: is_heap_def)
  from lc_init_fold [OF this, of backends] show ?thesis
    by (auto simp: lc_init_def lc_ok_def lc_listed_def lc_count_def Let_def)
qed

lemma lc_init_frame [simp]:
  "lc_healthy_set (lc_init backends) = set backends" "lc_all_backends (lc_init backends) = backends"
proof -
  have "is_heap (lc_heap \<lparr>lc_all_backends = backends,
    lc_counts = (\<lambda>b. if b \<in> set backends then Some 0 else None),
    lc_tiebreak = 0, lc_heap = [], lc_healthy_set = set backends\<rparr>)" by (simp add: is_heap_def)
  from lc_init_fold [OF this, of backends] show
    "lc_healthy_set (lc_init backends) = set backends" "lc_all_backends (lc_init backends) = backends"
    by (simp_all add: lc_init_def Let_def)
qed

section \<open>The scan\<close>

definition lc_scan_post ::
    "lc_router \<Rightarrow> backend set \<Rightarrow> lc_entry set \<Rightarrow> lc_entry option \<Rightarrow> lc_entry set \<Rightarrow> bool" where
  "lc_scan_post r skip E res E' \<longleftrightarrow>
     E' \<subseteq> E \<and> {e \<in> E. lc_fresh r e} \<subseteq> E' \<union> set_option res \<and>
     (case res of
        None \<Rightarrow> \<forall>(n, tb, b) \<in> E'. b \<in> skip
      | Some (n, tb, b) \<Rightarrow> (n, tb, b) \<in> E \<and> lc_fresh r (n, tb, b) \<and> b \<notin> skip \<and>
          (\<forall>(n', tb', b') \<in> E. lc_fresh r (n', tb', b') \<longrightarrow> b' \<notin> skip \<longrightarrow> n \<le> n'))"

lemma lc_scan_spec:
  "is_heap heap \<Longrightarrow> \<forall>(n, tb, b) \<in> set deferred. b \<in> skip \<Longrightarrow>
   lc_scan r skip heap deferred = (res, heap', deferred') \<Longrightarrow>
   is_heap heap' \<and> lc_scan_post r skip (set heap \<union> set deferred) res (set heap' \<union> set deferred')"
proof (induction heap arbitrary: deferred rule: measure_induct_rule [where f = length])
  case (less heap)
  show ?case
  proof (cases "heappop heap")
    case None
    with less(2,3,4) show ?thesis
      by (subst (asm) lc_scan.simps) (auto simp: lc_scan_post_def)
  next
    case (Some p)
    obtain n tb b h where p: "p = ((n, tb, b), h)" by (metis surj_pair)
    with Some have pop: "heappop heap = Some ((n, tb, b), h)" by simp
    then have short: "length h < length heap" by (auto dest: heappop_length)
    note facts = heappop_heap [OF less(2) pop] set_heappop [OF pop] heappop_least [OF less(2) pop]
    consider (drop) "\<not> lc_fresh r (n, tb, b)"
      | (keep) "lc_fresh r (n, tb, b)" "b \<in> skip"
      | (pick) "lc_fresh r (n, tb, b)" "b \<notin> skip" by blast
    then show ?thesis
    proof (cases)
      case drop
      with less(4) pop have "lc_scan r skip h deferred = (res, heap', deferred')"
        by (subst (asm) lc_scan.simps) (auto simp: lc_fresh_def split: if_splits)
      from less(1) [OF short facts(1) less(3) this] have "is_heap heap' \<and> lc_scan_post r skip (set h \<union> set deferred) res (set heap' \<union> set deferred')"
        by simp
      with drop facts(2) show ?thesis
        by (cases res) (auto simp: lc_scan_post_def)
    next
      case keep
      with less(4) pop have "lc_scan r skip h (deferred @ [(n, tb, b)]) = (res, heap', deferred')"
        by (subst (asm) lc_scan.simps) (auto simp: lc_fresh_def)
      from less(1) [OF short facts(1) _ this] keep(2) less(3) have "is_heap heap' \<and>
          lc_scan_post r skip (set h \<union> set (deferred @ [(n, tb, b)])) res (set heap' \<union> set deferred')"
        by auto
      with facts(2) show ?thesis by simp
    next
      case pick
      with less(4) pop have eq: "res = Some (n, tb, b)" "heap' = h" "deferred' = deferred"
        by (subst (asm) lc_scan.simps, auto simp: lc_fresh_def)+
      have least: "n \<le> n'" if "(n', tb', b') \<in> set h" for n' tb' b'
        using facts(3) [of "(n', tb', b')"] facts(2) that by (auto simp: less_eq_prod_def)
      show ?thesis unfolding eq lc_scan_post_def
        using pick facts(1,2) less(3) by (auto dest: least)
    qed
  qed
qed

lemma foldl_heappush:
  "is_heap h \<Longrightarrow> is_heap (foldl heappush h xs)" "set (foldl heappush h xs) = set xs \<union> set h"
proof -
  show "is_heap h \<Longrightarrow> is_heap (foldl heappush h xs)" by (simp add: hq.push_all_spec)
  show "set (foldl heappush h xs) = set xs \<union> set h"
    by (induction xs arbitrary: h) auto
qed

section \<open>The contract holds\<close>

lemma lc_next_cases:
  assumes "lc_ok r"
  obtains (None) h where "lc_next_backend r ex = (None, r\<lparr>lc_heap := h\<rparr>)"
      "is_heap h" "lc_listed r (set h)" "lc_healthy_set r \<subseteq> skip_set ex"
  | (Some) h b where
      "lc_next_backend r ex = (Some b,
        lc_push (r\<lparr>lc_heap := h, lc_counts := (lc_counts r)(b \<mapsto> lc_count r b + 1)\<rparr>) (lc_count r b + 1) b)"
      "is_heap h" "\<forall>c \<in> lc_healthy_set r. c \<noteq> b \<longrightarrow> (\<exists>tb. (lc_count r c, tb, c) \<in> set h)"
      "b \<in> lc_healthy_set r" "b \<notin> skip_set ex"
      "\<forall>c \<in> lc_healthy_set r - skip_set ex. lc_count r b \<le> lc_count r c"
proof -
  obtain res h d where scan: "lc_scan r (skip_set ex) (lc_heap r) [] = (res, h, d)"
    by (metis surj_pair)
  have heap: "is_heap (lc_heap r)" and listed: "lc_listed r (set (lc_heap r))"
    using assms by (auto simp: lc_ok_def)
  from lc_scan_spec [OF heap _ scan] have h: "is_heap h"
    and post: "lc_scan_post r (skip_set ex) (set (lc_heap r)) res (set h \<union> set d)" by auto
  let ?h = "foldl heappush h d"
  have h': "is_heap ?h" "set ?h = set h \<union> set d" using h by (auto simp: foldl_heappush)
  have found: "\<exists>tb. (lc_count r c, tb, c) \<in> set ?h \<or> res = Some (lc_count r c, tb, c)"
    if "c \<in> lc_healthy_set r" for c
  proof -
    from listed that obtain tb where "(lc_count r c, tb, c) \<in> set (lc_heap r)"
      by (auto simp: lc_listed_def)
    with that have "(lc_count r c, tb, c) \<in> {e \<in> set (lc_heap r). lc_fresh r e}"
      by (simp add: lc_fresh_def)
    with post have "(lc_count r c, tb, c) \<in> set h \<union> set d \<union> set_option res"
      unfolding lc_scan_post_def by blast
    with h'(2) show ?thesis by auto
  qed
  show ?thesis
  proof (cases res)
    case None
    with found have "lc_listed r (set ?h)" by (simp add: lc_listed_def)
    moreover have "\<forall>(n, tb, b) \<in> set ?h. b \<in> skip_set ex"
      using post h'(2) by (simp add: None lc_scan_post_def Un_commute)
    ultimately have "lc_healthy_set r \<subseteq> skip_set ex" by (auto simp: lc_listed_def)
    with \<open>lc_listed r (set ?h)\<close> h' that(1) [of ?h] scan None show ?thesis
      by (simp add: lc_next_backend_def)
  next
    case (Some e)
    obtain n tb b where e: "e = (n, tb, b)" by (metis surj_pair)
    from post have fresh: "b \<in> lc_healthy_set r" "n = lc_count r b" "b \<notin> skip_set ex"
      by (simp_all add: Some e lc_scan_post_def lc_fresh_def)
    from post have least: "\<forall>(n', tb', b') \<in> set (lc_heap r). lc_fresh r (n', tb', b') \<longrightarrow>
        b' \<notin> skip_set ex \<longrightarrow> n \<le> n'"
      unfolding Some e lc_scan_post_def by simp
    have "\<forall>c \<in> lc_healthy_set r. c \<noteq> b \<longrightarrow> (\<exists>tb. (lc_count r c, tb, c) \<in> set ?h)"
      using found by (auto simp: Some e)
    moreover have "lc_count r b \<le> lc_count r c" if "c \<in> lc_healthy_set r - skip_set ex" for c
    proof -
      from listed that obtain tb where "(lc_count r c, tb, c) \<in> set (lc_heap r)"
        by (auto simp: lc_listed_def)
      with least that fresh(2) show ?thesis by (auto simp: lc_fresh_def)
    qed
    ultimately show ?thesis using that(2) [of b ?h] fresh h' scan Some e
      by (simp add: lc_next_backend_def)
  qed
qed

lemma lc_next_ok:
  assumes "lc_ok r"
  shows "lc_ok (snd (lc_next_backend r ex))"
  using assms
proof (cases rule: lc_next_cases [where ex = ex])
  case (None h)
  with assms show ?thesis by (auto simp: lc_ok_def lc_listed_def)
next
  case (Some h b)
  let ?r = "r\<lparr>lc_heap := h, lc_counts := (lc_counts r)(b \<mapsto> lc_count r b + 1)\<rparr>"
  have "is_heap (lc_heap (lc_push ?r (lc_count r b + 1) b))"
    using Some(2) by (simp add: lc_push_heap)
  with Some assms show ?thesis by (auto simp: lc_ok_def lc_listed_def)
qed

lemma lc_next_frame [simp]:
  "lc_healthy_set (snd (lc_next_backend r ex)) = lc_healthy_set r"
  "lc_all_backends (snd (lc_next_backend r ex)) = lc_all_backends r"
  by (auto simp: lc_next_backend_def Let_def split: prod.splits option.splits)

lemma lc_next_None:
  "lc_ok r \<Longrightarrow> fst (lc_next_backend r ex) = None \<longleftrightarrow> lc_healthy_set r \<subseteq> skip_set ex"
  by (erule lc_next_cases [where ex = ex]) auto

lemma lc_next_Some:
  "lc_ok r \<Longrightarrow> fst (lc_next_backend r ex) = Some b \<Longrightarrow> b \<in> lc_healthy_set r - skip_set ex"
  by (erule lc_next_cases [where ex = ex]) auto

lemma lc_on_disconnect_ok: "lc_ok r \<Longrightarrow> lc_ok (lc_on_disconnect r b)"
  by (auto simp: lc_ok_def lc_on_disconnect_def lc_listed_def Let_def lc_push_heap)

lemma lc_mark_unhealthy_ok: "lc_ok r \<Longrightarrow> lc_ok (lc_mark_unhealthy r b)"
  by (auto simp: lc_ok_def lc_mark_unhealthy_def lc_listed_def)

lemma lc_mark_healthy_ok: "lc_ok r \<Longrightarrow> lc_ok (lc_mark_healthy r b)"
  by (auto simp: lc_ok_def lc_mark_healthy_def lc_listed_def lc_push_heap)

lemma lc_op_frame [simp]:
  "lc_healthy_set (lc_on_disconnect r b) = lc_healthy_set r"
  "lc_healthy_set (lc_mark_unhealthy r b) = lc_healthy_set r - {b}"
  "lc_healthy_set (lc_mark_healthy r b) = insert b (lc_healthy_set r)"
  "lc_all_backends (lc_on_disconnect r b) = lc_all_backends r"
  "lc_all_backends (lc_mark_unhealthy r b) = lc_all_backends r"
  "lc_all_backends (lc_mark_healthy r b) = lc_all_backends r"
  by (auto simp: lc_on_disconnect_def lc_mark_unhealthy_def lc_mark_healthy_def Let_def)

interpretation lc: backend_router lc_next_backend lc_on_disconnect lc_mark_unhealthy lc_mark_healthy
    lc_healthy_set lc_get_all_backends lc_ok
  by unfold_locales
    (auto simp: lc_next_ok lc_on_disconnect_ok lc_mark_unhealthy_ok lc_mark_healthy_ok
      lc_next_None lc_get_all_backends_def dest: lc_next_Some)

section \<open>The counts\<close>

text \<open>The abstract view: who is healthy, and how many connections each backend is charged with.\<close>

record lc_view =
  view_healthy :: "backend set"
  view_load :: "backend \<Rightarrow> int"

definition lc_abs :: "lc_router \<Rightarrow> lc_view" where
  "lc_abs r = \<lparr>view_healthy = lc_healthy_set r, view_load = lc_count r\<rparr>"

text \<open>
  What a least-connections choice is, without heap or tiebreaks: any healthy backend outside the
  exclusions whose load is least, charged with one more connection; nothing when there is none.
\<close>

inductive lc_spec_next :: "backend set \<Rightarrow> lc_view \<Rightarrow> backend option \<Rightarrow> lc_view \<Rightarrow> bool" where
  spec_none: "view_healthy v \<subseteq> skip \<Longrightarrow> lc_spec_next skip v None v"
| spec_some: "b \<in> view_healthy v - skip \<Longrightarrow>
     \<forall>c \<in> view_healthy v - skip. view_load v b \<le> view_load v c \<Longrightarrow>
     lc_spec_next skip v (Some b) (v\<lparr>view_load := (view_load v)(b := view_load v b + 1)\<rparr>)"

inductive_cases lc_spec_next_SomeE: "lc_spec_next skip v (Some b) v'"
inductive_simps lc_spec_next_None: "lc_spec_next skip v None v'"

lemma lc_next_refines_spec:
  assumes "lc_ok r"
  shows "lc_spec_next (skip_set ex) (lc_abs r) (fst (lc_next_backend r ex))
    (lc_abs (snd (lc_next_backend r ex)))"
  using assms
proof (cases rule: lc_next_cases [where ex = ex])
  case (None h)
  then show ?thesis
    by (simp add: lc_abs_def lc_spec_next_None) (simp add: lc_count_def fun_eq_iff)
next
  case (Some h b)
  have "lc_abs (snd (lc_next_backend r ex)) =
      (lc_abs r)\<lparr>view_load := (view_load (lc_abs r))(b := view_load (lc_abs r) b + 1)\<rparr>"
    by (simp add: Some(1) lc_abs_def fun_eq_iff)
  moreover have "lc_spec_next (skip_set ex) (lc_abs r) (Some b) \<dots>"
    by (rule spec_some) (use Some in \<open>simp_all add: lc_abs_def\<close>)
  ultimately show ?thesis by (simp add: Some(1))
qed

lemma lc_on_disconnect_load:
  "view_load (lc_abs (lc_on_disconnect r b)) =
    (view_load (lc_abs r))(b := max 0 (view_load (lc_abs r) b - 1))"
  by (simp add: lc_abs_def lc_on_disconnect_def Let_def fun_eq_iff)

lemma lc_mark_load [simp]:
  "lc_count (lc_mark_unhealthy r b) = lc_count r" "lc_count (lc_mark_healthy r b) = lc_count r"
  by (auto simp: lc_mark_unhealthy_def lc_mark_healthy_def fun_eq_iff)

section \<open>The size of the heap\<close>

text \<open>One request served to its end before the next one comes: a selection, then its release.\<close>

definition lc_serve :: "lc_router \<Rightarrow> lc_router" where
  "lc_serve r =
     (case lc_next_backend r None of (None, r') \<Rightarrow> r' | (Some b, r') \<Rightarrow> lc_on_disconnect r' b)"

text \<open>With one backend: one entry of load 0 on top, and \<open>k\<close> entries of load 1 that never surface.\<close>

definition lc_idle :: "backend \<Rightarrow> nat \<Rightarrow> lc_router \<Rightarrow> bool" where
  "lc_idle b k r \<longleftrightarrow> is_heap (lc_heap r) \<and> lc_healthy_set r = {b} \<and> lc_count r b = 0 \<and>
     (\<exists>tb M. mset (lc_heap r) = add_mset (0, tb, b) M \<and> size M = k \<and> (\<forall>e \<in># M. fst e = 1))"

lemma lc_idle_serve:
  assumes "lc_idle b k r"
  shows "lc_idle b (Suc k) (lc_serve r)"
proof -
  obtain tb M where idle: "is_heap (lc_heap r)" "lc_healthy_set r = {b}" "lc_count r b = 0"
    and M: "mset (lc_heap r) = add_mset (0, tb, b) M" "size M = k" "\<forall>e \<in># M. fst e = 1"
    using assms by (auto simp: lc_idle_def)
  have "lc_heap r \<noteq> []" using M(1) by auto
  then obtain e h where pop: "heappop (lc_heap r) = Some (e, h)"
    by (cases "heappop (lc_heap r)") auto
  have "(0, tb, b) \<in> set (lc_heap r)" using M(1) by (metis set_mset_mset union_single_eq_member)
  from heappop_least [OF idle(1) pop this] have "fst e \<le> 0" by (auto simp: less_eq_prod_def)
  moreover have "e \<in># add_mset (0, tb, b) M" using mset_heappop [OF pop] M(1) by simp
  ultimately have e: "e = (0, tb, b)" using M(3) by auto
  with mset_heappop [OF pop] M(1) have h: "mset h = M" by simp
  have "lc_scan r {} (lc_heap r) [] = (Some (0, tb, b), h, [])"
    using pop e idle by (simp add: lc_scan.simps [of r "{}" "lc_heap r"])
  then have serve: "lc_serve r = lc_on_disconnect
      (lc_push (r\<lparr>lc_heap := h, lc_counts := (lc_counts r)(b \<mapsto> 1)\<rparr>) 1 b) b"
    by (simp add: lc_serve_def lc_next_backend_def)
  have "mset (lc_heap (lc_serve r)) = add_mset (0, lc_tiebreak r + 2, b)
      (add_mset (1, lc_tiebreak r + 1, b) M)"
    by (simp add: serve lc_on_disconnect_def Let_def h)
  moreover have "is_heap (lc_heap (lc_serve r))"
    using heappop_heap [OF idle(1) pop]
    by (simp add: serve lc_on_disconnect_def Let_def lc_push_heap)
  moreover have "lc_healthy_set (lc_serve r) = {b}" "lc_count (lc_serve r) b = 0"
    by (simp_all add: serve lc_on_disconnect_def Let_def idle)
      (simp add: lc_count_def)
  moreover have "size (add_mset (1, lc_tiebreak r + 1, b) M) = Suc k"
    "\<forall>e \<in># add_mset (1, lc_tiebreak r + 1, b) M. fst e = 1"
    using M by auto
  ultimately show ?thesis unfolding lc_idle_def by blast
qed

lemma lc_idle_init: "lc_idle b 0 (lc_init [b])"
  by (simp add: lc_idle_def lc_init_def lc_push_def heappush_def siftdown.simps is_heap_def lc_count_def)

lemma lc_idle_serves: "lc_idle b k ((lc_serve ^^ k) (lc_init [b]))"
  by (induction k) (auto simp: lc_idle_init lc_idle_serve)

lemma lc_idle_length: "lc_idle b k r \<Longrightarrow> length (lc_heap r) = Suc k"
  unfolding lc_idle_def by (metis size_add_mset size_mset)

end
