(* ===== verification/Router.thy ===== *)
theory Router
  imports RoundRobin LeastConn
begin

text \<open>
  The router as its callers see it: one of the two classes, made by \<open>create_router\<close>. Method calls
  dispatch on the class. The union is again an interpretation of \<open>backend_router\<close>, so everything
  proved in that interface holds for whichever algorithm was configured.
\<close>

datatype router = RR rr_router | LC lc_router

text \<open>The exception names the algorithm that was asked for.\<close>

datatype router_error = ValueError string

definition create_router :: "string \<Rightarrow> backend list \<Rightarrow> router_error + router" where
  "create_router algorithm backends =
     (if algorithm = ''round_robin'' then Inr (RR (rr_init backends))
      else if algorithm = ''least_connections'' then Inr (LC (lc_init backends))
      else Inl (ValueError algorithm))"

fun next_backend :: "router \<Rightarrow> backend set option \<Rightarrow> backend option \<times> router" where
  "next_backend (RR r) exclude = apsnd RR (rr_next_backend r exclude)"
| "next_backend (LC r) exclude = apsnd LC (lc_next_backend r exclude)"

fun on_disconnect :: "router \<Rightarrow> backend \<Rightarrow> router" where
  "on_disconnect (RR r) b = RR (rr_on_disconnect r b)"
| "on_disconnect (LC r) b = LC (lc_on_disconnect r b)"

fun mark_unhealthy :: "router \<Rightarrow> backend \<Rightarrow> router" where
  "mark_unhealthy (RR r) b = RR (rr_mark_unhealthy r b)"
| "mark_unhealthy (LC r) b = LC (lc_mark_unhealthy r b)"

fun mark_healthy :: "router \<Rightarrow> backend \<Rightarrow> router" where
  "mark_healthy (RR r) b = RR (rr_mark_healthy r b)"
| "mark_healthy (LC r) b = LC (lc_mark_healthy r b)"

fun get_all_backends :: "router \<Rightarrow> backend list" where
  "get_all_backends (RR r) = rr_get_all_backends r"
| "get_all_backends (LC r) = lc_get_all_backends r"

fun healthy_pool :: "router \<Rightarrow> backend set" where
  "healthy_pool (RR r) = set (rr_get_healthy_backends r)"
| "healthy_pool (LC r) = lc_get_healthy_backends r"

fun router_ok :: "router \<Rightarrow> bool" where
  "router_ok (RR r) \<longleftrightarrow> rr_ok r"
| "router_ok (LC r) \<longleftrightarrow> lc_ok r"

text \<open>How many connections a least-connections router charges a backend with.\<close>

fun router_load :: "router \<Rightarrow> backend \<Rightarrow> int" where
  "router_load (RR r) b = 0"
| "router_load (LC r) b = lc_count r b"

interpretation router: backend_router next_backend on_disconnect mark_unhealthy mark_healthy
    healthy_pool get_all_backends router_ok
proof unfold_locales
  fix r :: router and ex :: "backend set option" and b :: backend
  note [simp] = rr_get_healthy_backends_def lc_get_healthy_backends_def
  show "router_ok r \<Longrightarrow> router_ok (snd (next_backend r ex))"
    by (cases r) (auto simp: rr.select_ok lc.select_ok)
  show "router_ok r \<Longrightarrow> router_ok (on_disconnect r b)"
    by (cases r) (auto simp: rr.release_ok lc.release_ok)
  show "router_ok r \<Longrightarrow> router_ok (mark_unhealthy r b)"
    by (cases r) (auto simp: rr.down_ok lc.down_ok)
  show "router_ok r \<Longrightarrow> router_ok (mark_healthy r b)"
    by (cases r) (auto simp: rr.up_ok lc.up_ok)
  show "router_ok r \<Longrightarrow> fst (next_backend r ex) = Some b \<Longrightarrow> b \<in> healthy_pool r - skip_set ex"
    by (cases r) (auto dest: rr.select_Some lc.select_Some)
  show "router_ok r \<Longrightarrow> fst (next_backend r ex) = None \<longleftrightarrow> healthy_pool r \<subseteq> skip_set ex"
    by (cases r) (auto simp: rr.select_None lc.select_None)
  show "healthy_pool (snd (next_backend r ex)) = healthy_pool r"
    by (cases r) auto
  show "healthy_pool (on_disconnect r b) = healthy_pool r"
    by (cases r) (auto simp: rr.pool_release)
  show "router_ok r \<Longrightarrow> healthy_pool (mark_unhealthy r b) = healthy_pool r - {b}"
    by (cases r) (auto simp: rr.pool_down)
  show "healthy_pool (mark_healthy r b) = insert b (healthy_pool r)"
    by (cases r) (auto simp: rr.pool_up)
  show "get_all_backends (snd (next_backend r ex)) = get_all_backends r"
    by (cases r) (auto simp: rr.roster_select lc.roster_select)
  show "get_all_backends (on_disconnect r b) = get_all_backends r"
    by (cases r) (auto simp: rr.roster_release lc.roster_release)
  show "get_all_backends (mark_unhealthy r b) = get_all_backends r"
    by (cases r) (auto simp: rr.roster_down lc.roster_down)
  show "get_all_backends (mark_healthy r b) = get_all_backends r"
    by (cases r) (auto simp: rr.roster_up lc.roster_up)
qed

lemma create_router_ok:
  "distinct backends \<Longrightarrow> create_router algorithm backends = Inr r \<Longrightarrow>
    router_ok r \<and> healthy_pool r = set backends \<and> get_all_backends r = backends"
  by (auto simp: create_router_def rr_ok_def rr_init_def rr_get_healthy_backends_def
      rr_get_all_backends_def lc_get_healthy_backends_def lc_get_all_backends_def lc_init_ok
      split: if_splits)

lemma load_on_disconnect:
  "router_load (on_disconnect r b) c =
    (if c = b then max 0 (router_load r b - 1) else router_load r c)"
  by (cases r) (simp_all add: lc_on_disconnect_def Let_def)

lemma load_next_None:
  "router_ok r \<Longrightarrow> next_backend r ex = (None, r') \<Longrightarrow> router_load r' = router_load r"
proof (cases r)
  case (LC l)
  assume "router_ok r" "next_backend r ex = (None, r')"
  with LC show ?thesis
    by (auto simp: fun_eq_iff elim!: lc_next_cases [where ex = ex])
next
  case (RR l)
  assume "next_backend r ex = (None, r')"
  with RR show ?thesis by (cases "rr_next_backend l ex") auto
qed

lemma load_next_Some:
  assumes "router_ok r" and "next_backend r ex = (Some b, r')"
  shows "router_load r' c = router_load r c + (if c = b \<and> (\<exists>l. r = LC l) then 1 else 0)"
proof (cases r)
  case (LC l)
  with assms obtain l' where l: "lc_ok l" "lc_next_backend l ex = (Some b, l')" "r' = LC l'"
    by (cases "lc_next_backend l ex") auto
  have "lc_count l' c = lc_count l c + (if c = b then 1 else 0)"
    using l(1) by (cases rule: lc_next_cases [where ex = ex]) (auto simp: l(2))
  with LC l show ?thesis by simp
next
  case (RR l)
  with assms show ?thesis by (cases "rr_next_backend l ex") auto
qed

lemma router_load_nonneg: "router_ok r \<Longrightarrow> 0 \<le> router_load r b"
  by (cases r; cases b) (simp_all add: lc_ok_def)

section \<open>Operations in any order\<close>

text \<open>
  The reactor and the health checker thread call the router concurrently, each call under the
  lock: an execution is a sequence of calls.
\<close>

datatype router_op =
  Next "backend set option" | Disconnect backend | Mark_unhealthy backend | Mark_healthy backend

fun router_step :: "router \<Rightarrow> router_op \<Rightarrow> router" where
  "router_step r (Next ex) = snd (next_backend r ex)"
| "router_step r (Disconnect b) = on_disconnect r b"
| "router_step r (Mark_unhealthy b) = mark_unhealthy r b"
| "router_step r (Mark_healthy b) = mark_healthy r b"

definition router_run :: "router \<Rightarrow> router_op list \<Rightarrow> router" where
  "router_run r ops = foldl router_step r ops"

lemma router_step_ok: "router_ok r \<Longrightarrow> router_ok (router_step r x)"
  by (cases x) (auto simp: router.select_ok router.release_ok router.down_ok router.up_ok)

lemma router_run_ok: "router_ok r \<Longrightarrow> router_ok (router_run r ops)"
  unfolding router_run_def by (induction ops arbitrary: r) (auto simp: router_step_ok)

text \<open>The pool after a run, from the marks alone.\<close>

fun pool_after :: "backend set \<Rightarrow> router_op list \<Rightarrow> backend set" where
  "pool_after P [] = P"
| "pool_after P (Mark_unhealthy b # ops) = pool_after (P - {b}) ops"
| "pool_after P (Mark_healthy b # ops) = pool_after (insert b P) ops"
| "pool_after P (_ # ops) = pool_after P ops"

lemma router_run_pool:
  "router_ok r \<Longrightarrow> healthy_pool (router_run r ops) = pool_after (healthy_pool r) ops"
  unfolding router_run_def
proof (induction ops arbitrary: r)
  case (Cons x ops)
  from Cons.IH [OF router_step_ok [OF Cons.prems, of x]] Cons.prems show ?case
    by (cases x)
      (simp_all add: router.pool_select router.pool_release router.pool_down router.pool_up)
qed simp

end
