(* ===== verification/Config.thy ===== *)
theory Config
  imports Prelude Complex_Main
begin

text \<open>
  The tunables of \<open>config.py\<close>, as constants. Sizes and counts are integers; the timeouts are
  compared with and added to clock readings, so they are real numbers (seconds).
\<close>

definition LISTEN_HOST :: string where
  "LISTEN_HOST = ''0.0.0.0''"

definition LISTEN_PORT :: int where
  "LISTEN_PORT = 8080"

definition LISTEN_BACKLOG :: int where
  "LISTEN_BACKLOG = 1024"

definition WORKERS :: int where
  "WORKERS = 1"

definition BACKENDS :: "backend list" where
  "BACKENDS = [(''127.0.0.1'', 8001), (''127.0.0.1'', 8002), (''127.0.0.1'', 8003)]"

definition ROUTING_ALGORITHM :: string where
  "ROUTING_ALGORITHM = ''round_robin''"

definition HEALTH_CHECK_INTERVAL :: real where
  "HEALTH_CHECK_INTERVAL = 5"

definition HEALTH_CHECK_TIMEOUT :: real where
  "HEALTH_CHECK_TIMEOUT = 2"

definition HEALTH_CHECK_PATH :: string where
  "HEALTH_CHECK_PATH = ''/health''"

definition CLIENT_RECV_SIZE :: int where
  "CLIENT_RECV_SIZE = 65536"

definition BACKEND_RECV_SIZE :: int where
  "BACKEND_RECV_SIZE = 65536"

definition CONNECT_TIMEOUT :: real where
  "CONNECT_TIMEOUT = 5"

definition MAX_REQUEST_SIZE :: int where
  "MAX_REQUEST_SIZE = 10 * 1024 * 1024"

definition CLIENT_IDLE_TIMEOUT :: real where
  "CLIENT_IDLE_TIMEOUT = 30"

definition BACKEND_TIMEOUT :: real where
  "BACKEND_TIMEOUT = 30"

definition CLIENT_SEND_TIMEOUT :: real where
  "CLIENT_SEND_TIMEOUT = 30"

definition MAX_BACKEND_RETRIES :: int where
  "MAX_BACKEND_RETRIES = 2"

definition IDEMPOTENT_METHODS :: "string set" where
  "IDEMPOTENT_METHODS = {''GET'', ''HEAD'', ''OPTIONS'', ''PUT'', ''DELETE''}"

definition LOG_LEVEL :: string where
  "LOG_LEVEL = ''INFO''"

lemmas timeout_defs =
  CLIENT_IDLE_TIMEOUT_def CONNECT_TIMEOUT_def BACKEND_TIMEOUT_def CLIENT_SEND_TIMEOUT_def

end
