(* ===== verification/HealthChecker.thy ===== *)
theory HealthChecker
  imports Router PyText Config
begin

text \<open>
  \<open>health_checker.py\<close>: one probe, one sweep over the backends, the rounds of the thread. The
  thread shares the router with the event loop; each call on the router is atomic (it holds the
  lock), so an execution is an interleaving of the two sequences of calls.
\<close>

section \<open>A probe\<close>

definition probe_request :: "string \<Rightarrow> int \<Rightarrow> string \<Rightarrow> bytes" where
  "probe_request host port path =
     ''GET '' @ path @ '' HTTP/1.1'' @ [CHR 0x0D, CHR 0x0A] @
     ''Host: '' @ host @ '':'' @ show_int port @ [CHR 0x0D, CHR 0x0A] @
     ''Connection: close'' @ [CHR 0x0D, CHR 0x0A] @
     [CHR 0x0D, CHR 0x0A]"

text \<open>
  What happens to a probe: an \<open>OSError\<close> (a refused connection, a timeout, a reset) in one of its
  three calls, an answer (empty when the peer closed), or an exception \<open>_probe\<close> does not catch.
\<close>

datatype probe_io = Connect_fails | Send_fails | Recv_fails | Answer bytes | Probe_raises

definition probe :: "probe_io \<Rightarrow> bool option" where
  "probe a =
     (case a of
        Connect_fails \<Rightarrow> Some False
      | Send_fails \<Rightarrow> Some False
      | Recv_fails \<Rightarrow> Some False
      | Answer bs \<Rightarrow>
          let data = take 1024 bs
          in Some (data \<noteq> [] \<and> prefix ''HTTP/'' data)
      | Probe_raises \<Rightarrow> None)"

section \<open>Sweeps and rounds\<close>

text \<open>
  The calls one sweep makes on the router, and whether the thread is still alive after it: an
  exception ends \<open>_run\<close>. \<open>answers i\<close> is what happens to probe number \<open>i\<close>.
\<close>

fun sweep_ops :: "(nat \<Rightarrow> probe_io) \<Rightarrow> backend list \<Rightarrow> router_op list \<times> bool" where
  "sweep_ops answers [] = ([], True)"
| "sweep_ops answers (b # bs) =
     (case probe (answers 0) of
        None \<Rightarrow> ([], False)
      | Some healthy \<Rightarrow>
          let (ops, alive) = sweep_ops (\<lambda>i. answers (Suc i)) bs
          in ((if healthy then Mark_healthy b else Mark_unhealthy b) # ops, alive))"

definition sweep :: "(nat \<Rightarrow> probe_io) \<Rightarrow> router \<Rightarrow> bool \<times> router" where
  "sweep answers r =
     (let (ops, alive) = sweep_ops answers (get_all_backends r) in (alive, router_run r ops))"

text \<open>The thread, stopped after \<open>n\<close> rounds.\<close>

fun checker_run :: "(nat \<Rightarrow> nat \<Rightarrow> probe_io) \<Rightarrow> nat \<Rightarrow> router \<Rightarrow> bool \<times> router" where
  "checker_run answers 0 r = (True, r)"
| "checker_run answers (Suc n) r =
     (let (alive, r) = sweep (answers 0) r
      in if alive then checker_run (\<lambda>k. answers (Suc k)) n r else (False, r))"

text \<open>The calls of up to \<open>n\<close> rounds over the backends \<open>bs\<close>, in order: those of the sweeps, up to one that raises.\<close>

fun thread_ops :: "nat \<Rightarrow> (nat \<Rightarrow> nat \<Rightarrow> probe_io) \<Rightarrow> backend list \<Rightarrow> router_op list" where
  "thread_ops 0 answers bs = []"
| "thread_ops (Suc n) answers bs =
     (let (ops, alive) = sweep_ops (answers 0) bs
      in if alive then ops @ thread_ops n (\<lambda>k. answers (Suc k)) bs else ops)"

text \<open>The same as marks: a backend and whether it was found healthy.\<close>

definition marks_of :: "router_op list \<Rightarrow> (backend \<times> bool) list" where
  "marks_of ops = List.map_filter (\<lambda>op. case op of Mark_healthy b \<Rightarrow> Some (b, True) | Mark_unhealthy b \<Rightarrow> Some (b, False) | _ \<Rightarrow> None) ops"

section \<open>Lifecycle\<close>

text \<open>
  The object: its settings, the stop event, and whether its thread has been started. Starting the thread a second
  time and joining one that was never started are errors (\<open>None\<close>).
\<close>

record health_checker =
  hc_interval :: real
  hc_timeout :: real
  hc_path :: string
  hc_stop_event :: bool
  hc_started :: bool

definition new_checker :: health_checker where
  "new_checker =
     \<lparr>hc_interval = HEALTH_CHECK_INTERVAL, hc_timeout = HEALTH_CHECK_TIMEOUT, hc_path = HEALTH_CHECK_PATH,
      hc_stop_event = False, hc_started = False\<rparr>"

definition start_checker :: "health_checker \<Rightarrow> health_checker option" where
  "start_checker c = (if hc_started c then None else Some (c\<lparr>hc_started := True\<rparr>))"

text \<open>\<open>stop\<close>: the checker, and how long it waits for the thread at most.\<close>

definition stop_checker :: "health_checker \<Rightarrow> (health_checker \<times> real) option" where
  "stop_checker c =
     (let c = c\<lparr>hc_stop_event := True\<rparr>
      in if hc_started c then Some (c, hc_interval c + 2) else None)"

text \<open>
  The rounds of the thread: \<open>stops k\<close> is whether the event is set when round \<open>k\<close> tests it. The result is
  the number of sweeps that were begun, whether \<open>_run\<close> returned (and did not raise), and the router, after
  at most \<open>n\<close> tests.
\<close>

fun checker_thread ::
    "nat \<Rightarrow> (nat \<Rightarrow> bool) \<Rightarrow> (nat \<Rightarrow> nat \<Rightarrow> probe_io) \<Rightarrow> router \<Rightarrow> (nat \<times> bool \<times> router) option" where
  "checker_thread 0 stops answers r = None"
| "checker_thread (Suc n) stops answers r =
     (if stops 0 then Some (0, True, r)
      else let (alive, r) = sweep (answers 0) r
           in if alive
              then map_option (apfst Suc) (checker_thread n (\<lambda>k. stops (Suc k)) (\<lambda>k. answers (Suc k)) r)
              else Some (1, False, r))"

text \<open>Once the event is set in round \<open>k\<close> the thread ends within \<open>k + 1\<close> tests, having done what \<open>k\<close> rounds do.\<close>

lemma checker_thread_stops:
  assumes "stops k" and "\<forall>i < k. \<not> stops i" and "fst (checker_run answers k r)"
  shows "checker_thread (Suc k) stops answers r = Some (k, True, snd (checker_run answers k r))"
  using assms
proof (induction k arbitrary: stops answers r)
  case (Suc k)
  obtain alive r' where s: "sweep (answers 0) r = (alive, r')" by fastforce
  with Suc.prems(3) have alive: "alive" by (simp split: if_splits)
  have "\<not> stops 0" using Suc.prems(2) by blast
  moreover have "checker_thread (Suc k) (\<lambda>k. stops (Suc k)) (\<lambda>k. answers (Suc k)) r' =
      Some (k, True, snd (checker_run (\<lambda>k. answers (Suc k)) k r'))"
    by (rule Suc.IH) (use Suc.prems s alive in auto)
  ultimately show ?case using s alive by (simp del: checker_thread.simps add: checker_thread.simps(2) [of "Suc k"])
qed simp

section \<open>The calls of the thread\<close>

lemma sweep_ops_marks: "set (fst (sweep_ops answers bs)) \<subseteq> range Mark_healthy \<union> range Mark_unhealthy"
proof (induction bs arbitrary: answers)
  case (Cons b bs)
  obtain ops alive where s: "sweep_ops (\<lambda>i. answers (Suc i)) bs = (ops, alive)" by fastforce
  with Cons [of "\<lambda>i. answers (Suc i)"] have "set ops \<subseteq> range Mark_healthy \<union> range Mark_unhealthy" by simp
  with s show ?case by (cases "probe (answers 0)") (simp_all add: subset_iff)
qed simp

lemma thread_ops_marks: "set (thread_ops n answers bs) \<subseteq> range Mark_healthy \<union> range Mark_unhealthy"
proof (induction n arbitrary: answers)
  case (Suc n)
  with sweep_ops_marks [of "answers 0" bs] show ?case by (cases "sweep_ops (answers 0) bs") auto
qed simp

lemma router_run_append: "router_run r (xs @ ys) = router_run (router_run r xs) ys"
  by (simp add: router_run_def)

lemma router_run_roster_marks:
  "set ops \<subseteq> range Mark_healthy \<union> range Mark_unhealthy \<Longrightarrow> get_all_backends (router_run r ops) = get_all_backends r"
  unfolding router_run_def by (induction ops arbitrary: r) (auto simp: router.roster_up router.roster_down)

text \<open>They are what the thread does to the router.\<close>

lemma checker_run_ops: "snd (checker_run answers n r) = router_run r (thread_ops n answers (get_all_backends r))"
proof (induction n arbitrary: answers r)
  case 0
  show ?case by (simp add: router_run_def)
next
  case (Suc n)
  obtain ops alive where s: "sweep_ops (answers 0) (get_all_backends r) = (ops, alive)" by fastforce
  from router_run_roster_marks [of ops r] sweep_ops_marks [of "answers 0" "get_all_backends r"] s
  have "get_all_backends (router_run r ops) = get_all_backends r" by simp
  with Suc.IH [of "\<lambda>k. answers (Suc k)" "router_run r ops"] s show ?case by (simp add: sweep_def router_run_append)
qed

lemma marks_of_run:
  "set ops \<subseteq> range Mark_healthy \<union> range Mark_unhealthy \<Longrightarrow>
    router_run r ops = foldl (\<lambda>r (b, v). if v then mark_healthy r b else mark_unhealthy r b) r (marks_of ops)"
  unfolding router_run_def marks_of_def by (induction ops arbitrary: r) (auto simp: List.map_filter_simps)

section \<open>What a sweep does to the pool\<close>

definition probes_return :: "(nat \<Rightarrow> probe_io) \<Rightarrow> nat \<Rightarrow> bool" where
  "probes_return answers n \<longleftrightarrow> (\<forall>i < n. answers i \<noteq> Probe_raises)"

lemma probe_None [simp]: "probe a = None \<longleftrightarrow> a = Probe_raises"
  by (simp add: probe_def Let_def split: probe_io.splits)

definition verdicts :: "(nat \<Rightarrow> probe_io) \<Rightarrow> backend list \<Rightarrow> (backend \<times> bool) list" where
  "verdicts answers bs = map (\<lambda>(i, b). (b, probe (answers i) = Some True)) (enumerate 0 bs)"

lemma verdicts_simps [simp]:
  "verdicts answers [] = []"
  "verdicts answers (b # bs) =
     (b, probe (answers 0) = Some True) # verdicts (\<lambda>i. answers (Suc i)) bs"
  by (simp_all add: verdicts_def enumerate_Suc_eq case_prod_unfold)

lemma probes_return_Suc:
  "probes_return answers (Suc n) \<longleftrightarrow> answers 0 \<noteq> Probe_raises \<and> probes_return (\<lambda>i. answers (Suc i)) n"
  by (auto simp: probes_return_def less_Suc_eq_0_disj)

lemma sweep_ops_verdicts:
  "probes_return answers (length bs) \<Longrightarrow> sweep_ops answers bs =
    (map (\<lambda>(b, v). if v then Mark_healthy b else Mark_unhealthy b) (verdicts answers bs), True)"
proof (induction bs arbitrary: answers)
  case (Cons b bs)
  then show ?case by (cases "probe (answers 0)") (auto simp: probes_return_Suc Let_def)
qed simp

text \<open>A probe that raises: what was found before it has been marked, nothing after it is probed.\<close>

lemma sweep_ops_raises:
  "i < length bs \<Longrightarrow> answers i = Probe_raises \<Longrightarrow> probes_return answers i \<Longrightarrow> sweep_ops answers bs =
    (map (\<lambda>(b, v). if v then Mark_healthy b else Mark_unhealthy b) (verdicts answers (take i bs)), False)"
proof (induction bs arbitrary: answers i)
  case (Cons b bs)
  show ?case
  proof (cases i)
    case 0
    with Cons.prems show ?thesis by (simp add: probe_def)
  next
    case (Suc j)
    with Cons.prems have "answers 0 \<noteq> Probe_raises" "probes_return (\<lambda>i. answers (Suc i)) j" "j < length bs"
      "answers (Suc j) = Probe_raises"
      by (simp_all add: probes_return_Suc)
    with Cons.IH [of j "\<lambda>i. answers (Suc i)"] Suc show ?thesis
      by (cases "probe (answers 0)") (auto simp: Let_def)
  qed
qed simp

lemma run_marks:
  "router_run r (map (\<lambda>(b, v). if v then Mark_healthy b else Mark_unhealthy b) vs) =
    foldl (\<lambda>r (b, v). if v then mark_healthy r b else mark_unhealthy r b) r vs"
  unfolding router_run_def by (induction vs arbitrary: r) auto

lemma set_verdicts:
  "distinct bs \<Longrightarrow> map_of (rev (verdicts answers bs)) b =
    (if b \<in> set bs then Some (\<exists>i < length bs. bs ! i = b \<and> probe (answers i) = Some True) else None)"
proof (induction bs arbitrary: answers)
  case (Cons x bs)
  then show ?case by (auto simp: map_add_def less_Suc_eq_0_disj split: option.splits)
qed simp

text \<open>The sweep of a router whose backends are all different decides the pool.\<close>

lemma sweep_decides:
  assumes "router_ok r" and "distinct (get_all_backends r)"
    and "probes_return answers (length (get_all_backends r))"
  shows "fst (sweep answers r)"
    and "healthy_pool (snd (sweep answers r)) =
      {b. if b \<in> set (get_all_backends r)
          then \<exists>i < length (get_all_backends r). get_all_backends r ! i = b \<and> probe (answers i) = Some True
          else b \<in> healthy_pool r}"
    and "router_ok (snd (sweep answers r))"
    and "get_all_backends (snd (sweep answers r)) = get_all_backends r"
  using router.sweep_pool [OF assms(1), of "verdicts answers (get_all_backends r)"]
    router.sweep_ok [OF assms(1)] router.sweep_roster [of r "verdicts answers (get_all_backends r)"]
  by (auto simp: sweep_def sweep_ops_verdicts [OF assms(3)] run_marks set_verdicts [OF assms(2)])

section \<open>Together with the event loop\<close>

definition no_marks :: "router_op list \<Rightarrow> bool" where
  "no_marks ops \<longleftrightarrow> (\<forall>x \<in> set ops. case x of Next _ \<Rightarrow> True | Disconnect _ \<Rightarrow> True | _ \<Rightarrow> False)"

lemma pool_after_shuffle:
  "zs \<in> shuffles xs ys \<Longrightarrow> no_marks ys \<Longrightarrow> pool_after P zs = pool_after P xs"
proof (induction zs arbitrary: xs ys P)
  case (Cons z zs)
  from Cons.prems(1) consider xs' where "xs = z # xs'" "zs \<in> shuffles xs' ys"
    | ys' where "ys = z # ys'" "zs \<in> shuffles xs ys'"
    by (auto simp: Cons_in_shuffles_iff) (metis list.collapse)+
  then show ?case
  proof cases
    case 1
    with Cons.IH [OF 1(2) Cons.prems(2)] show ?thesis by (cases z) simp_all
  next
    case 2
    with Cons.prems(2) have "no_marks ys'" by (simp add: no_marks_def)
    with 2 Cons.prems(2) Cons.IH [OF 2(2)] show ?thesis
      by (cases z) (simp_all add: no_marks_def)
  qed
qed simp

end
