(* ===== verification/RouterTheorems.thy ===== *)
theory RouterTheorems
  imports HealthChecker
begin

text \<open>
  The properties of \<open>router.py\<close>, of the heap under the least-connections router and of
  \<open>health_checker.py\<close>.
\<close>

section \<open>The contract, for any sequence of calls\<close>

lemma router_run_roster: "get_all_backends (router_run r ops) = get_all_backends r"
proof -
  have "get_all_backends (router_step r x) = get_all_backends r" for r x
    by (cases x) (auto simp: router.roster_select router.roster_release router.roster_down router.roster_up)
  then show ?thesis unfolding router_run_def by (induction ops arbitrary: r) simp_all
qed

lemma created_run:
  assumes "create_router algorithm backends = Inr r" and "distinct backends"
  shows "router_ok (router_run r ops)" "healthy_pool (router_run r ops) = pool_after (set backends) ops"
    "get_all_backends (router_run r ops) = backends"
  using create_router_ok [OF assms(2,1)] by (auto simp: router_run_ok router_run_pool router_run_roster)

text \<open>C27: After any sequence of calls on a router of either algorithm, a selection fails exactly when
  every backend that is marked healthy is excluded, and otherwise returns a healthy backend that
  is not excluded; the configured list never changes.\<close>

theorem selection_after_any_calls:
  assumes "create_router algorithm backends = Inr r" and "distinct backends"
  shows "(case fst (next_backend (router_run r ops) ex) of
            None \<Rightarrow> pool_after (set backends) ops \<subseteq> skip_set ex
          | Some b \<Rightarrow> b \<in> pool_after (set backends) ops - skip_set ex)
    \<and> get_all_backends (router_run r ops) = backends"
  using router.select_None [OF created_run(1) [OF assms]] router.select_Some [OF created_run(1) [OF assms]]
    created_run(2,3) [OF assms]
  by (auto split: option.splits)

definition two_backends :: "backend list" where
  "two_backends = [(''a'', 1), (''b'', 2)]"

theorem selection_after_any_calls_witness:
  "fst (next_backend (router_run (LC (lc_init two_backends))
      [Mark_unhealthy (''a'', 1), Next None, Disconnect (''b'', 2)]) (Some {(''b'', 2)})) = None"
  using selection_after_any_calls [of "''least_connections''" two_backends "LC (lc_init two_backends)"
      "[Mark_unhealthy (''a'', 1), Next None, Disconnect (''b'', 2)]" "Some {(''b'', 2)}"]
  by (auto simp: create_router_def two_backends_def split: option.splits)

text \<open>C26: Least-connections: for every router state that the operations reach, the selection over
  heap, tiebreaks and stale entries is a selection of a least loaded eligible backend, charged with
  one more connection, and changes nothing else.\<close>

theorem least_connections_refines_choice:
  assumes "lc_ok r"
  shows "lc_spec_next (skip_set ex) (lc_abs r) (fst (lc_next_backend r ex))
    (lc_abs (snd (lc_next_backend r ex)))"
  by (rule lc_next_refines_spec [OF assms])

theorem least_connections_refines_choice_witness:
  "lc_spec_next {} (lc_abs (lc_init two_backends)) (fst (lc_next_backend (lc_init two_backends) None))
    (lc_abs (snd (lc_next_backend (lc_init two_backends) None)))"
  using least_connections_refines_choice [OF lc_init_ok, of None two_backends] by simp

text \<open>C38: Round robin is fair: any number of full turns without exclusions chooses every healthy
  backend the same number of times, wherever the index stands.\<close>

theorem round_robin_fair:
  assumes "distinct (rr_healthy r)" and "rr_healthy r \<noteq> []"
  shows "mset (fst (rr_calls (k * length (rr_healthy r)) r)) =
    repeat_mset k (image_mset Some (mset (rr_healthy r)))"
proof -
  have "image_mset Some (repeat_mset k M) = repeat_mset k (image_mset Some M)" for M :: "backend multiset"
    by (induction k) simp_all
  with arg_cong [OF rr_turns_mset [OF assms(1), of "rr_index r" k], of "image_mset Some"]
  show ?thesis by (simp add: rr_calls_eq [OF assms(2)] multiset.map_comp comp_def)
qed

theorem round_robin_fair_witness:
  "mset (fst (rr_calls (3 * length two_backends) (rr_init two_backends))) =
    repeat_mset 3 (image_mset Some (mset two_backends))"
  using round_robin_fair [of "rr_init two_backends" 3] by (simp add: rr_init_def two_backends_def)

text \<open>Only the two configured names make a router; any other is the ValueError of the code.\<close>

theorem create_router_names:
  "(\<exists>r. create_router algorithm backends = Inr r) =
    (algorithm \<in> {''round_robin'', ''least_connections''})"
  by (simp add: create_router_def)

section \<open>The heap, duplicates\<close>

text \<open>The heap of the least-connections router is never cleaned below its top: with one
  backend, every request that is served and released leaves one dead entry behind.\<close>

theorem least_connections_heap_grows:
  "length (lc_heap ((lc_serve ^^ k) (lc_init [b]))) = k + 1"
  using lc_idle_length [OF lc_idle_serves] by simp

text \<open>A backend configured twice survives its removal: the round-robin router drops one copy
  and keeps choosing the other.\<close>

theorem duplicate_backend_stays:
  "fst (rr_next_backend (rr_mark_unhealthy (rr_init [b, b]) b) None) = Some b"
  by (simp add: rr_mark_unhealthy_def rr_init_def rr_next_backend_def)

section \<open>Health checks\<close>

text \<open>C34: One sweep decides the pool: of the configured backends exactly those stay or come back
  whose probe was answered with a status line, whatever the pool was before.\<close>

theorem sweep_sets_pool:
  assumes "create_router algorithm backends = Inr r" and "distinct backends"
    and "probes_return answers (length backends)"
  shows "healthy_pool (snd (sweep answers (router_run r ops))) \<inter> set backends =
      {backends ! i | i. i < length backends \<and> probe (answers i) = Some True}
    \<and> fst (sweep answers (router_run r ops))"
proof -
  note run = created_run [OF assms(1,2), of ops]
  note sweep = sweep_decides [OF run(1), of answers, unfolded run(3), OF assms(2,3)]
  have "{b. if b \<in> S then Q b else R b} \<inter> S = {b \<in> S. Q b}" for S :: "backend set" and Q R by auto
  moreover have "{b \<in> set backends. \<exists>i < length backends. backends ! i = b \<and> probe (answers i) = Some True} =
      {backends ! i | i. i < length backends \<and> probe (answers i) = Some True}"
    by (auto simp del: split_paired_All split_paired_Ex; metis)
  ultimately show ?thesis unfolding sweep(2) using sweep(1) by simp
qed

lemma indexed_set: "{f i | i. i < n \<and> P i} = set (map f (filter P [0..<n]))"
  by auto

definition second_answers :: "nat \<Rightarrow> probe_io" where
  "second_answers i = (if i = 0 then Connect_fails else Answer ''HTTP/1.1 200'')"

theorem sweep_sets_pool_witness:
  "healthy_pool (snd (sweep second_answers (RR (rr_init two_backends)))) \<inter> set two_backends = {(''b'', 2)}"
proof -
  have "create_router ''round_robin'' two_backends = Inr (RR (rr_init two_backends))"
    by (simp add: create_router_def)
  moreover have "distinct two_backends" by code_simp
  moreover have "probes_return second_answers (length two_backends)"
    by (simp add: probes_return_def second_answers_def)
  moreover have "{two_backends ! i | i. i < length two_backends \<and> probe (second_answers i) = Some True} = {(''b'', 2)}"
    unfolding indexed_set by code_simp
  ultimately show ?thesis
    using sweep_sets_pool [of "''round_robin''" two_backends "RR (rr_init two_backends)" second_answers "[]"]
    unfolding router_run_def by (simp only: foldl.simps simp_thms)
qed

text \<open>C35: A probe that raises anything but an OSError ends the thread for good: the backends before it have
  been marked, those after it are not probed, and no later answer reaches the router, so a backend that
  recovers is never taken back.\<close>

theorem raising_probe_ends_checker:
  assumes "i < length (get_all_backends r)" and "answers 0 i = Probe_raises" and "probes_return (answers 0) i"
    and "\<not> stops 0"
  shows "checker_thread (Suc n) stops answers r = Some (1, False,
    foldl (\<lambda>r (b, v). if v then mark_healthy r b else mark_unhealthy r b) r
      (verdicts (answers 0) (take i (get_all_backends r))))"
  using sweep_ops_raises [OF assms(1-3)] assms(4) by (simp add: sweep_def run_marks)

theorem raising_probe_ends_checker_witness:
  "\<exists>r'. checker_thread 9 (\<lambda>k. False) (\<lambda>k i. if k = 0 then (if i = 0 then Connect_fails else Probe_raises)
       else Answer ''HTTP/1.1 200 OK'') (RR (rr_init two_backends)) = Some (1, False, r') \<and>
     healthy_pool r' = {(''b'', 2)}"
proof -
  let ?answers = "\<lambda>k i. if k = (0 :: nat) then (if i = (0 :: nat) then Connect_fails else Probe_raises)
       else Answer ''HTTP/1.1 200 OK''" let ?r = "RR (rr_init two_backends)"
  have all: "get_all_backends ?r = [(''a'', 1), (''b'', 2)]" by code_simp
  have "checker_thread (Suc 8) (\<lambda>k. False) ?answers ?r = Some (1, False,
    foldl (\<lambda>r (b, v). if v then mark_healthy r b else mark_unhealthy r b) ?r
      (verdicts (?answers 0) (take 1 (get_all_backends ?r))))"
    by (rule raising_probe_ends_checker) (simp_all only: all, simp_all add: probes_return_def)
  moreover have "healthy_pool (mark_unhealthy ?r (''a'', 1)) = {(''b'', 2)}" by code_simp
  ultimately show ?thesis unfolding all by (simp add: probe_def)
qed

text \<open>The event loop's calls between the checker's cannot undo or delay a verdict: any
  interleaving of a sweep with selections and releases leaves the pool the sweep alone would.\<close>

theorem interleaved_sweep_pool:
  assumes "router_ok r" and "zs \<in> shuffles (fst (sweep_ops answers (get_all_backends r))) ys" and "no_marks ys"
  shows "healthy_pool (router_run r zs) = healthy_pool (snd (sweep answers r))"
  using router_run_pool [OF assms(1)] pool_after_shuffle [OF assms(2,3)]
  by (simp add: sweep_def case_prod_unfold Let_def)

theorem interleaved_sweep_pool_witness:
  "healthy_pool (router_run (RR (rr_init [(''a'', 1)])) [Next None, Mark_unhealthy (''a'', 1), Disconnect (''a'', 1)]) =
    healthy_pool (snd (sweep (\<lambda>i. Recv_fails) (RR (rr_init [(''a'', 1)]))))"
  by (rule interleaved_sweep_pool [where ys = "[Next None, Disconnect (''a'', 1)]"])
    (simp_all add: rr_init_def rr_ok_def rr_get_all_backends_def probe_def no_marks_def Cons_in_shuffles_iff)

end
