(* ===== verification/AccessLog.thy ===== *)
theory AccessLog
  imports PyText Config
begin

text \<open>
  \<open>logger.py\<close>: the record \<open>access_log\<close> is called with, and the line it emits, the rendering of
  \<open>ACCESS_LOG_FORMAT\<close>; the application's logger, its level, its handler and formatter.
\<close>

record access_record =
  log_client_ip :: string
  log_client_port :: int
  log_backend_ip :: string
  log_backend_port :: int
  log_method :: string
  log_path :: string
  log_version :: string
  log_status :: int
  log_latency_ms :: real

text \<open>The format \<open>.1f\<close>: the nearest tenth, a tie goes to the even one.\<close>

definition tenths :: "real \<Rightarrow> int" where
  "tenths x =
     (let n = \<lfloor>10 * x\<rfloor>; r = 10 * x - of_int n
      in if r < 1 / 2 \<or> (r = 1 / 2 \<and> even n) then n else n + 1)"

definition show_fixed1 :: "real \<Rightarrow> string" where
  "show_fixed1 x =
     (let n = tenths \<bar>x\<bar>; s = show_int (n div 10) @ ''.'' @ show_int (n mod 10)
      in if x < 0 then CHR ''-'' # s else s)"

definition access_line :: "access_record \<Rightarrow> string" where
  "access_line r =
     log_client_ip r @ '':'' @ show_int (log_client_port r) @ '' -> '' @
     log_backend_ip r @ '':'' @ show_int (log_backend_port r) @ '' \"'' @
     log_method r @ '' '' @ log_path r @ '' '' @ log_version r @ ''\" '' @
     show_int (log_status r) @ '' '' @ show_fixed1 (log_latency_ms r) @ ''ms''"

lemma tenths_near: "\<bar>10 * x - of_int (tenths x)\<bar> \<le> 1 / 2"
  unfolding tenths_def Let_def by (auto; linarith)

section \<open>The logger\<close>

text \<open>
  \<open>getattr(logging, name, logging.INFO)\<close> for the names of levels. The logger \<open>lb\<close> with its level (0 when none
  was set, then the root's, which is \<open>WARNING\<close>, counts), the levels of its handlers, the cached
  reference, and the lines on standard output.
\<close>

definition log_level :: "string \<Rightarrow> int" where
  "log_level name =
     (case map_of [(''CRITICAL'', 50), (''FATAL'', 50), (''ERROR'', 40), (''WARNING'', 30), (''WARN'', 30),
         (''INFO'', 20), (''DEBUG'', 10), (''NOTSET'', 0)] name of
        None \<Rightarrow> 20
      | Some n \<Rightarrow> n)"

record log_state =
  lg_level :: int
  lg_handlers :: "int list"
  lg_cached :: bool
  lg_out :: "string list"

definition fresh_logging :: log_state where
  "fresh_logging = \<lparr>lg_level = 0, lg_handlers = [], lg_cached = False, lg_out = []\<rparr>"

definition setup_logging :: "log_state \<Rightarrow> log_state" where
  "setup_logging s =
     (let s = s\<lparr>lg_level := log_level LOG_LEVEL\<rparr>
      in if lg_handlers s = [] then s\<lparr>lg_handlers := [log_level ''DEBUG'']\<rparr> else s)"

definition get_logger :: "log_state \<Rightarrow> log_state" where
  "get_logger s = (if lg_cached s then s else (setup_logging s)\<lparr>lg_cached := True\<rparr>)"

text \<open>The formatter: the time, the process, the level in five places, the message.\<close>

definition format_line :: "string \<Rightarrow> int \<Rightarrow> string \<Rightarrow> string \<Rightarrow> string" where
  "format_line asctime pid levelname msg =
     asctime @ '' | pid='' @ show_int pid @ '' | '' @
     levelname @ replicate (5 - length levelname) CHR '' '' @ '' | '' @ msg"

text \<open>\<open>logger.info\<close>: a line for each handler that lets the level pass.\<close>

definition log_info :: "string \<Rightarrow> int \<Rightarrow> string \<Rightarrow> log_state \<Rightarrow> log_state" where
  "log_info asctime pid msg s =
     (let effective = (if lg_level s = 0 then log_level ''WARNING'' else lg_level s)
      in if log_level ''INFO'' < effective then s
         else s\<lparr>lg_out := lg_out s @
                map (\<lambda>l. format_line asctime pid ''INFO'' msg) (filter (\<lambda>l. l \<le> log_level ''INFO'') (lg_handlers s))\<rparr>)"

definition emit_access :: "string \<Rightarrow> int \<Rightarrow> access_record \<Rightarrow> log_state \<Rightarrow> log_state" where
  "emit_access asctime pid r s = log_info asctime pid (access_line r) (get_logger s)"

text \<open>The calls the program makes, in any order.\<close>

datatype log_call = Setup | Get | Access string int access_record

fun log_step :: "log_state \<Rightarrow> log_call \<Rightarrow> log_state" where
  "log_step s Setup = setup_logging s"
| "log_step s Get = get_logger s"
| "log_step s (Access asctime pid r) = emit_access asctime pid r s"

definition logging_ok :: "log_state \<Rightarrow> bool" where
  "logging_ok s \<longleftrightarrow> lg_handlers s \<in> {[], [10]} \<and>
     (lg_cached s \<longrightarrow> lg_level s = 20 \<and> lg_handlers s = [10])"

lemma logging_setup: "logging_ok s \<Longrightarrow> logging_ok (setup_logging s) \<and> lg_out (setup_logging s) = lg_out s"
  by (auto simp: logging_ok_def setup_logging_def log_level_def LOG_LEVEL_def)

lemma logging_get:
  "logging_ok s \<Longrightarrow> logging_ok (get_logger s) \<and> lg_cached (get_logger s) \<and> lg_out (get_logger s) = lg_out s"
  by (auto simp: logging_ok_def get_logger_def setup_logging_def log_level_def LOG_LEVEL_def)

lemma logging_emit:
  assumes "logging_ok s"
  shows "logging_ok (emit_access asctime pid r s)"
    and "lg_out (emit_access asctime pid r s) = lg_out s @ [format_line asctime pid ''INFO'' (access_line r)]"
  using logging_get [OF assms] by (auto simp: emit_access_def log_info_def logging_ok_def log_level_def)

text \<open>C37: However often the logger is set up or fetched, each access record gives exactly one line on the
  output, in the order of the calls: its handler is installed once.\<close>

theorem one_line_per_record:
  "lg_out (foldl log_step fresh_logging calls) =
    concat (map (\<lambda>call. case call of
        Access asctime pid r \<Rightarrow> [format_line asctime pid ''INFO'' (access_line r)] | _ \<Rightarrow> []) calls)"
proof -
  have "logging_ok (foldl log_step s calls) \<and> lg_out (foldl log_step s calls) =
      lg_out s @ concat (map (\<lambda>call. case call of
        Access asctime pid r \<Rightarrow> [format_line asctime pid ''INFO'' (access_line r)] | _ \<Rightarrow> []) calls)"
    if "logging_ok s" for s
    using that
  proof (induction calls arbitrary: s)
    case (Cons call calls)
    then show ?case by (cases call) (simp_all add: logging_setup logging_get logging_emit)
  qed simp
  moreover have "logging_ok fresh_logging" by (simp add: logging_ok_def fresh_logging_def)
  ultimately show ?thesis by (simp add: fresh_logging_def)
qed

end
