(* ===== verification/World.thy ===== *)
theory World
  imports Router AccessLog
begin

text \<open>
  What a handler of a connection touches outside the connection: the clock, the sockets of the
  process, the router and the access log. The operating system's answers during one call of a
  handler are the record \<open>io\<close>, an argument of the handler.
\<close>

section \<open>State\<close>

text \<open>
  A socket object is its number in the order of creation. \<open>w_wire\<close> holds the bytes the kernel has
  accepted for a socket. \<open>w_clock n\<close> is what reading number \<open>n\<close> of \<open>time.monotonic()\<close> returns.
\<close>

type_synonym sock = nat

record world =
  w_router :: router
  w_clock :: "nat \<Rightarrow> real"
  w_reads :: nat
  w_next_sock :: sock
  w_closed :: "sock set"
  w_wire :: "sock \<Rightarrow> bytes"
  w_log :: "access_record list"

definition monotonic :: "world \<Rightarrow> real \<times> world" where
  "monotonic w = (w_clock w (w_reads w), w\<lparr>w_reads := Suc (w_reads w)\<rparr>)"

definition new_socket :: "world \<Rightarrow> sock \<times> world" where
  "new_socket w = (w_next_sock w, w\<lparr>w_next_sock := Suc (w_next_sock w)\<rparr>)"

definition close_socket :: "sock \<Rightarrow> world \<Rightarrow> world" where
  "close_socket s w = w\<lparr>w_closed := insert s (w_closed w)\<rparr>"

definition transmit :: "sock \<Rightarrow> bytes \<Rightarrow> world \<Rightarrow> world" where
  "transmit s data w = w\<lparr>w_wire := (w_wire w)(s := w_wire w s @ data)\<rparr>"

definition access_log :: "access_record \<Rightarrow> world \<Rightarrow> world" where
  "access_log r w = w\<lparr>w_log := w_log w @ [r]\<rparr>"

definition router_release :: "backend \<Rightarrow> world \<Rightarrow> world" where
  "router_release b w = w\<lparr>w_router := on_disconnect (w_router w) b\<rparr>"

definition router_select :: "backend set option \<Rightarrow> world \<Rightarrow> backend option \<times> world" where
  "router_select ex w = (let (b, r) = next_backend (w_router w) ex in (b, w\<lparr>w_router := r\<rparr>))"

lemmas world_defs = monotonic_def new_socket_def close_socket_def transmit_def access_log_def
  router_release_def router_select_def

section \<open>Answers of the operating system\<close>

text \<open>
  A \<open>recv\<close> returns data (empty when the peer has closed), would block or is interrupted, or fails
  with another \<open>OSError\<close>; the same for \<open>send\<close>, which returns how much it took. \<open>sendall\<close> sends
  everything or fails part of the way. Creating a socket can raise, \<open>connect_ex\<close> returns an errno or
  raises (a host that does not resolve), and so can \<open>getsockopt\<close> (\<open>None\<close>). One call of a handler may
  connect several times: the answers are indexed by the attempt's number.
\<close>

datatype recv_result = Received bytes | Recv_blocked | Recv_failed

datatype send_result = Sent nat | Send_blocked | Send_failed

datatype connect_result = Socket_raises | Connect_raises | Connect_errno int

record io =
  io_recv :: recv_result
  io_send :: send_result
  io_sendall :: "nat option"
  io_connect :: "int \<Rightarrow> connect_result"
  io_sockopt :: "int option"

text \<open>What \<open>recv(limit)\<close> returns when \<open>data\<close> has arrived.\<close>

definition recv_data :: "int \<Rightarrow> bytes \<Rightarrow> bytes" where
  "recv_data limit data = take (nat limit) data"

lemma recv_data_code [code]:
  "recv_data limit [] = []"
  "recv_data limit (x # xs) = (if limit \<le> 0 then [] else x # recv_data (limit - 1) xs)"
  by (auto simp: recv_data_def take_Cons nat_diff_distrib split: nat.split)

definition EINPROGRESS :: int where "EINPROGRESS = 115"

definition EWOULDBLOCK :: int where "EWOULDBLOCK = 11"

definition EAGAIN :: int where "EAGAIN = 11"

end
