(* ===== verification/Connection.thy ===== *)
theory Connection
  imports World HttpResponse
begin

text \<open>
  \<open>connection.py\<close>: the object of one proxied request and its handlers. A handler takes the answers
  of the operating system, the connection and the world, and returns both updated; an exception
  that leaves it is \<open>Raised\<close> with what had been changed by then; using the backend socket when it is
  \<open>None\<close> raises as well. \<open>handle_backend_readable\<close> scans a
  chunked body and that scan may not return: its result is an option, \<open>None\<close> when it never does.
\<close>

section \<open>States\<close>

datatype conn_state =
  READING_REQUEST | CONNECTING_TO_BACKEND | FORWARDING_REQUEST
| READING_RESPONSE | FORWARDING_RESPONSE | DONE

text \<open>The values \<open>auto()\<close> gives the members, in the order of declaration; states compare by them.\<close>

primrec state_value :: "conn_state \<Rightarrow> int" where
  "state_value READING_REQUEST = 1"
| "state_value CONNECTING_TO_BACKEND = 2"
| "state_value FORWARDING_REQUEST = 3"
| "state_value READING_RESPONSE = 4"
| "state_value FORWARDING_RESPONSE = 5"
| "state_value DONE = 6"

lemma state_value_inject: "state_value s = state_value t \<longleftrightarrow> s = t"
  by (cases s; cases t) simp_all

instantiation conn_state :: linorder
begin

definition less_eq_conn_state :: "conn_state \<Rightarrow> conn_state \<Rightarrow> bool" where
  "less_eq_conn_state s t \<longleftrightarrow> state_value s \<le> state_value t"

definition less_conn_state :: "conn_state \<Rightarrow> conn_state \<Rightarrow> bool" where
  "less_conn_state s t \<longleftrightarrow> state_value s < state_value t"

instance
  by standard (auto simp: less_eq_conn_state_def less_conn_state_def state_value_inject)

end

lemmas state_order = less_eq_conn_state_def less_conn_state_def

section \<open>The connection object\<close>

record proxy_connection =
  client_sock :: sock
  client_addr :: "string \<times> int"
  backend_sock :: "sock option"
  backend_addr :: "backend option"
  state :: conn_state
  request_buf :: bytes
  parsed_request :: "http_request option"
  forward_buf :: bytes
  forward_offset :: nat
  response_buf :: bytes
  relay_buf :: bytes
  relay_offset :: nat
  start_time :: real
  response_status :: "int option"
  response_headers_done :: bool
  response_content_length :: int
  response_body_received :: int
  response_is_chunked :: bool
  tried_backends :: "backend set"
  backend_attempts :: int
  client_bytes_sent :: bool
  disconnect_notified :: bool
  pending_backend_unregister :: "sock option"
  deadline :: real
  deadline_gen :: int

type_synonym session = "proxy_connection \<times> world"

definition set_state :: "conn_state \<Rightarrow> session \<Rightarrow> session" where
  "set_state st s = (fst s\<lparr>state := st\<rparr>, snd s)"

section \<open>Deadlines\<close>

definition timeout_for_state :: "proxy_connection \<Rightarrow> real option" where
  "timeout_for_state c =
     (if state c = READING_REQUEST then Some CLIENT_IDLE_TIMEOUT
      else if state c = CONNECTING_TO_BACKEND then Some CONNECT_TIMEOUT
      else if state c \<in> {FORWARDING_REQUEST, READING_RESPONSE} then Some BACKEND_TIMEOUT
      else if state c = FORWARDING_RESPONSE then Some CLIENT_SEND_TIMEOUT
      else None)"

fun refresh_deadline :: "session \<Rightarrow> session" where
  "refresh_deadline (c, w) =
     (case timeout_for_state c of
        None \<Rightarrow> (c, w)
      | Some timeout \<Rightarrow>
          let (now, w) = monotonic w
          in (c\<lparr>deadline_gen := deadline_gen c + 1, deadline := now + timeout\<rparr>, w))"

fun timed_out :: "session \<Rightarrow> bool \<times> session" where
  "timed_out (c, w) =
     (if state c = DONE then (False, c, w)
      else let (now, w) = monotonic w in (deadline c \<le> now, c, w))"

definition new_connection :: "sock \<Rightarrow> string \<times> int \<Rightarrow> world \<Rightarrow> session" where
  "new_connection client addr w =
     (let (now, w) = monotonic w
      in refresh_deadline
        (\<lparr>client_sock = client, client_addr = addr, backend_sock = None, backend_addr = None,
          state = READING_REQUEST, request_buf = [], parsed_request = None,
          forward_buf = [], forward_offset = 0, response_buf = [], relay_buf = [], relay_offset = 0,
          start_time = now, response_status = None, response_headers_done = False,
          response_content_length = - 1, response_body_received = 0, response_is_chunked = False,
          tried_backends = {}, backend_attempts = 0, client_bytes_sent = False,
          disconnect_notified = False, pending_backend_unregister = None,
          deadline = 0, deadline_gen = 0\<rparr>, w))"

section \<open>Ending a connection\<close>

text \<open>\<open>if self.backend_addr and not self._disconnect_notified: ...\<close>, in three handlers.\<close>

fun notify_disconnect :: "session \<Rightarrow> session" where
  "notify_disconnect (c, w) =
     (case backend_addr c of
        Some b \<Rightarrow> if disconnect_notified c then (c, w)
                  else (c\<lparr>disconnect_notified := True\<rparr>, router_release b w)
      | None \<Rightarrow> (c, w))"

definition log_record :: "proxy_connection \<Rightarrow> http_request \<Rightarrow> backend \<Rightarrow> real \<Rightarrow> access_record" where
  "log_record c req b latency =
     \<lparr>log_client_ip = fst (client_addr c), log_client_port = snd (client_addr c),
      log_backend_ip = fst b, log_backend_port = snd b,
      log_method = req_method req, log_path = req_path req, log_version = req_version req,
      log_status = (case response_status c of None \<Rightarrow> 0 | Some code \<Rightarrow> code),
      log_latency_ms = latency\<rparr>"

text \<open>\<open>_finish\<close>: the access log line, the slot, the state.\<close>

fun log_request :: "session \<Rightarrow> session" where
  "log_request (c, w) =
     (let (now, w) = monotonic w;
          latency = (now - start_time c) * 1000
      in (c, case (parsed_request c, backend_addr c) of
               (Some req, Some b) \<Rightarrow> access_log (log_record c req b latency) w
             | _ \<Rightarrow> w))"

definition finish :: "session \<Rightarrow> session" where
  "finish s = set_state DONE (notify_disconnect (log_request s))"

definition error_page :: "int \<Rightarrow> string \<Rightarrow> bytes" where
  "error_page code reason =
     (let body = ''<h1>'' @ show_int code @ '' '' @ reason @ ''</h1>''
      in ''HTTP/1.1 '' @ show_int code @ '' '' @ reason @ LINE_DELIM @
         ''Content-Length: '' @ show_int (int (length body)) @ LINE_DELIM @
         ''Content-Type: text/html'' @ LINE_DELIM @
         ''Connection: close'' @ LINE_DELIM @
         LINE_DELIM @
         body)"

fun send_page :: "io \<Rightarrow> bytes \<Rightarrow> session \<Rightarrow> session" where
  "send_page io response (c, w) =
     (case io_sendall io of
        None \<Rightarrow> (c\<lparr>client_bytes_sent := True\<rparr>, transmit (client_sock c) response w)
      | Some n \<Rightarrow> (c, transmit (client_sock c) (take n response) w))"

definition send_error :: "io \<Rightarrow> int \<Rightarrow> string \<Rightarrow> session \<Rightarrow> session" where
  "send_error io code reason s =
     finish (apfst (response_status_update (\<lambda>_. Some code))
       (send_page io (error_page code reason) s))"

definition handle_timeout :: "io \<Rightarrow> session \<Rightarrow> session" where
  "handle_timeout io s =
     (if state (fst s) = DONE then s
      else if state (fst s) = READING_REQUEST then send_error io 408 ''Request Timeout'' s
      else if client_bytes_sent (fst s) then set_state DONE (notify_disconnect s)
      else send_error io 504 ''Gateway Timeout'' s)"

section \<open>Connecting, failing, retrying\<close>

definition can_retry :: "proxy_connection \<Rightarrow> bool" where
  "can_retry c =
     (if client_bytes_sent c then False
      else case parsed_request c of
             None \<Rightarrow> False
           | Some req \<Rightarrow>
               if py_upper (req_method req) \<notin> code_points ` IDEMPOTENT_METHODS then False
               else backend_attempts c \<le> MAX_BACKEND_RETRIES)"

text \<open>\<open>_fail_backend\<close> up to the decision: the slot is given back, the socket closed, the backend tried.\<close>

fun close_backend :: "session \<Rightarrow> session" where
  "close_backend (c, w) =
     (case backend_sock c of
        None \<Rightarrow> (c, w)
      | Some old_sock \<Rightarrow>
          (c\<lparr>pending_backend_unregister := Some old_sock, backend_sock := None\<rparr>,
           close_socket old_sock w))"

definition note_tried :: "proxy_connection \<Rightarrow> proxy_connection" where
  "note_tried c =
     (case backend_addr c of
        None \<Rightarrow> c
      | Some failed \<Rightarrow> c\<lparr>tried_backends := insert failed (tried_backends c)\<rparr>)"

definition drop_backend :: "session \<Rightarrow> session" where
  "drop_backend s = apfst note_tried (close_backend (notify_disconnect s))"

definition retry_reset :: "backend \<Rightarrow> proxy_connection \<Rightarrow> proxy_connection" where
  "retry_reset b c =
     c\<lparr>backend_addr := Some b, backend_attempts := backend_attempts c + 1,
       disconnect_notified := False, forward_offset := 0, response_buf := [],
       response_status := None, response_headers_done := False, response_content_length := - 1,
       response_body_received := 0, response_is_chunked := False\<rparr>"

text \<open>\<open>_initiate_backend_connect\<close> up to the call of \<open>connect_ex\<close>.\<close>

fun open_backend :: "session \<Rightarrow> session" where
  "open_backend (c, w) = (let (s, w) = new_socket w in (c\<lparr>backend_sock := Some s\<rparr>, w))"

text \<open>What the helpers leave alone.\<close>

lemma set_state_simps [simp]:
  "fst (set_state st s) = fst s\<lparr>state := st\<rparr>" "snd (set_state st s) = snd s"
  by (simp_all add: set_state_def)

lemma notify_attempts [simp]:
  "backend_attempts (fst (notify_disconnect s)) = backend_attempts (fst s)"
  by (cases s) (simp split: option.splits)

lemma drop_backend_attempts [simp]:
  "backend_attempts (fst (drop_backend s)) = backend_attempts (fst s)"
  by (cases "notify_disconnect s"; cases s)
    (auto simp: drop_backend_def note_tried_def split: option.splits if_splits)

lemma refresh_attempts [simp]:
  "backend_attempts (fst (refresh_deadline s)) = backend_attempts (fst s)"
  by (cases s) (auto simp: monotonic_def split: option.splits)

lemma open_backend_attempts [simp]:
  "backend_attempts (fst (open_backend s)) = backend_attempts (fst s)"
  by (cases s) (auto simp: new_socket_def)

lemma retry_reset_attempts [simp]: "backend_attempts (retry_reset b c) = backend_attempts c + 1"
  by (simp add: retry_reset_def)

lemma can_retry_attempts: "can_retry c \<Longrightarrow> backend_attempts c \<le> MAX_BACKEND_RETRIES"
  by (auto simp: can_retry_def split: if_splits option.splits)

function (sequential) initiate_backend_connect :: "io \<Rightarrow> session \<Rightarrow> session outcome"
  and fail_backend :: "io \<Rightarrow> session \<Rightarrow> session outcome" where
  "initiate_backend_connect io s =
     (let s = refresh_deadline (set_state CONNECTING_TO_BACKEND s)
      in case io_connect io (backend_attempts (fst s)) of
           Socket_raises \<Rightarrow> Raised s
         | Connect_raises \<Rightarrow> Raised (open_backend s)
         | Connect_errno err \<Rightarrow>
             let s = open_backend s
             in if err = 0
                then Returned (refresh_deadline (set_state FORWARDING_REQUEST s))
                else if err \<in> {EINPROGRESS, EWOULDBLOCK, EAGAIN, 115} then Returned s
                else fail_backend io s)"
| "fail_backend io s =
     (let s = drop_backend s
      in if can_retry (fst s)
         then case router_select (Some (tried_backends (fst s))) (snd s) of
                (Some b, w) \<Rightarrow> initiate_backend_connect io (retry_reset b (fst s), w)
              | (None, w) \<Rightarrow> Returned (send_error io 502 ''Bad Gateway'' (fst s, w))
         else Returned (send_error io 502 ''Bad Gateway'' s))"
  by pat_completeness auto
termination
  by (relation "measure (\<lambda>x. case x of
        Inl (io, s) \<Rightarrow> Suc (2 * nat (MAX_BACKEND_RETRIES + 2 - backend_attempts (fst s)))
      | Inr (io, s) \<Rightarrow> 2 * nat (MAX_BACKEND_RETRIES + 2 - backend_attempts (fst s)))")
    (auto dest: can_retry_attempts simp del: refresh_deadline.simps open_backend.simps)

section \<open>Readiness handlers\<close>

text \<open>The part of \<open>handle_client_readable\<close> after the request has been parsed.\<close>

fun forward_request :: "io \<Rightarrow> http_request \<Rightarrow> session \<Rightarrow> session outcome" where
  "forward_request io req (c, w) =
     (let req = inject_forwarded_for req (fst (client_addr c));
          c = c\<lparr>parsed_request := Some req, forward_buf := serialise_request req, forward_offset := 0\<rparr>
      in case router_select None w of
           (None, w) \<Rightarrow> Returned (send_error io 503 ''Service Unavailable'' (c, w))
         | (Some b, w) \<Rightarrow>
             initiate_backend_connect io
               (c\<lparr>backend_addr := Some b, backend_attempts := 1, disconnect_notified := False\<rparr>, w))"

fun handle_client_readable :: "io \<Rightarrow> session \<Rightarrow> session outcome" where
  "handle_client_readable io (c, w) =
     (if state c \<noteq> READING_REQUEST then Returned (c, w)
      else case io_recv io of
             Recv_blocked \<Rightarrow> Returned (c, w)
           | Recv_failed \<Rightarrow> Returned (c\<lparr>state := DONE\<rparr>, w)
           | Received data \<Rightarrow>
               let data = recv_data CLIENT_RECV_SIZE data
               in if data = [] then Returned (c\<lparr>state := DONE\<rparr>, w)
                  else
                    let (c, w) = refresh_deadline (c\<lparr>request_buf := request_buf c @ data\<rparr>, w)
                    in if int (length (request_buf c)) > MAX_REQUEST_SIZE
                       then Returned (send_error io 413 ''Request Entity Too Large'' (c, w))
                       else case try_parse_request (request_buf c) of
                              None \<Rightarrow> Returned (c, w)
                            | Some req \<Rightarrow> forward_request io req (c, w))"

text \<open>
  The part of \<open>handle_backend_writable\<close> that sends: the kernel takes a prefix of what is left, and
  the offset moves past it.
\<close>

definition send_forward :: "sock \<Rightarrow> nat \<Rightarrow> session \<Rightarrow> session" where
  "send_forward b n s =
     (let data = drop (forward_offset (fst s)) (forward_buf (fst s));
          sent = min n (length data);
          s = (fst s, transmit b (take sent data) (snd s));
          s = (if sent \<noteq> 0 then refresh_deadline s else s)
      in (fst s\<lparr>forward_offset := forward_offset (fst s) + sent\<rparr>, snd s))"

definition forward_some :: "io \<Rightarrow> session \<Rightarrow> session outcome" where
  "forward_some io s =
     (case (backend_sock (fst s), io_send io) of
        (None, _) \<Rightarrow> Raised s
      | (Some b, Send_blocked) \<Rightarrow> Returned s
      | (Some b, Send_failed) \<Rightarrow> fail_backend io s
      | (Some b, Sent n) \<Rightarrow>
          let s = send_forward b n s
          in if forward_offset (fst s) \<ge> length (forward_buf (fst s))
             then Returned (refresh_deadline (set_state READING_RESPONSE s))
             else Returned s)"

fun handle_backend_writable :: "io \<Rightarrow> session \<Rightarrow> session outcome" where
  "handle_backend_writable io (c, w) =
     (if state c = CONNECTING_TO_BACKEND
      then case (backend_sock c, io_sockopt io) of
             (None, _) \<Rightarrow> Raised (c, w)
           | (Some s, None) \<Rightarrow> Raised (c, w)
           | (Some s, Some err) \<Rightarrow>
               if err \<noteq> 0 then fail_backend io (c, w)
               else forward_some io (refresh_deadline (c\<lparr>state := FORWARDING_REQUEST\<rparr>, w))
      else if state c \<noteq> FORWARDING_REQUEST then Returned (c, w)
      else forward_some io (c, w))"

fun prepare_relay :: "session \<Rightarrow> session" where
  "prepare_relay (c, w) =
     refresh_deadline
       (c\<lparr>relay_buf := response_buf c, relay_offset := 0, state := FORWARDING_RESPONSE\<rparr>, w)"

text \<open>What \<open>handle_backend_readable\<close> does when the backend has closed.\<close>

fun backend_closed :: "io \<Rightarrow> session \<Rightarrow> session outcome option" where
  "backend_closed io (c, w) =
     (if response_is_chunked c \<and> response_headers_done c
      then let hdr_end = py_find (response_buf c) HEADER_DELIM;
               body = (if hdr_end \<noteq> - 1
                       then py_slice_from (response_buf c) (hdr_end + int (length HEADER_DELIM))
                       else [])
           in case try_consume_chunked_body body of
                None \<Rightarrow> None
              | Some None \<Rightarrow> Some (fail_backend io (c, w))
              | Some (Some _) \<Rightarrow> Some (Returned (prepare_relay (c, w)))
      else Some (Returned (prepare_relay (c, w))))"

text \<open>The status, from the first line, once.\<close>

definition note_status :: "proxy_connection \<Rightarrow> proxy_connection" where
  "note_status c =
     (if response_status c = None
      then case fst (parse_response_status (response_buf c)) of
             None \<Rightarrow> c
           | Some code \<Rightarrow> c\<lparr>response_status := Some code\<rparr>
      else c)"

text \<open>The framing, from the header section, once.\<close>

definition note_headers :: "proxy_connection \<Rightarrow> proxy_connection" where
  "note_headers c =
     (if response_headers_done c then c
      else let hdr_end = py_find (response_buf c) HEADER_DELIM
           in if hdr_end = - 1 then c
              else let header_len = hdr_end + int (length HEADER_DELIM);
                       chunked = (is_chunked_response (response_buf c) = Some True)
                   in c\<lparr>response_headers_done := True, response_is_chunked := chunked,
                        response_content_length :=
                          (if chunked then - 1 else get_response_content_length (response_buf c)),
                        response_body_received := int (length (response_buf c)) - header_len\<rparr>)"

text \<open>The test for a complete response.\<close>

fun check_complete :: "session \<Rightarrow> session option" where
  "check_complete (c, w) =
     (if \<not> response_headers_done c then Some (c, w)
      else let header_len = py_find (response_buf c) HEADER_DELIM + int (length HEADER_DELIM);
               body = py_slice_from (response_buf c) header_len
           in if response_is_chunked c
              then case try_consume_chunked_body body of
                     None \<Rightarrow> None
                   | Some None \<Rightarrow> Some (c, w)
                   | Some (Some framed) \<Rightarrow>
                       Some (prepare_relay
                         (c\<lparr>response_buf := py_slice (response_buf c) 0 (header_len + framed)\<rparr>, w))
              else let c = c\<lparr>response_body_received := int (length body)\<rparr>
                   in if response_content_length c \<ge> 0 \<and>
                         response_body_received c \<ge> response_content_length c
                      then Some (prepare_relay (c, w)) else Some (c, w))"

fun handle_backend_readable :: "io \<Rightarrow> session \<Rightarrow> session outcome option" where
  "handle_backend_readable io (c, w) =
     (if state c \<noteq> READING_RESPONSE then Some (Returned (c, w))
      else case (backend_sock c, io_recv io) of
             (None, _) \<Rightarrow> Some (Raised (c, w))
           | (Some s, Recv_blocked) \<Rightarrow> Some (Returned (c, w))
           | (Some s, Recv_failed) \<Rightarrow> Some (fail_backend io (c, w))
           | (Some s, Received data) \<Rightarrow>
               let data = recv_data BACKEND_RECV_SIZE data
               in if data = [] then backend_closed io (c, w)
                  else let (c, w) = refresh_deadline (c\<lparr>response_buf := response_buf c @ data\<rparr>, w)
                       in map_option Returned (check_complete (note_headers (note_status c), w)))"

definition send_relay :: "nat \<Rightarrow> session \<Rightarrow> session" where
  "send_relay n s =
     (let data = drop (relay_offset (fst s)) (relay_buf (fst s));
          sent = min n (length data);
          s = (fst s, transmit (client_sock (fst s)) (take sent data) (snd s));
          s = (if sent \<noteq> 0 then refresh_deadline (fst s\<lparr>client_bytes_sent := True\<rparr>, snd s) else s)
      in (fst s\<lparr>relay_offset := relay_offset (fst s) + sent\<rparr>, snd s))"

definition handle_client_writable :: "io \<Rightarrow> session \<Rightarrow> session outcome" where
  "handle_client_writable io s =
     (if state (fst s) \<noteq> FORWARDING_RESPONSE then Returned s
      else case io_send io of
             Send_blocked \<Rightarrow> Returned s
           | Send_failed \<Rightarrow> Returned (set_state DONE s)
           | Sent n \<Rightarrow>
               let s = send_relay n s
               in if relay_offset (fst s) \<ge> length (relay_buf (fst s)) then Returned (finish s)
                  else Returned s)"

section \<open>Cleanup\<close>

fun cleanup :: "session \<Rightarrow> session" where
  "cleanup (c, w) =
     (let w = close_socket (client_sock c) w;
          w = (case backend_sock c of None \<Rightarrow> w | Some s \<Rightarrow> close_socket s w);
          w = (case pending_backend_unregister c of None \<Rightarrow> w | Some s \<Rightarrow> close_socket s w)
      in (c, w))"

section \<open>Events\<close>

text \<open>The calls the reactor makes on a connection that has been registered.\<close>

datatype event =
  Client_readable | Client_writable | Backend_readable | Backend_writable | Expired

fun handle :: "event \<Rightarrow> io \<Rightarrow> session \<Rightarrow> session outcome option" where
  "handle Client_readable io s = Some (handle_client_readable io s)"
| "handle Client_writable io s = Some (handle_client_writable io s)"
| "handle Backend_readable io s = handle_backend_readable io s"
| "handle Backend_writable io s = Some (handle_backend_writable io s)"
| "handle Expired io s = Some (Returned (handle_timeout io s))"

end
