(* ===== verification/ConnectionInv.thy ===== *)
theory ConnectionInv
  imports Connection
begin

text \<open>
  The invariant of a connection and that every handler keeps it: which fields are set in which
  state, that the bytes on the wire of the current backend are the part of the request that was
  counted as sent, that a tried backend is not chosen again, and how many attempts there can be.
\<close>

section \<open>Frame\<close>

text \<open>Reading the clock and setting a deadline change nothing that an invariant here mentions.\<close>

definition deadline_insensitive :: "(session \<Rightarrow> 'a) \<Rightarrow> bool" where
  "deadline_insensitive P \<longleftrightarrow>
     (\<forall>c w g d n. P (c\<lparr>deadline_gen := g, deadline := d\<rparr>, w\<lparr>w_reads := n\<rparr>) = P (c, w))"

lemma refresh_insensitive: "deadline_insensitive P \<Longrightarrow> P (refresh_deadline s) = P s"
  by (cases s) (auto simp: deadline_insensitive_def monotonic_def split: option.splits)

lemma refresh_fields [simp]:
  "state (fst (refresh_deadline s)) = state (fst s)"
  "client_sock (fst (refresh_deadline s)) = client_sock (fst s)"
  "backend_sock (fst (refresh_deadline s)) = backend_sock (fst s)"
  "backend_addr (fst (refresh_deadline s)) = backend_addr (fst s)"
  "client_bytes_sent (fst (refresh_deadline s)) = client_bytes_sent (fst s)"
  "disconnect_notified (fst (refresh_deadline s)) = disconnect_notified (fst s)"
  "parsed_request (fst (refresh_deadline s)) = parsed_request (fst s)"
  "tried_backends (fst (refresh_deadline s)) = tried_backends (fst s)"
  "request_buf (fst (refresh_deadline s)) = request_buf (fst s)"
  "forward_buf (fst (refresh_deadline s)) = forward_buf (fst s)"
  "forward_offset (fst (refresh_deadline s)) = forward_offset (fst s)"
  "response_buf (fst (refresh_deadline s)) = response_buf (fst s)"
  "relay_buf (fst (refresh_deadline s)) = relay_buf (fst s)"
  "relay_offset (fst (refresh_deadline s)) = relay_offset (fst s)"
  "w_router (snd (refresh_deadline s)) = w_router (snd s)"
  "w_next_sock (snd (refresh_deadline s)) = w_next_sock (snd s)"
  "w_wire (snd (refresh_deadline s)) = w_wire (snd s)"
  "w_log (snd (refresh_deadline s)) = w_log (snd s)"
  "w_closed (snd (refresh_deadline s)) = w_closed (snd s)"
  by (cases s; simp add: monotonic_def split: option.splits)+

section \<open>Slots of the router\<close>

text \<open>
  A connection holds the slot of its backend until it has notified the router. What the router
  counts for the other connections is the rest.
\<close>

definition held :: "proxy_connection \<Rightarrow> backend \<Rightarrow> int" where
  "held c b = (if backend_addr c = Some b \<and> \<not> disconnect_notified c then 1 else 0)"

fun is_lc :: "router \<Rightarrow> bool" where
  "is_lc (LC _) = True"
| "is_lc (RR _) = False"

definition slots_ok :: "(backend \<Rightarrow> int) \<Rightarrow> session \<Rightarrow> bool" where
  "slots_ok f s \<longleftrightarrow> router_ok (w_router (snd s)) \<and> is_lc (w_router (snd s)) \<and>
     (\<forall>b. router_load (w_router (snd s)) b = f b + held (fst s) b \<and> 0 \<le> f b)"

lemma slots_okI:
  "router_ok (w_router w) \<Longrightarrow> is_lc (w_router w) \<Longrightarrow>
    (\<And>b. router_load (w_router w) b = f b + held c b) \<Longrightarrow> (\<And>b. 0 \<le> f b) \<Longrightarrow> slots_ok f (c, w)"
  by (simp add: slots_ok_def)

lemma slots_okD:
  assumes "slots_ok f (c, w)"
  shows "router_ok (w_router w)" "is_lc (w_router w)" "router_load (w_router w) b = f b + held c b"
    "0 \<le> f b"
  using assms by (simp_all add: slots_ok_def del: split_paired_All)

lemma slots_same:
  "slots_ok f s \<Longrightarrow> backend_addr (fst s') = backend_addr (fst s) \<Longrightarrow>
    disconnect_notified (fst s') = disconnect_notified (fst s) \<Longrightarrow>
    w_router (snd s') = w_router (snd s) \<Longrightarrow> slots_ok f s'"
  by (simp add: slots_ok_def held_def del: split_paired_All)

lemma slots_refresh: "slots_ok f s \<Longrightarrow> slots_ok f (refresh_deadline s)"
  by (erule slots_same) simp_all

lemma is_lc_ops [simp]:
  "is_lc (on_disconnect r b) = is_lc r" "is_lc (snd (next_backend r ex)) = is_lc r"
  by (cases r; simp)+

lemma is_lc_iff: "is_lc r \<longleftrightarrow> (\<exists>l. r = LC l)"
  by (cases r) auto

lemma slots_notify:
  assumes "slots_ok f (c, w)"
  shows "slots_ok f (notify_disconnect (c, w))"
proof (cases "\<exists>b. backend_addr c = Some b \<and> \<not> disconnect_notified c")
  case False
  with assms show ?thesis by (auto split: option.splits)
next
  case True
  then obtain b where b: "backend_addr c = Some b" "\<not> disconnect_notified c" by blast
  have load: "router_load (w_router w) x = f x + (if x = b then 1 else 0)" for x
    using slots_okD(3) [OF assms, of x] b by (auto simp: held_def)
  have "slots_ok f (c\<lparr>disconnect_notified := True\<rparr>, router_release b w)"
    using slots_okD [OF assms] b
    by (intro slots_okI) (simp_all add: router_release_def router.release_ok load_on_disconnect load
        held_def del: split_paired_All)
  with b show ?thesis by simp
qed

lemma close_fields [simp]:
  "backend_addr (fst (close_backend s)) = backend_addr (fst s)"
  "disconnect_notified (fst (close_backend s)) = disconnect_notified (fst s)"
  "w_router (snd (close_backend s)) = w_router (snd s)"
  by (cases s; simp add: close_socket_def split: option.splits)+

lemma tried_fields [simp]:
  "backend_addr (note_tried c) = backend_addr c"
  "disconnect_notified (note_tried c) = disconnect_notified c"
  by (simp_all add: note_tried_def split: option.splits)

lemma notify_addr [simp]: "backend_addr (fst (notify_disconnect s)) = backend_addr (fst s)"
  by (cases s) (simp split: option.splits)

lemma slots_drop:
  assumes "slots_ok f s"
  shows "slots_ok f (drop_backend s)"
proof -
  from assms have "slots_ok f (notify_disconnect s)" by (cases s) (simp only: slots_notify)
  then show ?thesis by (rule slots_same) (simp_all add: drop_backend_def)
qed

lemma drop_notified: "backend_addr (fst s) \<noteq> None \<Longrightarrow> disconnect_notified (fst (drop_backend s))"
  by (cases s) (auto simp: drop_backend_def split: option.splits)

lemma drop_addr [simp]: "backend_addr (fst (drop_backend s)) = backend_addr (fst s)"
  by (simp add: drop_backend_def)

lemma router_selectE:
  assumes "router_select ex w = (b, w')"
  obtains r' where "next_backend (w_router w) ex = (b, r')" "w' = w\<lparr>w_router := r'\<rparr>"
  using assms by (auto simp: router_select_def split: prod.splits)

lemma slots_select_None:
  assumes "slots_ok f (c, w)" and "router_select ex w = (None, w')"
  shows "slots_ok f (c, w')"
proof -
  obtain r' where r: "next_backend (w_router w) ex = (None, r')" "w' = w\<lparr>w_router := r'\<rparr>"
    by (rule router_selectE [OF assms(2)])
  show ?thesis
    using slots_okD [OF assms(1)] load_next_None [OF _ r(1)] router.select_ok [of "w_router w" ex]
      is_lc_ops(2) [of "w_router w" ex]
    by (intro slots_okI) (simp_all add: r del: split_paired_All)
qed

lemma slots_select_Some:
  assumes "slots_ok f (c, w)" and "router_select ex w = (Some b, w')"
    and "backend_addr c = None \<or> disconnect_notified c"
    and "backend_addr c' = Some b" "\<not> disconnect_notified c'"
  shows "slots_ok f (c', w')"
proof -
  obtain r' where r: "next_backend (w_router w) ex = (Some b, r')" "w' = w\<lparr>w_router := r'\<rparr>"
    by (rule router_selectE [OF assms(2)])
  have "held c x = 0" "held c' x = (if x = b then 1 else 0)" for x
    using assms(3-5) by (auto simp: held_def)
  with slots_okD [OF assms(1)] load_next_Some [OF _ r(1)] router.select_ok [of "w_router w" ex]
    is_lc_ops(2) [of "w_router w" ex] is_lc_iff [of "w_router w"]
  show ?thesis by (intro slots_okI) (simp_all add: r del: split_paired_All)
qed

lemma log_request_fields [simp]:
  "fst (log_request s) = fst s" "w_router (snd (log_request s)) = w_router (snd s)"
  by (cases s; simp add: monotonic_def access_log_def split: option.splits)+

lemma send_page_fields [simp]:
  "backend_addr (fst (send_page io page s)) = backend_addr (fst s)"
  "disconnect_notified (fst (send_page io page s)) = disconnect_notified (fst s)"
  "w_router (snd (send_page io page s)) = w_router (snd s)"
  by (cases s; simp add: transmit_def split: option.splits)+

lemma slots_finish:
  assumes "slots_ok f s"
  shows "slots_ok f (finish s)"
proof -
  have "slots_ok f (log_request s)" using assms by (rule slots_same) simp_all
  then have "slots_ok f (notify_disconnect (log_request s))"
    by (cases "log_request s") (simp only: slots_notify)
  then show ?thesis by (rule slots_same) (simp_all add: finish_def)
qed

lemma slots_send_error: "slots_ok f s \<Longrightarrow> slots_ok f (send_error io code reason s)"
  unfolding send_error_def by (rule slots_finish, erule slots_same) simp_all

section \<open>The chain of attempts\<close>

text \<open>
  \<open>_initiate_backend_connect\<close> and \<open>_fail_backend\<close> call each other. The contract below is what a
  predicate has to satisfy at the steps of one attempt; the induction over the attempts is done
  once, and each invariant of a connection is an interpretation.
\<close>

definition begun :: "session \<Rightarrow> session" where
  "begun s = refresh_deadline (set_state CONNECTING_TO_BACKEND s)"

definition connected_at_once :: "session \<Rightarrow> session" where
  "connected_at_once s = refresh_deadline (set_state FORWARDING_REQUEST (open_backend (begun s)))"

fun outcome_ok :: "(session \<Rightarrow> bool) \<Rightarrow> (session \<Rightarrow> bool) \<Rightarrow> session outcome \<Rightarrow> bool" where
  "outcome_ok good bad (Returned s) = good s"
| "outcome_ok good bad (Raised s) = bad s"

locale connect_contract =
  fixes ready failing good bad :: "session \<Rightarrow> bool"
  assumes no_socket: "ready s \<Longrightarrow> bad (begun s)"
    and no_address: "ready s \<Longrightarrow> bad (open_backend (begun s))"
    and immediate: "ready s \<Longrightarrow> good (connected_at_once s)"
    and in_progress: "ready s \<Longrightarrow> good (open_backend (begun s))"
    and refused: "ready s \<Longrightarrow> failing (open_backend (begun s))"
    and retried: "failing s \<Longrightarrow> can_retry (fst (drop_backend s)) \<Longrightarrow>
      router_select (Some (tried_backends (fst (drop_backend s)))) (snd (drop_backend s)) = (Some b, w) \<Longrightarrow>
      ready (retry_reset b (fst (drop_backend s)), w)"
    and exhausted: "failing s \<Longrightarrow>
      router_select (Some (tried_backends (fst (drop_backend s)))) (snd (drop_backend s)) = (None, w) \<Longrightarrow>
      good (send_error io 502 ''Bad Gateway'' (fst (drop_backend s), w))"
    and refused_retry: "failing s \<Longrightarrow> \<not> can_retry (fst (drop_backend s)) \<Longrightarrow>
      good (send_error io 502 ''Bad Gateway'' (drop_backend s))"
begin

lemma chain:
  "ready s \<Longrightarrow> outcome_ok good bad (initiate_backend_connect io s)"
  "failing s \<Longrightarrow> outcome_ok good bad (fail_backend io s)"
proof (induction io s and io s rule: initiate_backend_connect_fail_backend.induct)
  case (1 io s)
  show ?case
  proof (cases "io_connect io (backend_attempts (fst (begun s)))")
    case Socket_raises
    with no_socket [OF 1(2)] show ?thesis by (simp add: Let_def begun_def)
  next
    case Connect_raises
    with no_address [OF 1(2)] show ?thesis by (simp add: Let_def begun_def)
  next
    case (Connect_errno err)
    have "\<lbrakk>err \<noteq> 0; err \<notin> {EINPROGRESS, EWOULDBLOCK, EAGAIN, 115}\<rbrakk> \<Longrightarrow>
        outcome_ok good bad (fail_backend io (open_backend (begun s)))"
      using 1 Connect_errno refused [OF 1(2)] by (simp add: begun_def)
    with Connect_errno immediate [OF 1(2)] in_progress [OF 1(2)] show ?thesis
      by (simp add: Let_def begun_def connected_at_once_def)
  qed
next
  case (2 io s)
  show ?case
  proof (cases "can_retry (fst (drop_backend s))")
    case False
    with refused_retry [OF 2(2)] show ?thesis by (simp add: Let_def)
  next
    case True
    obtain ob w where sel:
      "router_select (Some (tried_backends (fst (drop_backend s)))) (snd (drop_backend s)) = (ob, w)"
      by fastforce
    show ?thesis
    proof (cases ob)
      case None
      with True sel exhausted [OF 2(2)] show ?thesis by (simp add: Let_def)
    next
      case (Some b)
      with True sel retried [OF 2(2)] have "ready (retry_reset b (fst (drop_backend s)), w)" by simp
      with 2(1) [OF refl True] sel Some have
        "outcome_ok good bad (initiate_backend_connect io (retry_reset b (fst (drop_backend s)), w))"
        by simp
      with True sel Some show ?thesis by (simp add: Let_def)
    qed
  qed
qed

end

lemma open_fields [simp]:
  "backend_addr (fst (open_backend s)) = backend_addr (fst s)"
  "disconnect_notified (fst (open_backend s)) = disconnect_notified (fst s)"
  "w_router (snd (open_backend s)) = w_router (snd s)"
  by (cases s; simp add: new_socket_def)+

text \<open>The slots, for a router that charges the other connections with \<open>f\<close>.\<close>

interpretation slots: connect_contract
  "\<lambda>s. slots_ok f s \<and> backend_addr (fst s) \<noteq> None" "\<lambda>s. slots_ok f s \<and> backend_addr (fst s) \<noteq> None"
  "slots_ok f" "slots_ok f" for f
proof unfold_locales
  fix s b w io
  assume s: "slots_ok f s \<and> backend_addr (fst s) \<noteq> None"
  then show opened: "slots_ok f (open_backend (begun s))" "slots_ok f (begun s)"
    by (auto elim!: slots_same simp: begun_def)
  then show "slots_ok f (connected_at_once s)" by (auto elim!: slots_same simp: connected_at_once_def)
  from opened s show "slots_ok f (open_backend (begun s)) \<and> backend_addr (fst (open_backend (begun s))) \<noteq> None"
    by (simp add: begun_def)
  have drop: "slots_ok f (fst (drop_backend s), snd (drop_backend s))" using s slots_drop by simp
  show "slots_ok f (send_error io 502 ''Bad Gateway'' (drop_backend s))"
    using s by (blast intro: slots_send_error slots_drop)
  let ?sel = "router_select (Some (tried_backends (fst (drop_backend s)))) (snd (drop_backend s))"
  show "slots_ok f (send_error io 502 ''Bad Gateway'' (fst (drop_backend s), w))" if "?sel = (None, w)"
    using slots_select_None [OF drop that] by (rule slots_send_error)
  show "slots_ok f (retry_reset b (fst (drop_backend s)), w) \<and>
      backend_addr (fst (retry_reset b (fst (drop_backend s)), w)) \<noteq> None" if "?sel = (Some b, w)"
    using slots_select_Some [OF drop that] drop_notified [of s] s by (simp add: retry_reset_def)
qed

end
