(* ===== verification/ConnectionPhases.thy ===== *)
theory ConnectionPhases
  imports ConnectionInv
begin

text \<open>
  What holds of a connection in each of its states, and that every handler keeps it: the wire of
  the current backend carries the part of the request counted as sent, the wire of the client
  carries a part of one answer, a tried backend is not chosen again, the attempts are bounded.
\<close>

declare initiate_backend_connect.simps [simp del] fail_backend.simps [simp del]
declare refresh_deadline.simps [simp del] forward_request.simps [simp del]

section \<open>The invariant\<close>

definition world_ok :: "world \<Rightarrow> bool" where
  "world_ok w \<longleftrightarrow> router_ok (w_router w) \<and> (\<forall>s \<ge> w_next_sock w. w_wire w s = [])"

definition client_known :: "session \<Rightarrow> bool" where
  "client_known s \<longleftrightarrow> world_ok (snd s) \<and> client_sock (fst s) < w_next_sock (snd s)"

definition client_wire :: "session \<Rightarrow> bytes" where
  "client_wire s = w_wire (snd s) (client_sock (fst s))"

definition idempotent :: "http_request \<Rightarrow> bool" where
  "idempotent req \<longleftrightarrow> py_upper (req_method req) \<in> code_points ` IDEMPOTENT_METHODS"

definition attempts_ok :: "proxy_connection \<Rightarrow> bool" where
  "attempts_ok c \<longleftrightarrow> finite (tried_backends c) \<and>
     backend_attempts c = int (card (tried_backends c)) + 1 \<and>
     backend_attempts c \<le> MAX_BACKEND_RETRIES + 1 \<and>
     (1 < backend_attempts c \<longrightarrow> (\<exists>req. parsed_request c = Some req \<and> idempotent req))"

text \<open>From the choice of a backend to the end of its answer.\<close>

definition engaged :: "session \<Rightarrow> bool" where
  "engaged s \<longleftrightarrow> client_known s \<and> client_wire s = [] \<and> \<not> client_bytes_sent (fst s) \<and>
     (\<exists>req. parsed_request (fst s) = Some req \<and> forward_buf (fst s) = serialise_request req) \<and>
     (\<exists>b. backend_addr (fst s) = Some b \<and> b \<notin> tried_backends (fst s)) \<and>
     \<not> disconnect_notified (fst s) \<and> attempts_ok (fst s)"

definition response_fresh :: "proxy_connection \<Rightarrow> bool" where
  "response_fresh c \<longleftrightarrow> response_buf c = [] \<and> response_status c = None \<and>
     \<not> response_headers_done c \<and> response_content_length c = - 1 \<and> \<not> response_is_chunked c"

text \<open>The backend socket, and what it has been sent.\<close>

definition linked :: "session \<Rightarrow> bool" where
  "linked s \<longleftrightarrow> (\<exists>b. backend_sock (fst s) = Some b \<and> b \<noteq> client_sock (fst s) \<and>
     b < w_next_sock (snd s) \<and>
     w_wire (snd s) b = take (forward_offset (fst s)) (forward_buf (fst s)))"

definition error_pages :: "bytes set" where
  "error_pages =
     {error_page 408 ''Request Timeout'', error_page 413 ''Request Entity Too Large'',
      error_page 502 ''Bad Gateway'', error_page 503 ''Service Unavailable'',
      error_page 504 ''Gateway Timeout''}"

text \<open>What the client has been sent: a part of the relayed response or a part of one error page.\<close>

definition answered :: "session \<Rightarrow> bool" where
  "answered s \<longleftrightarrow> client_known s \<and>
     (prefix (client_wire s) (relay_buf (fst s)) \<or> (\<exists>page \<in> error_pages. prefix (client_wire s) page))"

definition phase_ok :: "session \<Rightarrow> bool" where
  "phase_ok s \<longleftrightarrow>
     (case state (fst s) of
        READING_REQUEST \<Rightarrow> client_known s \<and> client_wire s = [] \<and> \<not> client_bytes_sent (fst s) \<and>
          backend_addr (fst s) = None \<and> backend_sock (fst s) = None \<and> tried_backends (fst s) = {} \<and>
          response_fresh (fst s)
      | CONNECTING_TO_BACKEND \<Rightarrow>
          engaged s \<and> linked s \<and> forward_offset (fst s) = 0 \<and> response_fresh (fst s)
      | FORWARDING_REQUEST \<Rightarrow>
          engaged s \<and> linked s \<and> forward_offset (fst s) < length (forward_buf (fst s)) \<and>
          response_fresh (fst s)
      | READING_RESPONSE \<Rightarrow>
          engaged s \<and> linked s \<and> forward_offset (fst s) = length (forward_buf (fst s))
      | FORWARDING_RESPONSE \<Rightarrow> client_known s \<and> backend_addr (fst s) \<noteq> None \<and>
          \<not> disconnect_notified (fst s) \<and> relay_buf (fst s) = response_buf (fst s) \<and>
          client_wire s = take (relay_offset (fst s)) (relay_buf (fst s)) \<and>
          relay_offset (fst s) \<le> length (relay_buf (fst s)) \<and>
          (client_bytes_sent (fst s) \<longleftrightarrow> 0 < relay_offset (fst s))
      | DONE \<Rightarrow> answered s)"

section \<open>The steps of an attempt\<close>

lemma serialise_nonempty [simp]: "serialise_request req \<noteq> []"
  by (simp add: serialise_split header_block_def delims)

lemmas serialise_nonempty' [simp] = serialise_nonempty [symmetric]

lemma world_ok_fresh: "world_ok w \<Longrightarrow> w_next_sock w \<le> s \<Longrightarrow> w_wire w s = []"
  by (simp add: world_ok_def)

text \<open>Fields that the helpers leave alone.\<close>

lemma notify_fields [simp]:
  "client_sock (fst (notify_disconnect s)) = client_sock (fst s)"
  "client_bytes_sent (fst (notify_disconnect s)) = client_bytes_sent (fst s)"
  "parsed_request (fst (notify_disconnect s)) = parsed_request (fst s)"
  "forward_buf (fst (notify_disconnect s)) = forward_buf (fst s)"
  "tried_backends (fst (notify_disconnect s)) = tried_backends (fst s)"
  "relay_buf (fst (notify_disconnect s)) = relay_buf (fst s)"
  "state (fst (notify_disconnect s)) = state (fst s)"
  "w_next_sock (snd (notify_disconnect s)) = w_next_sock (snd s)"
  "w_wire (snd (notify_disconnect s)) = w_wire (snd s)"
  "w_log (snd (notify_disconnect s)) = w_log (snd s)"
  by (cases s; simp add: router_release_def split: option.splits)+

lemma notify_router_ok [simp]:
  "router_ok (w_router (snd s)) \<Longrightarrow> router_ok (w_router (snd (notify_disconnect s)))"
  by (cases s) (simp add: router_release_def router.release_ok split: option.splits)

lemma drop_fields [simp]:
  "client_sock (fst (drop_backend s)) = client_sock (fst s)"
  "client_bytes_sent (fst (drop_backend s)) = client_bytes_sent (fst s)"
  "parsed_request (fst (drop_backend s)) = parsed_request (fst s)"
  "forward_buf (fst (drop_backend s)) = forward_buf (fst s)"
  "relay_buf (fst (drop_backend s)) = relay_buf (fst s)"
  "w_next_sock (snd (drop_backend s)) = w_next_sock (snd s)"
  "w_wire (snd (drop_backend s)) = w_wire (snd s)"
  by (cases "notify_disconnect s"; use notify_fields [of s] in
      \<open>auto simp: drop_backend_def note_tried_def close_socket_def simp del: notify_fields
        split: option.splits\<close>)+

lemma drop_tried [simp]:
  "tried_backends (fst (drop_backend s)) = set_option (backend_addr (fst s)) \<union> tried_backends (fst s)"
  using notify_fields(5) [of s] notify_addr [of s]
  by (cases "notify_disconnect s")
    (auto simp: drop_backend_def note_tried_def simp del: notify_fields notify_addr split: option.splits)

lemma drop_router_ok [simp]:
  "router_ok (w_router (snd s)) \<Longrightarrow> router_ok (w_router (snd (drop_backend s)))"
  by (simp add: drop_backend_def)

lemma open_more [simp]:
  "client_sock (fst (open_backend s)) = client_sock (fst s)"
  "client_bytes_sent (fst (open_backend s)) = client_bytes_sent (fst s)"
  "parsed_request (fst (open_backend s)) = parsed_request (fst s)"
  "forward_buf (fst (open_backend s)) = forward_buf (fst s)"
  "forward_offset (fst (open_backend s)) = forward_offset (fst s)"
  "tried_backends (fst (open_backend s)) = tried_backends (fst s)"
  "relay_buf (fst (open_backend s)) = relay_buf (fst s)"
  "state (fst (open_backend s)) = state (fst s)"
  "backend_sock (fst (open_backend s)) = Some (w_next_sock (snd s))"
  "w_next_sock (snd (open_backend s)) = Suc (w_next_sock (snd s))"
  "w_wire (snd (open_backend s)) = w_wire (snd s)"
  "response_fresh (fst (open_backend s)) = response_fresh (fst s)"
  by (cases s; simp add: new_socket_def response_fresh_def)+

lemma refresh_fresh [simp]: "response_fresh (fst (refresh_deadline s)) = response_fresh (fst s)"
  by (cases s) (simp add: response_fresh_def monotonic_def refresh_deadline.simps split: option.splits)

lemma state_fresh [simp]: "response_fresh (c\<lparr>state := x\<rparr>) = response_fresh c"
  "response_fresh (c\<lparr>forward_offset := n\<rparr>) = response_fresh c"
  by (simp_all add: response_fresh_def)

lemma world_refresh [simp]: "world_ok (snd (refresh_deadline s)) = world_ok (snd s)"
  by (simp add: world_ok_def)

lemma page_fields [simp]:
  "client_sock (fst (send_page io page s)) = client_sock (fst s)"
  "relay_buf (fst (send_page io page s)) = relay_buf (fst s)"
  "w_next_sock (snd (send_page io page s)) = w_next_sock (snd s)"
  by (cases s; simp add: transmit_def split: option.splits)+

lemma page_wire:
  "w_wire (snd (send_page io page s)) = (w_wire (snd s))(client_sock (fst s) :=
     w_wire (snd s) (client_sock (fst s)) @ (case io_sendall io of None \<Rightarrow> page | Some n \<Rightarrow> take n page))"
  by (cases s) (simp add: transmit_def split: option.splits)

lemma log_fields [simp]:
  "w_wire (snd (log_request s)) = w_wire (snd s)"
  "w_next_sock (snd (log_request s)) = w_next_sock (snd s)"
  by (cases s; simp add: monotonic_def access_log_def split: option.splits)+

lemma finish_fields [simp]:
  "state (fst (finish s)) = DONE"
  "client_sock (fst (finish s)) = client_sock (fst s)"
  "relay_buf (fst (finish s)) = relay_buf (fst s)"
  "w_next_sock (snd (finish s)) = w_next_sock (snd s)"
  "w_wire (snd (finish s)) = w_wire (snd s)"
  by (simp_all add: finish_def)

lemma finish_router_ok: "router_ok (w_router (snd s)) \<Longrightarrow> router_ok (w_router (snd (finish s)))"
  by (simp add: finish_def)

lemma finish_client_known: "client_known s \<Longrightarrow> client_known (finish s)"
  by (simp add: client_known_def world_ok_def finish_router_ok)

lemma finish_answered: "answered s \<Longrightarrow> answered (finish s)"
  by (simp add: answered_def finish_client_known client_wire_def)

lemma send_error_answered:
  assumes "client_known s" and "client_wire s = []" and "error_page code reason \<in> error_pages"
  shows "answered (send_error io code reason s)"
proof -
  let ?s = "apfst (response_status_update (\<lambda>_. Some code)) (send_page io (error_page code reason) s)"
  have "client_known ?s"
    using assms(1) by (auto simp: client_known_def world_ok_def page_wire)
  moreover have "prefix (client_wire ?s) (error_page code reason)"
    using assms(2) by (auto simp: client_wire_def page_wire take_is_prefix split: option.splits)
  ultimately have "answered ?s" using assms(3) by (auto simp: answered_def)
  then show ?thesis unfolding send_error_def by (rule finish_answered)
qed

lemma send_error_state [simp]: "state (fst (send_error io code reason s)) = DONE"
  by (simp add: send_error_def)

lemma send_error_phase:
  "client_known s \<Longrightarrow> client_wire s = [] \<Longrightarrow> error_page code reason \<in> error_pages \<Longrightarrow>
    phase_ok (send_error io code reason s)"
  by (simp add: phase_ok_def send_error_answered)

lemma error_pages_mem:
  "error_page 408 ''Request Timeout'' \<in> error_pages"
  "error_page 413 ''Request Entity Too Large'' \<in> error_pages"
  "error_page 502 ''Bad Gateway'' \<in> error_pages"
  "error_page 503 ''Service Unavailable'' \<in> error_pages"
  "error_page 504 ''Gateway Timeout'' \<in> error_pages"
  by (simp_all add: error_pages_def)

text \<open>Two sessions that agree on what \<open>engaged\<close> reads.\<close>

lemma engaged_same:
  assumes "engaged s" and "client_sock (fst s') = client_sock (fst s)"
    and "parsed_request (fst s') = parsed_request (fst s)" "forward_buf (fst s') = forward_buf (fst s)"
    and "backend_addr (fst s') = backend_addr (fst s)" "tried_backends (fst s') = tried_backends (fst s)"
    and "backend_attempts (fst s') = backend_attempts (fst s)"
    and "disconnect_notified (fst s') = disconnect_notified (fst s)"
    and "client_bytes_sent (fst s') = client_bytes_sent (fst s)"
    and "w_router (snd s') = w_router (snd s)" "w_next_sock (snd s) \<le> w_next_sock (snd s')"
    and "w_wire (snd s') (client_sock (fst s)) = w_wire (snd s) (client_sock (fst s))"
    and "\<forall>x \<ge> w_next_sock (snd s'). w_wire (snd s') x = []"
  shows "engaged s'"
  using assms by (auto simp: engaged_def client_known_def world_ok_def client_wire_def attempts_ok_def)

lemma engaged_wires: "engaged s \<Longrightarrow> w_next_sock (snd s) \<le> x \<Longrightarrow> w_wire (snd s) x = []"
  by (simp add: engaged_def client_known_def world_ok_def)

lemma engaged_begun: "engaged s \<Longrightarrow> engaged (begun s)"
  by (rule engaged_same) (auto simp: begun_def engaged_wires)

lemma engaged_open: "engaged s \<Longrightarrow> engaged (open_backend s)"
  by (rule engaged_same) (auto simp: engaged_wires)

lemma linked_open: "engaged s \<Longrightarrow> forward_offset (fst s) = 0 \<Longrightarrow> linked (open_backend s)"
  by (auto simp: linked_def engaged_wires engaged_def client_known_def)

lemma engaged_drop:
  assumes "engaged s"
  obtains b where "backend_addr (fst s) = Some b" "client_known (drop_backend s)"
    "client_wire (drop_backend s) = []"
    "tried_backends (fst (drop_backend s)) = insert b (tried_backends (fst s))"
    "int (card (insert b (tried_backends (fst s)))) = backend_attempts (fst s)"
    "finite (tried_backends (fst s))"
  using assms
  by (auto simp: engaged_def client_known_def world_ok_def client_wire_def attempts_ok_def)

lemma select_known:
  assumes "client_known s" and "router_select ex (snd s) = (ob, w)"
  shows "world_ok w" "w_wire w = w_wire (snd s)" "w_next_sock w = w_next_sock (snd s)"
proof -
  obtain r' where r: "next_backend (w_router (snd s)) ex = (ob, r')" "w = snd s\<lparr>w_router := r'\<rparr>"
    by (rule router_selectE [OF assms(2)])
  have "router_ok r'"
    using router.select_ok [of "w_router (snd s)" ex] assms(1) r(1)
    by (simp add: client_known_def world_ok_def)
  with assms(1) r(2) show "world_ok w" "w_wire w = w_wire (snd s)" "w_next_sock w = w_next_sock (snd s)"
    by (simp_all add: client_known_def world_ok_def)
qed

lemma engaged_retry:
  assumes "engaged s" and "can_retry (fst (drop_backend s))"
    and sel: "router_select (Some (tried_backends (fst (drop_backend s)))) (snd (drop_backend s)) = (Some b, w)"
  shows "engaged (retry_reset b (fst (drop_backend s)), w)"
proof -
  let ?d = "drop_backend s"
  obtain b0 where d0: "backend_addr (fst s) = Some b0" and d: "client_known ?d" "client_wire ?d = []"
    "tried_backends (fst ?d) = insert b0 (tried_backends (fst s))"
    "int (card (insert b0 (tried_backends (fst s)))) = backend_attempts (fst s)"
    "finite (tried_backends (fst s))"
    by (rule engaged_drop [OF assms(1)])
  have new: "b \<notin> tried_backends (fst ?d)"
  proof -
    obtain r' where "next_backend (w_router (snd ?d)) (Some (tried_backends (fst ?d))) = (Some b, r')"
      by (rule router_selectE [OF sel])
    with router.select_fresh d(1) show ?thesis unfolding client_known_def world_ok_def by blast
  qed
  from assms(2) have idem: "\<exists>req. parsed_request (fst s) = Some req \<and> idempotent req"
    "backend_attempts (fst s) \<le> MAX_BACKEND_RETRIES"
    by (auto simp: can_retry_def idempotent_def split: if_splits option.splits)
  have "client_known (retry_reset b (fst ?d), w)"
    using select_known [OF d(1) sel] d(1) by (simp add: retry_reset_def client_known_def)
  moreover have "client_wire (retry_reset b (fst ?d), w) = []"
    using select_known(2) [OF d(1) sel] d(2) by (simp add: retry_reset_def client_wire_def)
  ultimately show ?thesis
    using assms(1) new d(3-) d0 idem
    by (simp add: engaged_def retry_reset_def attempts_ok_def)
qed

lemma retry_fresh: "response_fresh (retry_reset b c)" "forward_offset (retry_reset b c) = 0"
  by (simp_all add: response_fresh_def retry_reset_def)

lemma phase_done: "state (fst s) = DONE \<Longrightarrow> phase_ok s = answered s"
  by (simp add: phase_ok_def)

lemma engaged_answered: "engaged s \<Longrightarrow> answered s"
  by (simp add: engaged_def answered_def)

interpretation phases: connect_contract
  "\<lambda>s. engaged s \<and> response_fresh (fst s) \<and> forward_offset (fst s) = 0" engaged phase_ok answered
proof unfold_locales
  fix s b w io
  let ?d = "drop_backend s"
  let ?sel = "router_select (Some (tried_backends (fst ?d))) (snd ?d)"
  {
    assume s: "engaged s \<and> response_fresh (fst s) \<and> forward_offset (fst s) = 0"
    then have b: "engaged (begun s)" "forward_offset (fst (begun s)) = 0" "response_fresh (fst (begun s))"
      "state (fst (begun s)) = CONNECTING_TO_BACKEND"
      by (simp_all add: engaged_begun) (simp_all add: begun_def)
    note o = engaged_open [OF b(1)] linked_open [OF b(1,2)]
    show "answered (begun s)" "answered (open_backend (begun s))" "engaged (open_backend (begun s))"
      using b o by (simp_all add: engaged_answered)
    show "phase_ok (open_backend (begun s))" using b o by (simp add: phase_ok_def)
    have "engaged (connected_at_once s)"
      using o(1) by (rule engaged_same) (auto simp: connected_at_once_def engaged_wires [OF o(1), simplified])
    moreover have "linked (connected_at_once s)" using o(2) by (simp add: linked_def connected_at_once_def)
    moreover have "forward_buf (fst (connected_at_once s)) \<noteq> []" using calculation(1) by (auto simp: engaged_def)
    ultimately show "phase_ok (connected_at_once s)"
      using b by (simp add: phase_ok_def) (simp add: connected_at_once_def)
  }
  assume s: "engaged s"
  then have d: "client_known ?d" "client_wire ?d = []" by (auto elim: engaged_drop)
  show "phase_ok (send_error io 502 ''Bad Gateway'' ?d)"
    by (intro send_error_phase d error_pages_mem)
  show "phase_ok (send_error io 502 ''Bad Gateway'' (fst ?d, w))" if "?sel = (None, w)"
    using select_known [OF d(1) that] d
    by (intro send_error_phase error_pages_mem) (simp_all add: client_known_def client_wire_def)
  show "engaged (retry_reset b (fst ?d), w) \<and> response_fresh (fst (retry_reset b (fst ?d), w)) \<and>
      forward_offset (fst (retry_reset b (fst ?d), w)) = 0"
    if "can_retry (fst ?d)" "?sel = (Some b, w)"
    using engaged_retry [OF s that] by (simp add: retry_fresh)
qed

section \<open>The handlers\<close>

lemma phaseD:
  "phase_ok s \<Longrightarrow> state (fst s) = READING_REQUEST \<Longrightarrow>
    client_known s \<and> client_wire s = [] \<and> \<not> client_bytes_sent (fst s) \<and>
    backend_addr (fst s) = None \<and> backend_sock (fst s) = None \<and> tried_backends (fst s) = {} \<and>
    response_fresh (fst s)"
  "phase_ok s \<Longrightarrow> state (fst s) \<in> {CONNECTING_TO_BACKEND, FORWARDING_REQUEST, READING_RESPONSE} \<Longrightarrow>
    engaged s \<and> linked s"
  by (auto simp: phase_ok_def)

lemma phase_known: "phase_ok s \<Longrightarrow> client_known s"
  by (auto simp: phase_ok_def engaged_def answered_def split: conn_state.splits)

lemma phase_answered: "phase_ok s \<Longrightarrow> answered s"
  by (auto simp: phase_ok_def engaged_def answered_def take_is_prefix split: conn_state.splits)

lemma phase_to_done:
  assumes "phase_ok s" and "client_known s'" "client_sock (fst s') = client_sock (fst s)"
    and "relay_buf (fst s') = relay_buf (fst s)" "client_wire s' = client_wire s" "state (fst s') = DONE"
  shows "phase_ok s'"
  using phase_answered [OF assms(1)] assms(2-) by (simp add: phase_done answered_def)

lemma phase_set_done: "phase_ok s \<Longrightarrow> phase_ok (set_state DONE s)"
  by (rule phase_to_done) (auto dest: phase_known simp: client_known_def client_wire_def)

lemma phase_unanswered:
  "phase_ok s \<Longrightarrow> state (fst s) \<notin> {FORWARDING_RESPONSE, DONE} \<Longrightarrow> client_wire s = []"
  by (auto simp: phase_ok_def engaged_def split: conn_state.splits)

lemma phase_timeout: "phase_ok s \<Longrightarrow> phase_ok (handle_timeout io s)"
proof -
  assume s: "phase_ok s"
  have "phase_ok (send_error io 504 ''Gateway Timeout'' s)" if "\<not> client_bytes_sent (fst s)" "state (fst s) \<noteq> DONE"
  proof (rule send_error_phase)
    show "client_wire s = []" using s that by (auto simp: phase_ok_def engaged_def split: conn_state.splits)
  qed (use s in \<open>auto intro: phase_known error_pages_mem\<close>)
  moreover have "phase_ok (set_state DONE (notify_disconnect s))"
    using s by (rule phase_to_done)
      (use phase_known [OF s] in \<open>auto simp: client_known_def world_ok_def client_wire_def\<close>)
  ultimately show ?thesis
    using s by (auto simp: handle_timeout_def intro!: send_error_phase error_pages_mem
        intro: phase_known phase_unanswered)
qed

lemma phase_forward_request:
  assumes "phase_ok (c, w)" and "state c = READING_REQUEST"
  shows "outcome_ok phase_ok answered (forward_request io req (c, w))"
proof -
  let ?req = "inject_forwarded_for req (fst (client_addr c))"
  let ?c = "c\<lparr>parsed_request := Some ?req, forward_buf := serialise_request ?req, forward_offset := 0\<rparr>"
  note s = phaseD(1) [OF assms(1), simplified, OF assms(2)]
  obtain ob w' where sel: "router_select None w = (ob, w')" by fastforce
  note k = select_known [of "(c, w)", simplified, OF conjunct1 [OF s] sel]
  show ?thesis
  proof (cases ob)
    case None
    have "phase_ok (send_error io 503 ''Service Unavailable'' (?c, w'))"
      using s k by (intro send_error_phase error_pages_mem) (auto simp: client_known_def client_wire_def)
    with sel None show ?thesis by (simp add: forward_request.simps Let_def)
  next
    case (Some b)
    have "engaged (?c\<lparr>backend_addr := Some b, backend_attempts := 1, disconnect_notified := False\<rparr>, w')"
      using s k by (auto simp: engaged_def client_known_def client_wire_def attempts_ok_def MAX_BACKEND_RETRIES_def)
    with phases.chain(1) s sel Some show ?thesis by (simp add: forward_request.simps Let_def response_fresh_def)
  qed
qed

text \<open>What \<open>phase_ok\<close> of a connection that reads its request depends on.\<close>

lemma phase_reading_same:
  assumes "phase_ok s" and "state (fst s) = READING_REQUEST" "state (fst s') = READING_REQUEST"
    and "client_sock (fst s') = client_sock (fst s)" "client_bytes_sent (fst s') = client_bytes_sent (fst s)"
    "backend_addr (fst s') = backend_addr (fst s)" "backend_sock (fst s') = backend_sock (fst s)"
    "tried_backends (fst s') = tried_backends (fst s)" "response_fresh (fst s') = response_fresh (fst s)"
    "w_router (snd s') = w_router (snd s)" "w_next_sock (snd s') = w_next_sock (snd s)"
    "w_wire (snd s') = w_wire (snd s)"
  shows "phase_ok s'"
  using assms by (simp add: phase_ok_def client_known_def world_ok_def client_wire_def)

lemma phase_client_readable:
  assumes "phase_ok (c, w)"
  shows "outcome_ok phase_ok answered (handle_client_readable io (c, w))"
proof (cases "state c = READING_REQUEST")
  case False
  with assms show ?thesis by simp
next
  case True
  show ?thesis
  proof (cases "io_recv io")
    case (Received data)
    let ?d = "recv_data CLIENT_RECV_SIZE data"
    obtain c' w' where r: "refresh_deadline (c\<lparr>request_buf := request_buf c @ ?d\<rparr>, w) = (c', w')"
      by fastforce
    have r': "c' = fst (refresh_deadline (c\<lparr>request_buf := request_buf c @ ?d\<rparr>, w))"
      "w' = snd (refresh_deadline (c\<lparr>request_buf := request_buf c @ ?d\<rparr>, w))"
      unfolding r by simp_all
    have ok: "phase_ok (c', w')"
      by (rule phase_reading_same [OF assms]) (simp_all add: r' True, simp add: response_fresh_def)
    have st: "state c' = READING_REQUEST" by (simp add: r' True)
    have done': "phase_ok (set_state DONE (c, w))" by (rule phase_set_done [OF assms])
    have big: "phase_ok (send_error io 413 ''Request Entity Too Large'' (c', w'))"
      using phaseD(1) [OF ok] st by (intro send_error_phase error_pages_mem) simp_all
    show ?thesis
      using True ok done' big phase_forward_request [OF ok st, of io]
      by (auto simp: Received Let_def r set_state_def split: option.splits)
  qed (use assms True phase_set_done [OF assms] in \<open>simp_all add: set_state_def\<close>)
qed

lemma engaged_sent:
  assumes "engaged s" and "linked s" and "backend_sock (fst s) = Some b"
    and "client_sock (fst s') = client_sock (fst s)" "parsed_request (fst s') = parsed_request (fst s)"
    "forward_buf (fst s') = forward_buf (fst s)" "backend_addr (fst s') = backend_addr (fst s)"
    "tried_backends (fst s') = tried_backends (fst s)" "backend_attempts (fst s') = backend_attempts (fst s)"
    "disconnect_notified (fst s') = disconnect_notified (fst s)"
    "client_bytes_sent (fst s') = client_bytes_sent (fst s)"
    and "w_router (snd s') = w_router (snd s)" "w_next_sock (snd s') = w_next_sock (snd s)"
    "w_wire (snd s') = (w_wire (snd s))(b := out)"
  shows "engaged s'"
  by (rule engaged_same [OF assms(1)])
    (use assms(2,3) engaged_wires [OF assms(1)] in \<open>auto simp: assms(4-) linked_def\<close>)

lemma send_forward_fields [simp]:
  "state (fst (send_forward b n s)) = state (fst s)"
  "client_sock (fst (send_forward b n s)) = client_sock (fst s)"
  "parsed_request (fst (send_forward b n s)) = parsed_request (fst s)"
  "forward_buf (fst (send_forward b n s)) = forward_buf (fst s)"
  "forward_offset (fst (send_forward b n s)) =
     forward_offset (fst s) + min n (length (forward_buf (fst s)) - forward_offset (fst s))"
  "backend_addr (fst (send_forward b n s)) = backend_addr (fst s)"
  "backend_sock (fst (send_forward b n s)) = backend_sock (fst s)"
  "tried_backends (fst (send_forward b n s)) = tried_backends (fst s)"
  "backend_attempts (fst (send_forward b n s)) = backend_attempts (fst s)"
  "disconnect_notified (fst (send_forward b n s)) = disconnect_notified (fst s)"
  "client_bytes_sent (fst (send_forward b n s)) = client_bytes_sent (fst s)"
  "response_buf (fst (send_forward b n s)) = response_buf (fst s)"
  "response_fresh (fst (send_forward b n s)) = response_fresh (fst s)"
  "w_router (snd (send_forward b n s)) = w_router (snd s)"
  "w_next_sock (snd (send_forward b n s)) = w_next_sock (snd s)"
  by (simp_all add: send_forward_def Let_def transmit_def)

lemma send_forward_wire:
  "w_wire (snd (send_forward b n s)) = (w_wire (snd s))
     (b := w_wire (snd s) b @ take n (drop (forward_offset (fst s)) (forward_buf (fst s))))"
  by (simp add: send_forward_def Let_def transmit_def fun_eq_iff min_def)

lemma phase_forward_some:
  assumes "phase_ok s" and "state (fst s) = FORWARDING_REQUEST"
  shows "outcome_ok phase_ok answered (forward_some io s)"
proof -
  from assms have e: "engaged s" and l: "linked s" and f: "response_fresh (fst s)"
    and off: "forward_offset (fst s) < length (forward_buf (fst s))"
    by (auto simp: phase_ok_def)
  then obtain b where b: "backend_sock (fst s) = Some b"
    and wire: "w_wire (snd s) b = take (forward_offset (fst s)) (forward_buf (fst s))"
    by (auto simp: linked_def)
  show ?thesis
  proof (cases "io_send io")
    case (Sent n)
    let ?s = "send_forward b n s"
    let ?t = "refresh_deadline (set_state READING_RESPONSE ?s)"
    have e': "engaged ?s"
      by (rule engaged_sent [OF e l b]) (simp_all add: send_forward_wire)
    have l': "linked ?s"
      using l b wire off by (auto simp: linked_def send_forward_wire take_add min_def)
    have "engaged ?t"
      by (rule engaged_same [OF e']) (use engaged_wires [OF e'] in auto)
    moreover have "linked ?t" using l' by (simp add: linked_def)
    ultimately have "phase_ok ?t" if "forward_offset (fst ?s) \<ge> length (forward_buf (fst ?s))"
      using that off by (simp add: phase_ok_def)
    moreover have "phase_ok ?s" if "\<not> forward_offset (fst ?s) \<ge> length (forward_buf (fst ?s))"
      using e' l' f that assms(2) by (simp add: phase_ok_def)
    ultimately show ?thesis using Sent b by (simp add: forward_some_def Let_def)
  next
    case Send_failed
    with phases.chain(2) [OF e] b show ?thesis by (simp add: forward_some_def)
  qed (use assms b in \<open>simp add: forward_some_def\<close>)
qed

lemma phase_connected:
  assumes "phase_ok (c, w)" and "state c = CONNECTING_TO_BACKEND"
  shows "phase_ok (refresh_deadline (c\<lparr>state := FORWARDING_REQUEST\<rparr>, w))"
proof -
  let ?s = "refresh_deadline (c\<lparr>state := FORWARDING_REQUEST\<rparr>, w)"
  from assms have e: "engaged (c, w)" and l: "linked (c, w)" and off: "forward_offset c = 0"
    and f: "response_fresh c" by (auto simp: phase_ok_def)
  have "engaged ?s"
    by (rule engaged_same [OF e]) (use engaged_wires [OF e] in auto)
  moreover have "forward_buf c \<noteq> []" using e by (auto simp: engaged_def)
  ultimately show ?thesis using l off f by (simp add: phase_ok_def linked_def)
qed

lemma phase_backend_writable:
  assumes "phase_ok (c, w)"
  shows "outcome_ok phase_ok answered (handle_backend_writable io (c, w))"
proof (cases "state c = CONNECTING_TO_BACKEND")
  case True
  have e: "engaged (c, w)" "backend_sock c \<noteq> None" using assms True by (auto simp: phase_ok_def linked_def)
  then show ?thesis
    using True phases.chain(2) [OF e(1)] phase_forward_some [OF phase_connected [OF assms True]]
    by (auto intro: phase_answered [OF assms] split: option.splits)
next
  case False
  with assms phase_forward_some [OF assms] show ?thesis by simp
qed

lemma phase_relay:
  assumes "engaged s" and "linked s"
  shows "phase_ok (prepare_relay s)"
  using assms by (cases s) (auto simp: phase_ok_def engaged_def client_known_def client_wire_def)

text \<open>A step that only changes what has been read of the response.\<close>

lemma phase_response_same:
  assumes "phase_ok s" and "state (fst s) = READING_RESPONSE"
    and "client_sock (fst s') = client_sock (fst s)"
    "parsed_request (fst s') = parsed_request (fst s)" "forward_buf (fst s') = forward_buf (fst s)"
    "backend_addr (fst s') = backend_addr (fst s)" "tried_backends (fst s') = tried_backends (fst s)"
    "backend_attempts (fst s') = backend_attempts (fst s)"
    "disconnect_notified (fst s') = disconnect_notified (fst s)"
    "client_bytes_sent (fst s') = client_bytes_sent (fst s)"
    "state (fst s') = READING_RESPONSE" "backend_sock (fst s') = backend_sock (fst s)"
    "forward_offset (fst s') = forward_offset (fst s)"
    "w_router (snd s') = w_router (snd s)" "w_next_sock (snd s') = w_next_sock (snd s)"
    "w_wire (snd s') = w_wire (snd s)"
  shows "phase_ok s' \<and> engaged s' \<and> linked s'"
proof -
  from assms have e: "engaged s" and l: "linked s" and o: "forward_offset (fst s) = length (forward_buf (fst s))"
    by (auto simp: phase_ok_def)
  have "engaged s'"
    by (rule engaged_same [OF e]) (use assms engaged_wires [OF e] in auto)
  moreover have "linked s'" using l assms by (simp add: linked_def)
  ultimately show ?thesis using o assms by (simp add: phase_ok_def)
qed

lemma noted_fields [simp]:
  "state (note_status c) = state c" "state (note_headers c) = state c"
  "client_sock (note_status c) = client_sock c" "client_sock (note_headers c) = client_sock c"
  "parsed_request (note_status c) = parsed_request c" "parsed_request (note_headers c) = parsed_request c"
  "forward_buf (note_status c) = forward_buf c" "forward_buf (note_headers c) = forward_buf c"
  "backend_addr (note_status c) = backend_addr c" "backend_addr (note_headers c) = backend_addr c"
  "tried_backends (note_status c) = tried_backends c" "tried_backends (note_headers c) = tried_backends c"
  "backend_attempts (note_status c) = backend_attempts c"
  "backend_attempts (note_headers c) = backend_attempts c"
  "disconnect_notified (note_status c) = disconnect_notified c"
  "disconnect_notified (note_headers c) = disconnect_notified c"
  "client_bytes_sent (note_status c) = client_bytes_sent c"
  "client_bytes_sent (note_headers c) = client_bytes_sent c"
  "backend_sock (note_status c) = backend_sock c" "backend_sock (note_headers c) = backend_sock c"
  "forward_offset (note_status c) = forward_offset c" "forward_offset (note_headers c) = forward_offset c"
  "response_buf (note_status c) = response_buf c" "response_buf (note_headers c) = response_buf c"
  by (simp_all add: note_status_def note_headers_def Let_def split: option.splits)

lemma phase_check_complete:
  assumes "phase_ok (c, w)" and "state c = READING_RESPONSE" and "check_complete (c, w) = Some s'"
  shows "phase_ok s'"
proof -
  have body: "phase_ok (c\<lparr>response_body_received := n\<rparr>, w) \<and> engaged (c\<lparr>response_body_received := n\<rparr>, w) \<and>
      linked (c\<lparr>response_body_received := n\<rparr>, w)" for n
    by (rule phase_response_same [OF assms(1)]) (simp_all add: assms(2))
  have buf: "engaged (c\<lparr>response_buf := b\<rparr>, w) \<and> linked (c\<lparr>response_buf := b\<rparr>, w)" for b
    using phase_response_same [OF assms(1), of "(c\<lparr>response_buf := b\<rparr>, w)"] by (simp add: assms(2))
  note relays = phase_relay [OF conjunct1 [OF buf] conjunct2 [OF buf]]
    phase_relay [OF conjunct1 [OF conjunct2 [OF body]] conjunct2 [OF conjunct2 [OF body]]]
  from assms(3) show ?thesis
    using assms(1) body relays
    by (auto simp: Let_def simp del: prepare_relay.simps split: if_splits option.splits)
qed

lemma phase_backend_readable:
  assumes "phase_ok (c, w)" and "handle_backend_readable io (c, w) = Some r"
  shows "outcome_ok phase_ok answered r"
proof (cases "state c = READING_RESPONSE")
  case False
  with assms show ?thesis by auto
next
  case True
  with assms(1) have e: "engaged (c, w)" and l: "linked (c, w)" by (auto simp: phase_ok_def)
  then obtain b where b: "backend_sock c = Some b" by (auto simp: linked_def)
  note fail = phases.chain(2) [OF e, of io]
  show ?thesis
  proof (cases "io_recv io")
    case (Received data)
    let ?d = "recv_data BACKEND_RECV_SIZE data"
    let ?s = "refresh_deadline (c\<lparr>response_buf := response_buf c @ ?d\<rparr>, w)"
    show ?thesis
    proof (cases "?d = []")
      case True
      with assms(2) \<open>state c = READING_RESPONSE\<close> b Received fail phase_relay [OF e l] show ?thesis
        by (auto simp: Let_def simp del: prepare_relay.simps split: if_splits option.splits)
    next
      case False
      with assms(2) \<open>state c = READING_RESPONSE\<close> b Received obtain s' where
        s': "check_complete (note_headers (note_status (fst ?s)), snd ?s) = Some s'" "r = Returned s'"
        by (auto simp: Let_def case_prod_unfold simp del: check_complete.simps)
      have "phase_ok (note_headers (note_status (fst ?s)), snd ?s)"
        using phase_response_same [OF assms(1), of "(note_headers (note_status (fst ?s)), snd ?s)"]
          \<open>state c = READING_RESPONSE\<close> by simp
      from phase_check_complete [OF this _ s'(1)] s'(2) \<open>state c = READING_RESPONSE\<close>
      show ?thesis by simp
    qed
  qed (use assms b True fail in auto)
qed

lemma send_relay_fields [simp]:
  "state (fst (send_relay n s)) = state (fst s)"
  "client_sock (fst (send_relay n s)) = client_sock (fst s)"
  "relay_buf (fst (send_relay n s)) = relay_buf (fst s)"
  "response_buf (fst (send_relay n s)) = response_buf (fst s)"
  "relay_offset (fst (send_relay n s)) =
     relay_offset (fst s) + min n (length (relay_buf (fst s)) - relay_offset (fst s))"
  "backend_addr (fst (send_relay n s)) = backend_addr (fst s)"
  "disconnect_notified (fst (send_relay n s)) = disconnect_notified (fst s)"
  "client_bytes_sent (fst (send_relay n s)) \<longleftrightarrow> client_bytes_sent (fst s) \<or>
     (0 < n \<and> relay_offset (fst s) < length (relay_buf (fst s)))"
  "w_router (snd (send_relay n s)) = w_router (snd s)"
  "w_next_sock (snd (send_relay n s)) = w_next_sock (snd s)"
  "w_log (snd (send_relay n s)) = w_log (snd s)"
  by (auto simp: send_relay_def Let_def transmit_def)

lemma send_relay_wire:
  "w_wire (snd (send_relay n s)) = (w_wire (snd s))
     (client_sock (fst s) := client_wire s @ take n (drop (relay_offset (fst s)) (relay_buf (fst s))))"
  by (simp add: send_relay_def Let_def transmit_def fun_eq_iff min_def client_wire_def)

lemma phase_client_writable:
  assumes "phase_ok s"
  shows "outcome_ok phase_ok answered (handle_client_writable io s)"
proof (cases "state (fst s) = FORWARDING_RESPONSE")
  case False
  with assms show ?thesis by (simp add: handle_client_writable_def)
next
  case True
  show ?thesis
  proof (cases "io_send io")
    case (Sent n)
    let ?s = "send_relay n s"
    from assms True have old: "client_known s" "client_wire s = take (relay_offset (fst s)) (relay_buf (fst s))"
      "relay_offset (fst s) \<le> length (relay_buf (fst s))"
      by (auto simp: phase_ok_def)
    have "client_known ?s"
      using old(1) by (auto simp: client_known_def world_ok_def send_relay_wire)
    moreover have "client_wire ?s = take (relay_offset (fst ?s)) (relay_buf (fst ?s))"
      using old(2,3) unfolding client_wire_def [of ?s]
      by (auto simp: send_relay_wire take_add min_def)
    ultimately have "phase_ok ?s"
      using assms True old(3) by (auto simp: phase_ok_def)
    with phase_done [of "finish ?s"] finish_answered [OF phase_answered, of ?s] Sent True show ?thesis
      by (simp add: handle_client_writable_def Let_def)
  qed (use assms True phase_set_done [OF assms] in \<open>simp_all add: handle_client_writable_def\<close>)
qed

theorem phase_handle:
  assumes "phase_ok s" and "handle ev io s = Some r"
  shows "outcome_ok phase_ok answered r"
proof (cases s)
  case (Pair c w)
  with assms show ?thesis
    by (cases ev) (auto simp del: handle_client_readable.simps
        handle_backend_readable.simps handle_backend_writable.simps
        intro: phase_client_readable phase_client_writable phase_backend_readable
          phase_backend_writable phase_timeout)
qed

end
