(* ===== verification/ConnectionRuns.thy ===== *)
theory ConnectionRuns
  imports ConnectionPhases
begin

text \<open>
  Runs of one connection: any sequence of events, with any answers of the operating system, while
  the other connections and the health checker change the world in between. The invariant holds
  along every run; the slots of the router are accounted for by every handler.
\<close>

section \<open>Runs\<close>

text \<open>
  What others may do in between: use the router, open sockets, write to theirs. The sockets of
  this connection are its own.
\<close>

definition interferes :: "session \<Rightarrow> world \<Rightarrow> bool" where
  "interferes s w' \<longleftrightarrow> world_ok w' \<and> w_next_sock (snd s) \<le> w_next_sock w' \<and>
     w_wire w' (client_sock (fst s)) = w_wire (snd s) (client_sock (fst s)) \<and>
     (\<forall>b. backend_sock (fst s) = Some b \<longrightarrow> w_wire w' b = w_wire (snd s) b)"

text \<open>
  An exception that leaves a handler ends the connection: the reactor catches it. The reactor itself
  may end a connection, and it forgets the socket that was to be unregistered once it has done so.
\<close>

inductive session_step :: "session \<Rightarrow> session \<Rightarrow> bool" where
  step_returned: "handle ev io s = Some (Returned s') \<Longrightarrow> session_step s s'"
| step_raised: "handle ev io s = Some (Raised s') \<Longrightarrow> session_step s (set_state DONE s')"
| step_others: "interferes s w' \<Longrightarrow> session_step s (fst s, w')"
| step_ended: "session_step s (set_state DONE s)"
| step_flushed: "session_step s (fst s\<lparr>pending_backend_unregister := None\<rparr>, snd s)"

inductive_cases session_stepE: "session_step s s'"

definition accepted :: "session \<Rightarrow> bool" where
  "accepted s \<longleftrightarrow> (\<exists>client addr w. world_ok w \<and> client < w_next_sock w \<and> w_wire w client = [] \<and>
     s = new_connection client addr w)"

lemma phase_accepted: "accepted s \<Longrightarrow> phase_ok s"
  by (auto simp: accepted_def new_connection_def monotonic_def refresh_deadline.simps
      timeout_for_state_def phase_ok_def client_known_def world_ok_def client_wire_def
      response_fresh_def)

lemma phase_others:
  assumes "phase_ok s" and "interferes s w'"
  shows "phase_ok (fst s, w')"
proof -
  have k: "client_known (fst s, w')" and wire: "client_wire (fst s, w') = client_wire s"
    using assms(2) phase_known [OF assms(1)]
    by (auto simp: interferes_def client_known_def client_wire_def)
  have e: "engaged s \<Longrightarrow> engaged (fst s, w')" using k wire by (simp add: engaged_def)
  have l: "linked s \<Longrightarrow> linked (fst s, w')"
    using assms(2) by (auto simp: linked_def interferes_def)
  have a: "answered s \<Longrightarrow> answered (fst s, w')" using k wire by (simp add: answered_def)
  show ?thesis using assms(1) k wire e l a
    by (cases "state (fst s)") (auto simp: phase_ok_def)
qed

lemma phase_pending: "phase_ok (c\<lparr>pending_backend_unregister := x\<rparr>, w) = phase_ok (c, w)"
  by (cases "state c") (simp_all add: phase_ok_def client_known_def client_wire_def engaged_def linked_def
      attempts_ok_def response_fresh_def answered_def)

lemma phase_step: "phase_ok s \<Longrightarrow> session_step s s' \<Longrightarrow> phase_ok s'"
proof (erule session_stepE)
  fix ev io
  assume s: "phase_ok s"
  show "phase_ok s'" if "handle ev io s = Some (Returned s')"
    using phase_handle [OF s that] by simp
  show "phase_ok s'" if "s' = set_state DONE r" "handle ev io s = Some (Raised r)" for r
    using phase_handle [OF s that(2)] that(1)
    by (simp add: phase_ok_def answered_def client_known_def client_wire_def)
qed (use phase_others phase_set_done phase_pending in \<open>auto\<close>)

lemma phase_run: "session_step\<^sup>*\<^sup>* s s' \<Longrightarrow> phase_ok s \<Longrightarrow> phase_ok s'"
  by (induction rule: rtranclp_induct) (auto intro: phase_step)

section \<open>The end of a connection\<close>

text \<open>A connection that is done stays as it is.\<close>

lemma handle_done: "state (fst s) = DONE \<Longrightarrow> handle ev io s = Some (Returned s)"
  by (cases s; cases ev) (simp_all add: handle_timeout_def handle_client_writable_def)

lemma held_finish: "held (fst (finish s)) b = 0"
proof -
  have "held (fst (notify_disconnect t)) b = 0" for t
    by (cases t) (auto simp: held_def split: option.splits)
  from this [of "log_request s"] show ?thesis by (simp add: finish_def held_def split: if_splits)
qed

lemma held_send_error: "held (fst (send_error io code reason s)) b = 0"
  by (simp add: send_error_def held_finish)

definition released :: "session \<Rightarrow> bool" where
  "released s \<longleftrightarrow> (state (fst s) = DONE \<longrightarrow> (\<forall>b. held (fst s) b = 0))"

interpretation release: connect_contract "\<lambda>_. True" "\<lambda>_. True" released "\<lambda>_. True"
  by unfold_locales (simp_all add: released_def held_send_error connected_at_once_def, simp add: begun_def)

lemma release_forward_some:
  "state (fst s) = FORWARDING_REQUEST \<Longrightarrow> outcome_ok released (\<lambda>_. True) (forward_some io s)"
  by (auto simp: forward_some_def Let_def released_def release.chain(2)
      split: option.splits send_result.splits)

lemma released_alive: "state (fst s) \<noteq> DONE \<Longrightarrow> released s"
  by (simp add: released_def)

lemma released_finish: "released (finish s)"
  by (simp add: released_def held_finish)

lemma released_send_error: "released (send_error io code reason s)"
  by (simp add: released_def held_send_error)

lemma release_client_readable:
  assumes "phase_ok (c, w)" and "state c = READING_REQUEST"
  shows "outcome_ok released (\<lambda>_. True) (handle_client_readable io (c, w))"
proof -
  have "backend_addr c = None" using assms by (simp add: phase_ok_def)
  then have idle: "released (c\<lparr>state := x\<rparr>, w)" for x by (simp add: released_def held_def)
  have fwd: "outcome_ok released (\<lambda>_. True) (forward_request io req s)" for req s
    by (cases s) (simp add: forward_request.simps Let_def released_send_error release.chain(1)
        split: option.splits prod.splits)
  have same: "released (c, w)" using assms(2) by (simp add: released_alive)
  show ?thesis
  proof (cases "io_recv io")
    case (Received data)
    let ?s = "refresh_deadline (c\<lparr>request_buf := request_buf c @ recv_data CLIENT_RECV_SIZE data\<rparr>, w)"
    have "released ?s" using assms(2) by (simp add: released_alive)
    with assms(2) Received idle fwd show ?thesis
      by (simp add: Let_def released_send_error case_prod_unfold split: option.splits)
  qed (use assms(2) idle same in simp_all)
qed

lemma check_complete_alive:
  "check_complete (c, w) = Some s' \<Longrightarrow> state c \<noteq> DONE \<Longrightarrow> state (fst s') \<noteq> DONE"
  by (auto simp: Let_def split: if_splits option.splits)

lemma release_backend_readable:
  assumes "state c = READING_RESPONSE" and "handle_backend_readable io (c, w) = Some r"
  shows "outcome_ok released (\<lambda>_. True) r"
proof (cases "backend_sock c")
  case (Some b)
  show ?thesis
  proof (cases "io_recv io")
    case (Received data)
    let ?d = "recv_data BACKEND_RECV_SIZE data"
    let ?s = "refresh_deadline (c\<lparr>response_buf := response_buf c @ ?d\<rparr>, w)"
    show ?thesis
    proof (cases "?d = []")
      case True
      have "released (prepare_relay (c, w))" by (simp add: released_alive)
      with True assms Some Received release.chain(2) show ?thesis
        by (auto simp: Let_def simp del: prepare_relay.simps split: if_splits option.splits)
    next
      case False
      with assms Some Received obtain s' where
        s': "check_complete (note_headers (note_status (fst ?s)), snd ?s) = Some s'" "r = Returned s'"
        by (auto simp: Let_def case_prod_unfold simp del: check_complete.simps)
      from check_complete_alive [OF s'(1)] s'(2) assms(1) show ?thesis by (simp add: released_alive)
    qed
  qed (use assms Some release.chain(2) in \<open>auto simp: released_alive\<close>)
qed (use assms in auto)

lemma release_handle:
  assumes "phase_ok s" and "state (fst s) \<noteq> DONE" and "handle ev io s = Some (Returned s')"
    and "ev = Client_writable \<Longrightarrow> io_send io \<noteq> Send_failed"
  shows "released s'"
proof (cases s)
  case (Pair c w)
  have same: "released (c, w)" using assms(2) Pair by (simp add: released_alive)
  show ?thesis
  proof (cases ev)
    case Client_readable
    with assms Pair release_client_readable [of c w io] same show ?thesis
      by (cases "state c = READING_REQUEST") auto
  next
    case Client_writable
    with assms(3,4) Pair assms(2) show ?thesis
      by (auto simp: handle_client_writable_def Let_def released_finish released_alive
          split: if_splits send_result.splits)
  next
    case Backend_readable
    with assms Pair release_backend_readable [of c io w] same show ?thesis
      by (cases "state c = READING_RESPONSE") auto
  next
    case Backend_writable
    have f: "outcome_ok released (\<lambda>_. True) (forward_some io (refresh_deadline (c\<lparr>state := FORWARDING_REQUEST\<rparr>, w)))"
      by (rule release_forward_some) simp
    have g: "state c = FORWARDING_REQUEST \<Longrightarrow> outcome_ok released (\<lambda>_. True) (forward_some io (c, w))"
      by (rule release_forward_some) simp
    have h: "outcome_ok released (\<lambda>_. True) (fail_backend io (c, w))" by (rule release.chain(2)) simp
    from Backend_writable assms(3) Pair same f g h show ?thesis
      by (auto split: if_splits option.splits)
  next
    case Expired
    have "held (fst (set_state DONE (notify_disconnect s))) b = 0" for b
      by (cases s) (auto simp: held_def split: option.splits)
    with Expired assms(2,3) show ?thesis
      by (auto simp: handle_timeout_def released_send_error simp del: set_state_simps split: if_splits)
        (simp add: released_def)
  qed
qed

section \<open>Accounting\<close>

lemma slots_prepare: "slots_ok f s \<Longrightarrow> slots_ok f (prepare_relay s)"
  by (cases s) (auto elim!: slots_same)

lemma slots_forward_request:
  assumes "slots_ok f (c, w)" and "backend_addr c = None"
  shows "outcome_ok (slots_ok f) (slots_ok f) (forward_request io req (c, w))"
proof -
  let ?req = "inject_forwarded_for req (fst (client_addr c))"
  let ?c = "c\<lparr>parsed_request := Some ?req, forward_buf := serialise_request ?req, forward_offset := 0\<rparr>"
  obtain ob w' where sel: "router_select None w = (ob, w')" by fastforce
  have c: "slots_ok f (?c, w)" using assms(1) by (rule slots_same) simp_all
  show ?thesis
  proof (cases ob)
    case None
    have "slots_ok f (?c, w')" by (rule slots_select_None [OF c]) (use sel None in simp)
    with sel None slots_send_error [OF this] show ?thesis
      by (simp add: forward_request.simps Let_def)
  next
    case (Some b)
    let ?c' = "?c\<lparr>backend_addr := Some b, backend_attempts := 1, disconnect_notified := False\<rparr>"
    have "slots_ok f (?c', w')"
      by (rule slots_select_Some [OF c]) (use sel Some assms(2) in auto)
    with slots.chain(1) sel Some show ?thesis by (simp add: forward_request.simps Let_def)
  qed
qed

lemma slots_forward_some:
  "slots_ok f s \<Longrightarrow> backend_addr (fst s) \<noteq> None \<Longrightarrow>
    outcome_ok (slots_ok f) (slots_ok f) (forward_some io s)"
  by (auto simp: forward_some_def Let_def elim: slots_same intro: slots.chain(2)
      split: option.splits send_result.splits)

lemma slots_check_complete:
  "slots_ok f (c, w) \<Longrightarrow> check_complete (c, w) = Some s' \<Longrightarrow> slots_ok f s'"
  by (auto simp: Let_def elim!: slots_same split: if_splits option.splits)

lemma slots_backend_readable:
  assumes "slots_ok f (c, w)" and "backend_addr c \<noteq> None" and "handle_backend_readable io (c, w) = Some r"
  shows "outcome_ok (slots_ok f) (slots_ok f) r"
proof (cases "state c = READING_RESPONSE \<and> backend_sock c \<noteq> None")
  case False
  with assms show ?thesis by (cases "backend_sock c") (auto split: if_splits)
next
  case True
  then obtain b where b: "state c = READING_RESPONSE" "backend_sock c = Some b" by auto
  note fail = slots.chain(2) [of f "(c, w)", simplified, OF conjI [OF assms(1) assms(2) [simplified]]]
  show ?thesis
  proof (cases "io_recv io")
    case (Received data)
    let ?d = "recv_data BACKEND_RECV_SIZE data"
    let ?s = "refresh_deadline (c\<lparr>response_buf := response_buf c @ ?d\<rparr>, w)"
    show ?thesis
    proof (cases "?d = []")
      case True
      with assms(3) b Received fail slots_prepare [OF assms(1)] show ?thesis
        by (auto simp: Let_def simp del: prepare_relay.simps split: if_splits option.splits)
    next
      case False
      with assms(3) b Received obtain s' where
        s': "check_complete (note_headers (note_status (fst ?s)), snd ?s) = Some s'" "r = Returned s'"
        by (auto simp: Let_def case_prod_unfold simp del: check_complete.simps)
      have "slots_ok f (note_headers (note_status (fst ?s)), snd ?s)"
        using assms(1) by (rule slots_same) simp_all
      from slots_check_complete [OF this s'(1)] s'(2) show ?thesis by simp
    qed
  qed (use assms b fail in auto)
qed

lemma slots_client_readable:
  assumes "slots_ok f (c, w)" and "backend_addr c = None"
  shows "outcome_ok (slots_ok f) (slots_ok f) (handle_client_readable io (c, w))"
proof (cases "io_recv io")
  case (Received data)
  let ?s = "refresh_deadline (c\<lparr>request_buf := request_buf c @ recv_data CLIENT_RECV_SIZE data\<rparr>, w)"
  have s: "slots_ok f ?s" using assms(1) by (rule slots_same) simp_all
  have "outcome_ok (slots_ok f) (slots_ok f) (forward_request io req ?s)" for req
    using slots_forward_request [of f "fst ?s" "snd ?s"] s assms(2) by simp
  moreover have "slots_ok f (c\<lparr>state := DONE\<rparr>, w)" using assms(1) by (rule slots_same) simp_all
  ultimately show ?thesis
    using assms(1) Received s slots_send_error [OF s]
    by (auto simp: Let_def case_prod_unfold split: option.splits)
qed (use assms(1) in \<open>auto elim: slots_same\<close>)

lemma slots_timeout: "slots_ok f s \<Longrightarrow> slots_ok f (handle_timeout io s)"
proof -
  assume s: "slots_ok f s"
  then have "slots_ok f (notify_disconnect s)" by (cases s) (simp only: slots_notify)
  then have "slots_ok f (set_state DONE (notify_disconnect s))" by (rule slots_same) simp_all
  with s show ?thesis by (simp add: handle_timeout_def slots_send_error)
qed

lemma slots_client_writable:
  assumes "slots_ok f s"
  shows "outcome_ok (slots_ok f) (slots_ok f) (handle_client_writable io s)"
proof -
  have "slots_ok f (send_relay n s)" for n using assms by (rule slots_same) simp_all
  with assms show ?thesis
    by (auto simp: handle_client_writable_def Let_def elim: slots_same intro: slots_finish
        split: send_result.splits)
qed

lemma slots_handle:
  assumes "phase_ok s" and "slots_ok f s" and "handle ev io s = Some r"
  shows "outcome_ok (slots_ok f) (slots_ok f) r"
proof (cases s)
  case (Pair c w)
  have none: "state c = READING_REQUEST \<Longrightarrow> backend_addr c = None"
    and some: "state c \<in> {CONNECTING_TO_BACKEND, FORWARDING_REQUEST, READING_RESPONSE} \<Longrightarrow> backend_addr c \<noteq> None"
    using assms(1) by (auto simp: Pair phase_ok_def engaged_def)
  have w: "outcome_ok (slots_ok f) (slots_ok f) (handle_backend_writable io (c, w))"
  proof -
    have "slots_ok f (refresh_deadline (c\<lparr>state := FORWARDING_REQUEST\<rparr>, w))"
      using assms(2) unfolding Pair by (rule slots_same) simp_all
    with slots_forward_some [OF this, of io] slots_forward_some [of f "(c, w)" io] assms(2) some
      slots.chain(2) [of f "(c, w)" io] show ?thesis
      by (auto simp: Pair split: option.splits)
  qed
  from assms(2,3) none some w show ?thesis
    using slots_client_readable [of f c w io] slots_backend_readable [of f c w io r]
      slots_client_writable [of f s io] slots_timeout [of f s io]
    by (cases ev; cases "state c") (auto simp: Pair)
qed

end
