(* ===== verification/Exchange.thy ===== *)
theory Exchange
  imports ConnectionRuns
begin

text \<open>
  Messages that arrive in pieces. The handlers look at the buffer after every piece and keep what
  they found in fields; what they decide is what one look at the whole buffer decides, so it does
  not depend on how the bytes were cut.
\<close>

section \<open>The response, seen at once\<close>

text \<open>
  Is the response in \<open>buf\<close> complete, and what of the buffer is it? \<open>None\<close> when the look at a chunked
  body never ends. A close-delimited response is never complete in this sense.
\<close>

definition framing :: "bytes \<Rightarrow> bytes option option" where
  "framing buf =
     (case find_sub HEADER_DELIM buf of
        None \<Rightarrow> Some None
      | Some i \<Rightarrow>
          if is_chunked_response buf = Some True
          then map_option (map_option (\<lambda>n. py_slice buf 0 (int (i + 4) + n)))
                 (try_consume_chunked_body (drop (i + 4) buf))
          else let n = get_response_content_length buf
               in if 0 \<le> n \<and> n \<le> int (length buf) - int (i + 4) then Some (Some buf) else Some None)"

text \<open>What the fields say agrees with the buffer.\<close>

definition noted :: "proxy_connection \<Rightarrow> bool" where
  "noted c \<longleftrightarrow>
     (response_headers_done c \<longleftrightarrow> find_sub HEADER_DELIM (response_buf c) \<noteq> None) \<and>
     (response_is_chunked c \<longleftrightarrow> is_chunked_response (response_buf c) = Some True) \<and>
     (response_headers_done c \<longrightarrow> response_content_length c =
        (if response_is_chunked c then - 1 else get_response_content_length (response_buf c)))"

lemma is_chunked_eq:
  "find_sub HEADER_DELIM buf = Some i \<Longrightarrow>
    is_chunked_response buf = Some (chunked_in_lines (tl (py_split LINE_DELIM (take i buf))))"
  "find_sub HEADER_DELIM buf = None \<Longrightarrow> is_chunked_response buf = None"
  by (simp_all add: is_chunked_response_def)

lemma response_length_eq:
  "find_sub HEADER_DELIM buf = Some i \<Longrightarrow>
    get_response_content_length buf = length_of_lines (tl (py_split LINE_DELIM (take i buf)))"
  by (simp add: get_response_content_length_def)

text \<open>The header section decides both, and does not change when more arrives.\<close>

lemma framing_header_stable:
  assumes "find_sub HEADER_DELIM buf = Some i"
  shows "find_sub HEADER_DELIM (buf @ d) = Some i" "is_chunked_response (buf @ d) = is_chunked_response buf"
    "get_response_content_length (buf @ d) = get_response_content_length buf"
  using assms find_sub_append [OF assms, of d] find_sub_bound [OF assms]
  by (simp_all add: is_chunked_eq response_length_eq)

lemma noted_fresh: "response_fresh c \<Longrightarrow> noted c"
  by (simp add: response_fresh_def noted_def is_chunked_response_def HEADER_DELIM_def py_find_def)

lemma note_status_other [simp]:
  "response_headers_done (note_status c) = response_headers_done c"
  "response_is_chunked (note_status c) = response_is_chunked c"
  "response_content_length (note_status c) = response_content_length c"
  by (simp_all add: note_status_def split: option.splits)

lemma refresh_response [simp]:
  "response_headers_done (fst (refresh_deadline s)) = response_headers_done (fst s)"
  "response_is_chunked (fst (refresh_deadline s)) = response_is_chunked (fst s)"
  "response_content_length (fst (refresh_deadline s)) = response_content_length (fst s)"
  by (cases s; simp add: refresh_deadline.simps monotonic_def split: option.splits)+

lemma noted_note_headers:
  assumes "noted c"
  shows "noted (note_headers (c\<lparr>response_buf := response_buf c @ d\<rparr>))"
proof (cases "find_sub HEADER_DELIM (response_buf c)")
  case (Some i)
  with assms framing_header_stable [OF Some, of d] show ?thesis
    by (simp add: noted_def note_headers_def)
next
  case None
  with assms have "\<not> response_headers_done c" "\<not> response_is_chunked c"
    by (simp_all add: noted_def is_chunked_eq)
  then show ?thesis
    by (cases "find_sub HEADER_DELIM (response_buf c @ d)")
      (simp_all add: noted_def note_headers_def Let_def is_chunked_eq)
qed

text \<open>The test for a complete response is the look at the whole buffer.\<close>

lemma check_complete_framing:
  assumes "noted c"
  shows "check_complete (c, w) =
    (case framing (response_buf c) of
       None \<Rightarrow> None
     | Some None \<Rightarrow>
         Some (if response_headers_done c \<and> \<not> response_is_chunked c
               then c\<lparr>response_body_received := int (length (response_buf c)) -
                 (py_find (response_buf c) HEADER_DELIM + 4)\<rparr> else c, w)
     | Some (Some b) \<Rightarrow>
         Some (prepare_relay
           (if response_is_chunked c then c\<lparr>response_buf := b\<rparr>
            else c\<lparr>response_body_received := int (length (response_buf c)) -
                 (py_find (response_buf c) HEADER_DELIM + 4)\<rparr>, w)))"
proof (cases "find_sub HEADER_DELIM (response_buf c)")
  case None
  with assms show ?thesis by (simp add: noted_def framing_def is_chunked_eq)
next
  case (Some i)
  note bound = find_sub_bound [OF Some]
  have idx: "int i + 4 = int (i + 4)" by simp
  have body: "py_slice_from (response_buf c) (int i + int (length HEADER_DELIM)) = drop (i + 4) (response_buf c)"
    unfolding delims(3) using py_slice_from_int [of "response_buf c" "i + 4"] by simp
  show ?thesis
  proof (cases "response_is_chunked c")
    case True
    with assms Some body show ?thesis
      by (simp add: noted_def framing_def Let_def delims(3) split: option.splits)
  next
    case False
    with assms Some body bound show ?thesis
      by (simp add: noted_def framing_def Let_def delims(3))
  qed
qed

section \<open>Feeding the response in pieces\<close>

text \<open>A piece is what one \<open>recv\<close> can return before the peer closes.\<close>

definition piece :: "int \<Rightarrow> bytes \<Rightarrow> bool" where
  "piece limit d \<longleftrightarrow> d \<noteq> [] \<and> int (length d) \<le> limit"

fun feed_backend :: "io \<Rightarrow> bytes list \<Rightarrow> session \<Rightarrow> session outcome option" where
  "feed_backend io [] s = Some (Returned s)"
| "feed_backend io (d # ds) s =
     (case handle_backend_readable (io\<lparr>io_recv := Received d\<rparr>) s of
        Some (Returned s') \<Rightarrow> feed_backend io ds s'
      | r \<Rightarrow> r)"

definition awaiting :: "bytes \<Rightarrow> session \<Rightarrow> bool" where
  "awaiting buf s \<longleftrightarrow> state (fst s) = READING_RESPONSE \<and> backend_sock (fst s) \<noteq> None \<and>
     noted (fst s) \<and> response_buf (fst s) = buf"

definition relaying :: "bytes \<Rightarrow> session \<Rightarrow> bool" where
  "relaying buf s \<longleftrightarrow> state (fst s) = FORWARDING_RESPONSE \<and> relay_buf (fst s) = buf \<and> relay_offset (fst s) = 0"

lemma refresh_relay [simp]: "relay_offset (fst (refresh_deadline s)) = relay_offset (fst s)"
  by (cases s; simp add: refresh_deadline.simps monotonic_def split: option.splits)

lemma relaying_prepare: "relaying (response_buf (fst s)) (prepare_relay s)"
  by (cases s) (simp add: relaying_def)

lemma note_status_noted: "noted (note_status c) = noted c"
  by (simp add: noted_def)

lemma note_status_buf: "note_status c = (note_status c)\<lparr>response_buf := response_buf c\<rparr>"
  by (simp add: note_status_def split: option.splits)

lemma handle_piece:
  assumes "awaiting buf s" and "piece BACKEND_RECV_SIZE d"
  shows "framing (buf @ d) = None \<Longrightarrow> handle_backend_readable (io\<lparr>io_recv := Received d\<rparr>) s = None"
    "framing (buf @ d) = Some None \<Longrightarrow> \<exists>s'. awaiting (buf @ d) s' \<and>
       handle_backend_readable (io\<lparr>io_recv := Received d\<rparr>) s = Some (Returned s')"
    "framing (buf @ d) = Some (Some b) \<Longrightarrow> \<exists>s'. relaying b s' \<and>
       handle_backend_readable (io\<lparr>io_recv := Received d\<rparr>) s = Some (Returned s')"
proof -
  obtain c w where s: "s = (c, w)" by (cases s)
  define r where "r = refresh_deadline (c\<lparr>response_buf := response_buf c @ d\<rparr>, w)"
  define c1 where "c1 = note_headers (note_status (fst r))"
  define w1 where "w1 = snd r"
  from assms obtain bs where st: "state c = READING_RESPONSE" "backend_sock c = Some bs" "response_buf c = buf"
    by (auto simp: awaiting_def s)
  have "recv_data BACKEND_RECV_SIZE d = d" "d \<noteq> []" using assms(2) by (auto simp: piece_def recv_data_def)
  with st have run: "handle_backend_readable (io\<lparr>io_recv := Received d\<rparr>) s =
      map_option Returned (check_complete (c1, w1))"
    by (simp add: s Let_def case_prod_unfold r_def c1_def w1_def del: check_complete.simps)
  have n: "noted c1"
  proof -
    let ?c0 = "(note_status (fst r))\<lparr>response_buf := buf\<rparr>"
    have "noted ?c0" using assms(1) by (simp add: awaiting_def s noted_def r_def)
    moreover have "note_status (fst r) = ?c0\<lparr>response_buf := response_buf ?c0 @ d\<rparr>"
      using st(3) by (subst note_status_buf) (simp add: r_def)
    ultimately show ?thesis using noted_note_headers [of ?c0 d] by (simp add: c1_def)
  qed
  have b: "response_buf c1 = buf @ d" "state c1 = READING_RESPONSE" "backend_sock c1 = Some bs"
    using st by (simp_all add: c1_def r_def)
  note complete = check_complete_framing [OF n, of w1, unfolded b(1)]
  show "framing (buf @ d) = None \<Longrightarrow> handle_backend_readable (io\<lparr>io_recv := Received d\<rparr>) s = None"
    by (simp add: run complete del: check_complete.simps handle_backend_readable.simps)
  have aw: "awaiting (buf @ d) (c1\<lparr>response_body_received := k\<rparr>, w1)" "awaiting (buf @ d) (c1, w1)" for k
    using n b by (simp_all add: awaiting_def noted_def)
  show "\<exists>s'. awaiting (buf @ d) s' \<and>
       handle_backend_readable (io\<lparr>io_recv := Received d\<rparr>) s = Some (Returned s')"
    if "framing (buf @ d) = Some None"
    unfolding run complete that using aw by auto
  have whole: "b = buf @ d" if "framing (buf @ d) = Some (Some b)" "\<not> response_is_chunked c1"
    using that n b(1) by (auto simp: framing_def noted_def Let_def split: option.splits if_splits)
  show "\<exists>s'. relaying b s' \<and>
       handle_backend_readable (io\<lparr>io_recv := Received d\<rparr>) s = Some (Returned s')"
    if f: "framing (buf @ d) = Some (Some b)"
    using whole [OF f] relaying_prepare [of "(c1\<lparr>response_buf := b\<rparr>, w1)"]
      relaying_prepare [of "(c1\<lparr>response_body_received := int (length (buf @ d)) -
        (py_find (buf @ d) HEADER_DELIM + 4)\<rparr>, w1)"] b(1)
    unfolding run complete f
    by (cases "response_is_chunked c1") (simp_all del: prepare_relay.simps split_paired_Ex)
qed

lemma feed_incomplete:
  "awaiting buf s \<Longrightarrow> \<forall>d \<in> set ds. piece BACKEND_RECV_SIZE d \<Longrightarrow>
    (\<And>xs. prefix xs ds \<Longrightarrow> xs \<noteq> [] \<Longrightarrow> framing (buf @ concat xs) = Some None) \<Longrightarrow>
    \<exists>s'. feed_backend io ds s = Some (Returned s') \<and> awaiting (buf @ concat ds) s'"
proof (induction ds arbitrary: buf s)
  case (Cons d ds)
  have "framing (buf @ d) = Some None" using Cons.prems(3) [of "[d]"] by simp
  moreover have "piece BACKEND_RECV_SIZE d" using Cons.prems(2) by simp
  ultimately obtain s' where
    s': "awaiting (buf @ d) s'" "handle_backend_readable (io\<lparr>io_recv := Received d\<rparr>) s = Some (Returned s')"
    using handle_piece(2) [OF Cons.prems(1)] by blast
  have "\<exists>t. feed_backend io ds s' = Some (Returned t) \<and> awaiting ((buf @ d) @ concat ds) t"
    by (rule Cons.IH [OF s'(1)]) (use Cons.prems(2) Cons.prems(3) [of "d # xs" for xs] in auto)
  with s'(2) show ?case by (simp del: handle_backend_readable.simps)
qed simp

lemma feed_append:
  "feed_backend io (xs @ ys) s =
    (case feed_backend io xs s of Some (Returned s') \<Rightarrow> feed_backend io ys s' | r \<Rightarrow> r)"
  by (induction xs arbitrary: s) (auto split: option.splits outcome.splits)

lemma feed_message:
  assumes "awaiting [] s" and "\<forall>d \<in> set ds. piece BACKEND_RECV_SIZE d" and "concat ds = msg" "msg \<noteq> []"
    and part: "\<And>q. strict_prefix q msg \<Longrightarrow> framing q = Some None" and all: "framing msg = Some (Some msg)"
  shows "\<exists>s'. feed_backend io ds s = Some (Returned s') \<and> relaying msg s'"
    and "ds = xs @ d # ys \<Longrightarrow> \<exists>s'. feed_backend io xs s = Some (Returned s') \<and> awaiting (concat xs) s'"
proof -
  have before: "\<exists>s'. feed_backend io xs s = Some (Returned s') \<and> awaiting (concat xs) s'"
    if ds: "ds = xs @ d # ys" for xs d ys
  proof -
    have "strict_prefix (concat zs) msg" if z: "prefix zs xs" for zs
    proof -
      from z obtain u where "xs = zs @ u" by (auto elim: prefixE)
      with ds assms(2,3) show ?thesis by (auto simp: strict_prefix_def piece_def)
    qed
    with feed_incomplete [OF assms(1), of xs io] assms(2) ds part show ?thesis by auto
  qed
  then show "ds = xs @ d # ys \<Longrightarrow> \<exists>s'. feed_backend io xs s = Some (Returned s') \<and> awaiting (concat xs) s'" .
  from assms(3,4) obtain xs d where ds: "ds = xs @ [d]" by (cases ds rule: rev_cases) auto
  with before [of xs d "[]"] obtain s' where
    s': "feed_backend io xs s = Some (Returned s')" "awaiting (concat xs) s'" by auto
  have "framing (concat xs @ d) = Some (Some msg)" using all assms(3) ds by simp
  moreover have "piece BACKEND_RECV_SIZE d" using assms(2) ds by simp
  ultimately obtain t where
    "relaying msg t" "handle_backend_readable (io\<lparr>io_recv := Received d\<rparr>) s' = Some (Returned t)"
    using handle_piece(3) [OF s'(2)] by blast
  then show "\<exists>s'. feed_backend io ds s = Some (Returned s') \<and> relaying msg s'"
    using s'(1) ds by (simp add: feed_append del: handle_backend_readable.simps)
qed

section \<open>Messages with a length, chunked messages\<close>

definition head_ok :: "bytes \<Rightarrow> bool" where
  "head_ok head \<longleftrightarrow> find_sub HEADER_DELIM head = Some (length head - 4) \<and> 4 \<le> length head"

lemma framing_in_head:
  assumes "head_ok head" and "strict_prefix q head"
  shows "framing q = Some None"
proof -
  have "find_sub HEADER_DELIM q = None"
    using assms by (intro strict_prefix_find [of _ head "length head - 4"]) (auto simp: head_ok_def delims)
  then show ?thesis by (simp add: framing_def)
qed

lemma head_find: "head_ok head \<Longrightarrow> find_sub HEADER_DELIM (head @ q) = Some (length head - 4)"
  using framing_header_stable(1) by (auto simp: head_ok_def)

lemma head_length: "head_ok head \<Longrightarrow> length head - 4 + 4 = length head"
  by (simp add: head_ok_def)

lemma head_stable:
  assumes "head_ok head"
  shows "is_chunked_response (head @ q) = is_chunked_response head"
    "get_response_content_length (head @ q) = get_response_content_length head"
  using assms framing_header_stable(2,3) by (auto simp: head_ok_def)

lemma framing_length:
  assumes "head_ok head" and "is_chunked_response head = Some False"
    and "get_response_content_length head = int (length body)"
  shows "framing (head @ body) = Some (Some (head @ body))"
    and "strict_prefix q (head @ body) \<Longrightarrow> framing q = Some None"
proof -
  show "framing (head @ body) = Some (Some (head @ body))"
    using assms head_length [OF assms(1)] head_find [OF assms(1), of body] head_stable [OF assms(1), of body]
    by (simp add: framing_def)
  assume "strict_prefix q (head @ body)"
  then show "framing q = Some None"
  proof (cases rule: strict_prefix_append)
    case 1
    with assms(1) show ?thesis by (rule framing_in_head)
  next
    case (2 d)
    with prefix_length_less [OF 2(2)] assms head_length [OF assms(1)] head_find [OF assms(1), of d] head_stable [OF assms(1), of d]
    show ?thesis by (simp add: framing_def)
  qed
qed

lemma framing_chunked:
  assumes "head_ok head" and "is_chunked_response head = Some True"
    and "\<forall>c \<in> set cs. chunk_ok c" and "trailers_ok ts"
  shows "framing (head @ encode_chunked cs ts) = Some (Some (head @ encode_chunked cs ts))"
    and "strict_prefix q (head @ encode_chunked cs ts) \<Longrightarrow> framing q = Some None"
proof -
  let ?b = "encode_chunked cs ts"
  have "\<not> sublist HEADER_DELIM (LINE_DELIM @ [])" by (simp add: HEADER_DELIM_def LINE_DELIM_def sublist_Cons_right)
  then have "try_consume_chunked_body ?b = Some (Some (int (length ?b)))"
    using consume_encoded [OF assms(3,4), of "[]"] by simp
  moreover have "py_slice (head @ ?b) 0 (int (length head) + int (length ?b)) = head @ ?b"
    using py_slice_prefix [of "head @ ?b" "length head + length ?b"] by simp
  ultimately show "framing (head @ ?b) = Some (Some (head @ ?b))"
    using assms(2) head_length [OF assms(1)] head_find [OF assms(1), of ?b] head_stable [OF assms(1), of ?b]
    by (simp add: framing_def)
  assume "strict_prefix q (head @ encode_chunked cs ts)"
  then show "framing q = Some None"
  proof (cases rule: strict_prefix_append)
    case 1
    with assms(1) show ?thesis by (rule framing_in_head)
  next
    case (2 d)
    with consume_partial [OF assms(3,4), of d "[]"] assms(2) head_length [OF assms(1)] head_find [OF assms(1), of d]
      head_stable [OF assms(1), of d]
    show ?thesis by (simp add: framing_def try_consume_chunked_body_def encode_chunked_def)
  qed
qed

section \<open>Feeding the request in pieces\<close>

fun feed_client :: "io \<Rightarrow> bytes list \<Rightarrow> session \<Rightarrow> session outcome" where
  "feed_client io [] s = Returned s"
| "feed_client io (d # ds) s =
     and_then (handle_client_readable (io\<lparr>io_recv := Received d\<rparr>) s) (feed_client io ds)"

definition reading :: "bytes \<Rightarrow> session \<Rightarrow> bool" where
  "reading buf s \<longleftrightarrow> state (fst s) = READING_REQUEST \<and> request_buf (fst s) = buf"

lemma refresh_client_addr [simp]: "client_addr (fst (refresh_deadline s)) = client_addr (fst s)"
  by (cases s; simp add: refresh_deadline.simps monotonic_def split: option.splits)

text \<open>What collecting leaves alone.\<close>

definition undisturbed :: "session \<Rightarrow> session \<Rightarrow> bool" where
  "undisturbed s t \<longleftrightarrow> client_addr (fst t) = client_addr (fst s) \<and>
     w_router (snd t) = w_router (snd s) \<and> w_log (snd t) = w_log (snd s) \<and> (phase_ok s \<longrightarrow> phase_ok t)"

lemma undisturbed_trans: "undisturbed s t \<Longrightarrow> undisturbed t u \<Longrightarrow> undisturbed s u"
  by (simp add: undisturbed_def)

lemma client_piece:
  assumes "reading buf s" and "piece CLIENT_RECV_SIZE d" and "int (length (buf @ d)) \<le> MAX_REQUEST_SIZE"
  shows "\<exists>s'. reading (buf @ d) s' \<and> undisturbed s s' \<and>
    handle_client_readable (io\<lparr>io_recv := Received d\<rparr>) s =
    (case try_parse_request (buf @ d) of
       None \<Rightarrow> Returned s' | Some req \<Rightarrow> forward_request (io\<lparr>io_recv := Received d\<rparr>) req s')"
proof -
  obtain c w where s: "s = (c, w)" by (cases s)
  define r where "r = refresh_deadline (c\<lparr>request_buf := request_buf c @ d\<rparr>, w)"
  have st: "state c = READING_REQUEST" "request_buf c = buf" using assms(1) by (simp_all add: reading_def s)
  have ok: "phase_ok r" if "phase_ok (c, w)"
    by (rule phase_reading_same [OF that]) (simp_all add: r_def st, simp add: response_fresh_def)
  have "recv_data CLIENT_RECV_SIZE d = d" "d \<noteq> []" using assms(2) by (auto simp: piece_def recv_data_def)
  moreover have "\<not> MAX_REQUEST_SIZE < int (length (request_buf (fst r)))"
    using assms(3) st by (simp add: r_def)
  ultimately have "handle_client_readable (io\<lparr>io_recv := Received d\<rparr>) s =
    (case try_parse_request (buf @ d) of
       None \<Rightarrow> Returned r | Some req \<Rightarrow> forward_request (io\<lparr>io_recv := Received d\<rparr>) req r)"
    using st by (simp add: s Let_def case_prod_unfold r_def split: option.splits)
  moreover have "reading (buf @ d) r" "undisturbed s r"
    using st ok by (simp_all add: reading_def undisturbed_def r_def s)
  ultimately show ?thesis by blast
qed

text \<open>What was asked stays what is forwarded, whatever becomes of the attempts.\<close>

definition asked :: "bytes \<Rightarrow> session \<Rightarrow> bool" where
  "asked buf s \<longleftrightarrow> forward_buf (fst s) = buf"

lemma asked_ops [simp]:
  "asked buf (refresh_deadline s) = asked buf s" "asked buf (set_state x s) = asked buf s"
  "asked buf (open_backend s) = asked buf s" "asked buf (drop_backend s) = asked buf s"
  "asked buf (retry_reset b c, w) = asked buf (c, w)" "asked buf (notify_disconnect s) = asked buf s"
  by (simp_all add: asked_def retry_reset_def)

lemma asked_send_error [simp]: "asked buf (send_error io code reason s) = asked buf s"
  by (cases s) (simp add: send_error_def finish_def, simp add: asked_def split: option.splits)

lemma asked_pair [simp]: "asked buf (fst s, w) = asked buf s"
  by (simp add: asked_def)

interpretation asking: connect_contract "asked buf" "asked buf" "asked buf" "asked buf" for buf
  by unfold_locales (simp_all add: begun_def connected_at_once_def)

lemma forward_request_asked:
  "outcome_ok (asked (serialise_request (inject_forwarded_for req (fst (client_addr (fst s))))))
    (asked (serialise_request (inject_forwarded_for req (fst (client_addr (fst s))))))
    (forward_request io req s)"
proof (cases s)
  case (Pair c w)
  let ?req = "inject_forwarded_for req (fst (client_addr c))"
  let ?c = "c\<lparr>parsed_request := Some ?req, forward_buf := serialise_request ?req, forward_offset := 0\<rparr>"
  have "asked (serialise_request ?req) (?c\<lparr>backend_addr := Some b, backend_attempts := 1,
      disconnect_notified := False\<rparr>, w')" "asked (serialise_request ?req) (?c, w')" for b w'
    by (simp_all add: asked_def)
  with asking.chain(1) show ?thesis
    by (simp add: Pair forward_request.simps Let_def split: option.splits prod.splits)
qed

lemma outcome_ok_final: "outcome_ok P P r \<Longrightarrow> P (final r)"
  by (cases r) simp_all

lemma feed_client_reading:
  "reading buf s \<Longrightarrow> \<forall>d \<in> set ds. piece CLIENT_RECV_SIZE d \<Longrightarrow>
    int (length (buf @ concat ds)) \<le> MAX_REQUEST_SIZE \<Longrightarrow>
    (\<And>xs. prefix xs ds \<Longrightarrow> xs \<noteq> [] \<Longrightarrow> try_parse_request (buf @ concat xs) = None) \<Longrightarrow>
    \<exists>s'. feed_client io ds s = Returned s' \<and> reading (buf @ concat ds) s' \<and>
      undisturbed s s'"
proof (induction ds arbitrary: buf s)
  case (Cons d ds)
  have "try_parse_request (buf @ d) = None" using Cons.prems(4) [of "[d]"] by simp
  moreover have "piece CLIENT_RECV_SIZE d" "int (length (buf @ d)) \<le> MAX_REQUEST_SIZE"
    using Cons.prems(2,3) by auto
  ultimately obtain s' where
    s': "reading (buf @ d) s'" "handle_client_readable (io\<lparr>io_recv := Received d\<rparr>) s = Returned s'"
      "undisturbed s s'"
    using client_piece [OF Cons.prems(1), of d io] by auto
  have "\<exists>t. feed_client io ds s' = Returned t \<and> reading ((buf @ d) @ concat ds) t \<and>
      undisturbed s' t"
    by (rule Cons.IH [OF s'(1)]) (use Cons.prems(2,3) Cons.prems(4) [of "d # xs" for xs] in auto)
  with s'(2,3) undisturbed_trans show ?case by fastforce
qed (simp add: undisturbed_def)

lemma feed_client_append:
  "feed_client io (xs @ ys) s = and_then (feed_client io xs s) (feed_client io ys)"
proof (induction xs arbitrary: s)
  case (Cons d xs)
  then show ?case
    by (cases "handle_client_readable (io\<lparr>io_recv := Received d\<rparr>) s")
      (simp_all del: handle_client_readable.simps)
qed simp

lemma feed_client_Nil [simp]: "feed_client io [] = Returned"
  by (simp add: fun_eq_iff)

lemma and_then_Returned [simp]: "and_then r Returned = r"
  by (cases r) simp_all

lemma serialise_inject_raw [simp]:
  "serialise_request (inject_forwarded_for (req\<lparr>req_raw_header_bytes := raw, req_header_length := n\<rparr>) ip) =
    serialise_request (inject_forwarded_for req ip)"
  by (simp add: serialise_request_def request_line_def inject_eq)

lemma feed_request:
  assumes "reading [] s" and pieces: "\<forall>d \<in> set ds. piece CLIENT_RECV_SIZE d" and wf: "wf_request req"
    and msg: "concat ds = serialise_request req"
    and small: "int (length (serialise_request req)) \<le> MAX_REQUEST_SIZE"
  shows "ds = xs @ d # ys \<Longrightarrow> \<exists>s'. feed_client io xs s = Returned s' \<and> reading (concat xs) s' \<and> undisturbed s s'"
    and "\<exists>t raw n d. feed_client io ds s = forward_request (io\<lparr>io_recv := Received d\<rparr>)
        (req\<lparr>req_raw_header_bytes := raw, req_header_length := n\<rparr>) t \<and> undisturbed s t \<and>
      state (fst t) = READING_REQUEST"
proof -
  have before: "\<exists>s'. feed_client io xs s = Returned s' \<and> reading (concat xs) s' \<and> undisturbed s s'"
    if ds: "ds = xs @ d # ys" for xs d ys
  proof -
    have "strict_prefix (concat zs) (serialise_request req)" if z: "prefix zs xs" for zs
    proof -
      from z obtain u where "xs = zs @ u" by (auto elim: prefixE)
      with ds pieces msg [symmetric] show ?thesis by (auto simp: strict_prefix_def piece_def)
    qed
    moreover have "int (length (concat xs)) \<le> MAX_REQUEST_SIZE"
      using small msg [symmetric] ds by simp
    ultimately show ?thesis
      using feed_client_reading [OF assms(1), of xs io] pieces ds parse_incomplete [OF wf] by auto
  qed
  then show "ds = xs @ d # ys \<Longrightarrow> \<exists>s'. feed_client io xs s = Returned s' \<and> reading (concat xs) s' \<and> undisturbed s s'" .
  from msg serialise_nonempty [of req] obtain xs d where ds: "ds = xs @ [d]" by (cases ds rule: rev_cases) auto
  with before [of xs d "[]"] obtain s' where s': "feed_client io xs s = Returned s'"
    "reading (concat xs) s'" "undisturbed s s'" by auto
  obtain raw n where parsed: "try_parse_request (concat xs @ d) =
      Some (req\<lparr>req_raw_header_bytes := raw, req_header_length := n\<rparr>)"
    using parse_complete [OF wf] msg ds by auto
  have "piece CLIENT_RECV_SIZE d" "int (length (concat xs @ d)) \<le> MAX_REQUEST_SIZE"
    using pieces small msg [symmetric] ds by auto
  from client_piece [OF s'(2) this, of io] parsed obtain t where
    t: "undisturbed s' t" "reading (concat xs @ d) t"
      "handle_client_readable (io\<lparr>io_recv := Received d\<rparr>) s' = forward_request (io\<lparr>io_recv := Received d\<rparr>)
        (req\<lparr>req_raw_header_bytes := raw, req_header_length := n\<rparr>) t" by auto
  have "feed_client io ds s = forward_request (io\<lparr>io_recv := Received d\<rparr>)
        (req\<lparr>req_raw_header_bytes := raw, req_header_length := n\<rparr>) t"
    using s'(1) t(3) by (simp add: ds feed_client_append del: handle_client_readable.simps)
  then show "\<exists>t raw n d. feed_client io ds s = forward_request (io\<lparr>io_recv := Received d\<rparr>)
        (req\<lparr>req_raw_header_bytes := raw, req_header_length := n\<rparr>) t \<and> undisturbed s t \<and>
      state (fst t) = READING_REQUEST"
    using undisturbed_trans [OF s'(3) t(1)] t(2) by (fastforce simp: reading_def)
qed

lemma feed_request_asked:
  assumes "reading [] s" and "\<forall>d \<in> set ds. piece CLIENT_RECV_SIZE d" and "wf_request req"
    and "concat ds = serialise_request req" and "int (length (serialise_request req)) \<le> MAX_REQUEST_SIZE"
  shows "forward_buf (fst (final (feed_client io ds s))) =
      serialise_request (inject_forwarded_for req (fst (client_addr (fst s))))"
proof -
  from feed_request(2) [OF assms, of io] obtain t raw n d where
    "feed_client io ds s = forward_request (io\<lparr>io_recv := Received d\<rparr>)
        (req\<lparr>req_raw_header_bytes := raw, req_header_length := n\<rparr>) t" "undisturbed s t" by blast
  with outcome_ok_final [OF forward_request_asked] show ?thesis
    by (simp add: asked_def undisturbed_def) 
qed

end
