(* ===== verification/Logged.thy ===== *)
theory Logged
  imports ConnectionRuns
begin

text \<open>
  What a connection writes to the access log: nothing until it ends, and then at most one record,
  of the request it has parsed and the backend it was last given.
\<close>

definition silent :: "session \<Rightarrow> session \<Rightarrow> bool" where
  "silent s t \<longleftrightarrow> w_log (snd t) = w_log (snd s)"

definition logs_once :: "session \<Rightarrow> session \<Rightarrow> bool" where
  "logs_once s t \<longleftrightarrow> silent s t \<or>
     (state (fst t) = DONE \<and>
      (\<exists>req b latency. parsed_request (fst t) = Some req \<and> backend_addr (fst t) = Some b \<and>
         w_log (snd t) = w_log (snd s) @ [log_record (fst t) req b latency]))"

lemma silent_logs: "silent s t \<Longrightarrow> logs_once s t"
  by (simp add: logs_once_def)

lemma silent_refl [simp]: "silent s s"
  by (simp add: silent_def)

lemma silent_cong: "w_log (snd t') = w_log (snd t) \<Longrightarrow> silent s t' = silent s t"
  by (simp add: silent_def)

lemma logs_after: "silent s t \<Longrightarrow> logs_once t u \<Longrightarrow> logs_once s u"
  by (simp add: logs_once_def silent_def)

lemma log_kept [simp]:
  "w_log (snd (notify_disconnect s)) = w_log (snd s)"
  "w_log (snd (close_backend s)) = w_log (snd s)"
  "w_log (snd (open_backend s)) = w_log (snd s)"
  "w_log (snd (send_page io page s)) = w_log (snd s)"
  by (cases s; auto simp: router_release_def close_socket_def new_socket_def transmit_def split: option.splits)+

lemma log_drop [simp]: "w_log (snd (drop_backend s)) = w_log (snd s)"
  by (simp add: drop_backend_def)

lemma log_select: "router_select ex w = (b, w') \<Longrightarrow> w_log w' = w_log w"
  by (erule router_selectE) simp

lemma notify_record:
  "log_record (fst (notify_disconnect s)) req b latency = log_record (fst s) req b latency"
  "parsed_request (fst (notify_disconnect s)) = parsed_request (fst s)"
  by (cases s; auto simp: log_record_def split: option.splits)+

lemma logs_finish: "logs_once s (finish s)"
proof -
  let ?t = "log_request s"
  have "log_record ((fst (notify_disconnect ?t))\<lparr>state := DONE\<rparr>) req b latency = log_record (fst s) req b latency" for req b latency
    using notify_record(1) [of ?t req b latency] by (simp add: log_record_def)
  moreover have "w_log (snd ?t) = w_log (snd s) \<or>
      (\<exists>req b latency. parsed_request (fst s) = Some req \<and> backend_addr (fst s) = Some b \<and>
         w_log (snd ?t) = w_log (snd s) @ [log_record (fst s) req b latency])"
    by (cases s) (auto simp: monotonic_def access_log_def split: option.splits)
  ultimately show ?thesis
    by (auto simp: logs_once_def silent_def finish_def notify_record)
qed

lemma logs_error: "logs_once s (send_error io code reason s)"
proof -
  have "silent s (apfst (response_status_update (\<lambda>_. Some code)) (send_page io (error_page code reason) s))"
    by (simp add: silent_def)
  from logs_after [OF this logs_finish] show ?thesis by (simp add: send_error_def)
qed

interpretation logging: connect_contract "silent s" "silent s" "logs_once s" "logs_once s" for s
proof unfold_locales
  fix t b w io
  assume t: "silent s t"
  show "logs_once s (begun t)" "logs_once s (open_backend (begun t))" "logs_once s (connected_at_once t)"
    "silent s (open_backend (begun t))"
    using t by (simp_all add: logs_once_def silent_def begun_def connected_at_once_def)
  have d: "silent s (drop_backend t)" using t by (simp add: silent_def)
  show "logs_once s (send_error io 502 ''Bad Gateway'' (drop_backend t))"
    by (rule logs_after [OF d logs_error])
  let ?sel = "router_select (Some (tried_backends (fst (drop_backend t)))) (snd (drop_backend t))"
  have sel: "silent s (c, w)" if "?sel = (ob, w)" for ob c
    using log_select [OF that] t by (simp add: silent_def)
  show "logs_once s (send_error io 502 ''Bad Gateway'' (fst (drop_backend t), w))" if "?sel = (None, w)"
    by (rule logs_after [OF sel [OF that] logs_error])
  show "silent s (retry_reset b (fst (drop_backend t)), w)" if "?sel = (Some b, w)"
    by (rule sel [OF that])
qed

abbreviation logs_outcome :: "session \<Rightarrow> session outcome \<Rightarrow> bool" where
  "logs_outcome s \<equiv> outcome_ok (logs_once s) (logs_once s)"

lemma logs_forward_request: "silent s (c, w) \<Longrightarrow> logs_outcome s (forward_request io req (c, w))"
proof -
  assume s: "silent s (c, w)"
  obtain ob w' where sel: "router_select None w = (ob, w')" by fastforce
  have s': "silent s (d, w')" for d using s log_select [OF sel] by (simp add: silent_def)
  show ?thesis using logs_after [OF s' logs_error] logging.chain(1) [OF s']
    by (cases ob) (simp_all add: forward_request.simps Let_def sel)
qed

lemma logs_client_readable: "logs_outcome (c, w) (handle_client_readable io (c, w))"
proof (cases "state c = READING_REQUEST")
  case True
  show ?thesis
  proof (cases "io_recv io")
    case (Received data)
    let ?s = "refresh_deadline (c\<lparr>request_buf := request_buf c @ recv_data CLIENT_RECV_SIZE data\<rparr>, w)"
    have "silent (c, w) ?s" by (simp add: silent_def)
    with True Received logs_forward_request [of "(c, w)" "fst ?s" "snd ?s"] logs_after [OF _ logs_error]
    show ?thesis by (simp add: Let_def case_prod_unfold silent_logs silent_def split: option.splits)
  qed (use True in \<open>simp_all add: silent_logs silent_def\<close>)
qed (simp add: silent_logs)

lemma log_sent [simp]: "w_log (snd (send_forward b n s)) = w_log (snd s)" "w_log (snd (send_relay n s)) = w_log (snd s)"
  by (simp_all add: send_forward_def send_relay_def Let_def transmit_def)

lemma logs_forward_some: "silent s t \<Longrightarrow> logs_outcome s (forward_some io t)"
  using logging.chain(2) [of s t io]
  by (auto simp: forward_some_def Let_def silent_logs silent_def logs_once_def split: option.splits send_result.splits)

lemma logs_backend_writable: "logs_outcome s (handle_backend_writable io s)"
proof (cases s)
  case (Pair c w)
  have "silent s (refresh_deadline (c\<lparr>state := FORWARDING_REQUEST\<rparr>, w))" by (simp add: silent_def Pair)
  with logs_forward_some [of s] logging.chain(2) [of s s] show ?thesis
    by (auto simp: Pair silent_logs split: option.splits)
qed

lemma log_prepare [simp]: "w_log (snd (prepare_relay s)) = w_log (snd s)"
  by (cases s) simp

lemma log_check: "check_complete (c, w) = Some t \<Longrightarrow> w_log (snd t) = w_log w"
  by (auto simp: Let_def split: if_splits option.splits)

lemma logs_backend_readable:
  assumes "handle_backend_readable io (c, w) = Some r"
  shows "logs_outcome (c, w) r"
proof (cases "state c = READING_RESPONSE \<and> backend_sock c \<noteq> None")
  case False
  with assms show ?thesis by (cases "backend_sock c") (auto simp: silent_logs split: if_splits)
next
  case True
  then obtain b where b: "state c = READING_RESPONSE" "backend_sock c = Some b" by auto
  note fail = logging.chain(2) [OF silent_refl, of "(c, w)" io]
  have relay: "logs_once (c, w) (prepare_relay (c, w))" by (simp add: silent_logs silent_def del: prepare_relay.simps)
  show ?thesis
  proof (cases "io_recv io")
    case (Received data)
    let ?d = "recv_data BACKEND_RECV_SIZE data"
    let ?s = "refresh_deadline (c\<lparr>response_buf := response_buf c @ ?d\<rparr>, w)"
    show ?thesis
    proof (cases "?d = []")
      case True
      with assms b Received fail relay show ?thesis
        by (auto simp: Let_def simp del: prepare_relay.simps split: if_splits option.splits)
    next
      case False
      with assms b Received obtain t where
        t: "check_complete (note_headers (note_status (fst ?s)), snd ?s) = Some t" "r = Returned t"
        by (auto simp: Let_def case_prod_unfold simp del: check_complete.simps)
      from log_check [OF t(1)] t(2) show ?thesis by (simp add: silent_logs silent_def)
    qed
  qed (use assms b fail in \<open>auto simp: silent_logs\<close>)
qed

lemma logs_client_writable: "logs_outcome s (handle_client_writable io s)"
proof -
  have "silent s (send_relay n s)" for n by (simp add: silent_def)
  with logs_after [OF _ logs_finish] show ?thesis
    by (auto simp: handle_client_writable_def Let_def silent_logs split: send_result.splits)
      (simp add: silent_logs silent_def)
qed

lemma logs_timeout: "logs_once s (handle_timeout io s)"
  using logs_error by (simp add: handle_timeout_def silent_logs silent_def)

text \<open>A handler writes at most one record, and only when it ends the connection.\<close>

lemma logs_handle:
  assumes "handle ev io s = Some r"
  shows "logs_once s (final r)"
proof (cases s)
  case (Pair c w)
  have o: "logs_once t (final x)" if "logs_outcome t x" for t x using that by (cases x) simp_all
  show ?thesis
  proof (cases ev)
    case Expired
    with assms have "r = Returned (handle_timeout io s)" by simp
    with logs_timeout show ?thesis by simp
  next
    case Client_readable
    with assms Pair have "r = handle_client_readable io (c, w)" by (simp del: handle_client_readable.simps)
    with logs_client_readable [of c w io] Pair show ?thesis by (simp add: o del: handle_client_readable.simps)
  next
    case Client_writable
    with assms show ?thesis by (auto intro: o [OF logs_client_writable])
  next
    case Backend_readable
    with assms Pair have "handle_backend_readable io (c, w) = Some r" by (simp del: handle_backend_readable.simps)
    from logs_backend_readable [OF this] Pair show ?thesis by (simp add: o)
  next
    case Backend_writable
    with assms show ?thesis by (auto intro: o [OF logs_backend_writable] simp del: handle_backend_writable.simps)
  qed
qed

section \<open>Among other connections\<close>

text \<open>
  The events of one connection, each with the world it finds, which other connections may have changed
  in any way: the records it writes, and how it ends. An exception ends it, as in the reactor.
\<close>

fun caught :: "session outcome \<Rightarrow> session" where
  "caught (Returned s) = s"
| "caught (Raised s) = set_state DONE s"

fun attend :: "(event \<times> io \<times> world) list \<Rightarrow> session \<Rightarrow> access_record list \<times> session" where
  "attend [] s = ([], s)"
| "attend ((ev, io, w) # evs) s =
     (case handle ev io (fst s, w) of
        None \<Rightarrow> ([], s)
      | Some r \<Rightarrow> apfst ((@) (drop (length (w_log w)) (w_log (snd (caught r))))) (attend evs (caught r)))"

lemma logs_caught: "handle ev io s = Some r \<Longrightarrow> logs_once s (caught r)"
  using logs_handle [of ev io s r] by (cases r) (auto simp: logs_once_def silent_def log_record_def)

lemma attend_done: "state (fst s) = DONE \<Longrightarrow> \<exists>w. attend evs s = ([], (fst s, w))"
proof (induction evs arbitrary: s)
  case Nil
  then show ?case by (metis attend.simps(1) prod.collapse)
next
  case (Cons x evs)
  obtain ev io w where x: "x = (ev, io, w)" by (cases x)
  from Cons.IH [of "(fst s, w)"] Cons.prems show ?case by (auto simp: x handle_done)
qed

definition one_record :: "access_record list \<Rightarrow> session \<Rightarrow> bool" where
  "one_record rs t \<longleftrightarrow> rs = [] \<or>
     (state (fst t) = DONE \<and>
      (\<exists>req b latency. parsed_request (fst t) = Some req \<and> backend_addr (fst t) = Some b \<and>
         rs = [log_record (fst t) req b latency]))"

lemma attend_records: "one_record (fst (attend evs s)) (snd (attend evs s))"
proof (induction evs arbitrary: s)
  case (Cons x evs)
  obtain ev io w where x: "x = (ev, io, w)" by (cases x)
  show ?case
  proof (cases "handle ev io (fst s, w)")
    case (Some r)
    note logged = logs_caught [OF Some]
    show ?thesis
    proof (cases "silent (fst s, w) (caught r)")
      case True
      with Cons.IH [of "caught r"] Some x show ?thesis by (simp add: silent_def)
    next
      case False
      with logged obtain req b latency where l: "state (fst (caught r)) = DONE"
          "parsed_request (fst (caught r)) = Some req" "backend_addr (fst (caught r)) = Some b"
          "w_log (snd (caught r)) = w_log w @ [log_record (fst (caught r)) req b latency]"
        by (auto simp: logs_once_def)
      from attend_done [OF l(1)] obtain w' where "attend evs (caught r) = ([], (fst (caught r), w'))" by blast
      with l Some x show ?thesis by (auto simp: one_record_def)
    qed
  qed (simp add: x one_record_def)
qed (simp add: one_record_def)

end
