(* ===== verification/Raising.thy ===== *)
theory Raising
  imports Logged
begin

text \<open>
  What an exception that leaves a handler finds: a connection that has a backend and has neither
  answered its client, nor given its slot back, nor written to the access log.
\<close>

definition owing :: "session \<Rightarrow> session \<Rightarrow> bool" where
  "owing s t \<longleftrightarrow> engaged t \<and> silent s t"

lemma owing_refl: "engaged s \<Longrightarrow> owing s s"
  by (simp add: owing_def)

lemma owing_begun: "owing s t \<Longrightarrow> owing s (begun t)"
  by (simp add: owing_def engaged_begun) (simp add: silent_def begun_def)

lemma owing_open: "owing s t \<Longrightarrow> owing s (open_backend t)"
  by (simp add: owing_def engaged_open) (simp add: silent_def)

interpretation debts: connect_contract "owing s" "owing s" "\<lambda>t. True" "owing s" for s
proof unfold_locales
  fix t b w
  assume t: "owing s t"
  show "owing s (begun t)" by (rule owing_begun [OF t])
  show "owing s (open_backend (begun t))" by (rule owing_open [OF owing_begun [OF t]])
  show "owing s (retry_reset b (fst (drop_backend t)), w)"
    if "can_retry (fst (drop_backend t))"
      "router_select (Some (tried_backends (fst (drop_backend t)))) (snd (drop_backend t)) = (Some b, w)"
    using engaged_retry [OF _ that] log_select [OF that(2)] t by (simp add: owing_def silent_def)
qed simp_all

abbreviation owes :: "session \<Rightarrow> session outcome \<Rightarrow> bool" where
  "owes s \<equiv> outcome_ok (\<lambda>t. True) (owing s)"

lemma owes_forward_request:
  assumes "phase_ok (c, w)" and "state c = READING_REQUEST"
  shows "owes (c, w) (forward_request io req (c, w))"
proof -
  let ?req = "inject_forwarded_for req (fst (client_addr c))"
  let ?c = "c\<lparr>parsed_request := Some ?req, forward_buf := serialise_request ?req, forward_offset := 0\<rparr>"
  note s = phaseD(1) [OF assms(1), simplified, OF assms(2)]
  obtain ob w' where sel: "router_select None w = (ob, w')" by fastforce
  note k = select_known [of "(c, w)", simplified, OF conjunct1 [OF s] sel]
  have "owing (c, w) (?c\<lparr>backend_addr := Some b, backend_attempts := 1, disconnect_notified := False\<rparr>, w')" for b
    using s k log_select [OF sel]
    by (auto simp: owing_def silent_def engaged_def client_known_def client_wire_def attempts_ok_def MAX_BACKEND_RETRIES_def)
  with debts.chain(1) sel show ?thesis by (cases ob) (simp_all add: forward_request.simps Let_def)
qed

lemma owes_client_readable:
  assumes "phase_ok (c, w)"
  shows "owes (c, w) (handle_client_readable io (c, w))"
proof (cases "state c = READING_REQUEST \<and> (\<exists>data. io_recv io = Received data)")
  case False
  then show ?thesis by (cases "io_recv io") auto
next
  case True
  then obtain data where data: "io_recv io = Received data" "state c = READING_REQUEST" by blast
  let ?s = "refresh_deadline (c\<lparr>request_buf := request_buf c @ recv_data CLIENT_RECV_SIZE data\<rparr>, w)"
  have ok: "phase_ok (fst ?s, snd ?s)"
    by (rule phase_reading_same [OF assms]) (simp_all add: data, simp add: response_fresh_def)
  have "owes (c, w) x \<longleftrightarrow> owes ?s x" for x by (cases x) (simp_all add: owing_def silent_def)
  with owes_forward_request [OF ok] data show ?thesis
    by (auto simp: Let_def case_prod_unfold split: option.splits)
qed

lemma owes_forward_some:
  assumes "engaged s" and "linked s"
  shows "owes s (forward_some io s)"
  using assms(2) debts.chain(2) [OF owing_refl [OF assms(1)]]
  by (auto simp: forward_some_def linked_def Let_def split: send_result.splits)

lemma owes_backend_writable:
  assumes "phase_ok (c, w)"
  shows "owes (c, w) (handle_backend_writable io (c, w))"
proof -
  have e: "engaged (c, w) \<and> linked (c, w)" if "state c \<in> {CONNECTING_TO_BACKEND, FORWARDING_REQUEST}"
    using phaseD(2) [OF assms] that by auto
  show ?thesis
  proof (cases "state c = CONNECTING_TO_BACKEND")
    case True
    let ?s = "refresh_deadline (c\<lparr>state := FORWARDING_REQUEST\<rparr>, w)"
    from e True obtain b where b: "backend_sock c = Some b" by (auto simp: linked_def)
    have "engaged ?s \<and> linked ?s" using phaseD(2) [OF phase_connected [OF assms True]] by simp
    moreover have "owes (c, w) x \<longleftrightarrow> owes ?s x" for x by (cases x) (simp_all add: owing_def silent_def)
    ultimately have "owes (c, w) (forward_some io ?s)" using owes_forward_some [of ?s io] by simp
    with True b e debts.chain(2) [OF owing_refl] owing_refl show ?thesis
      by (auto split: option.splits)
  qed (use e owes_forward_some in auto)
qed

lemma owes_backend_readable:
  assumes "phase_ok (c, w)" and "handle_backend_readable io (c, w) = Some r"
  shows "owes (c, w) r"
proof (cases "state c = READING_RESPONSE")
  case True
  with phaseD(2) [OF assms(1)] have e: "engaged (c, w)" and l: "linked (c, w)" by auto
  note fail = debts.chain(2) [OF owing_refl [OF e], of io]
  from l obtain b where "backend_sock c = Some b" by (auto simp: linked_def)
  with assms(2) True fail show ?thesis
    by (auto simp: Let_def simp del: prepare_relay.simps check_complete.simps
        split: if_splits option.splits recv_result.splits prod.splits)
qed (use assms in auto)

lemma owes_handle:
  assumes "phase_ok s" and "handle ev io s = Some r"
  shows "owes s r"
proof (cases s)
  case (Pair c w)
  have "owes s (handle_client_writable io s)"
    by (auto simp: handle_client_writable_def Let_def split: send_result.splits)
  with assms Pair owes_client_readable owes_backend_readable owes_backend_writable show ?thesis
    by (cases ev) (auto simp del: handle_client_readable.simps handle_backend_readable.simps
        handle_backend_writable.simps)
qed

end
