(* ===== verification/ConnectionTheorems.thy ===== *)
theory ConnectionTheorems
  imports Exchange ParserTheorems Raising
begin

text \<open>
  The properties of \<open>connection.py\<close>: what client and backend are sent along any run, when a failure
  is retried, which slots of the router are given back, how messages are put together from their
  pieces, and what a timeout does.
\<close>

declare split_paired_Ex [simp del] split_paired_All [simp del]

section \<open>A run to look at\<close>

text \<open>Plays events one after the other; \<open>None\<close> when one raises or does not return.\<close>

fun play :: "(event \<times> io) list \<Rightarrow> session \<Rightarrow> session option" where
  "play [] s = Some s"
| "play ((ev, io) # evs) s =
     (case handle ev io s of Some (Returned s') \<Rightarrow> play evs s' | _ \<Rightarrow> None)"

lemma play_run: "play evs s = Some s' \<Longrightarrow> session_step\<^sup>*\<^sup>* s s'"
proof (induction evs arbitrary: s)
  case (Cons x evs)
  obtain ev io where x: "x = (ev, io)" by (cases x)
  with Cons.prems obtain t where t: "handle ev io s = Some (Returned t)" "play evs t = Some s'"
    by (auto split: option.splits outcome.splits)
  from converse_rtranclp_into_rtranclp [of session_step, OF step_returned [OF t(1)] Cons.IH [OF t(2)]]
  show ?case .
qed simp

definition demo_io :: io where
  "demo_io = \<lparr>io_recv = Recv_blocked, io_send = Sent 1000, io_sendall = None,
     io_connect = (\<lambda>n. Connect_errno 115), io_sockopt = Some 0\<rparr>"

definition demo_world :: world where
  "demo_world = \<lparr>w_router = LC (lc_init [(''b'', 1), (''c'', 2)]), w_clock = (\<lambda>n. 0), w_reads = 0,
     w_next_sock = 1, w_closed = {}, w_wire = (\<lambda>s. []), w_log = []\<rparr>"

definition demo_start :: session where
  "demo_start = new_connection 0 (''10.0.0.5'', 4000) demo_world"

definition demo_request :: bytes where
  "demo_request = ''GET / HTTP/1.1'' @ HEADER_DELIM"

definition demo_response :: bytes where
  "demo_response = ''HTTP/1.1 200 OK'' @ LINE_DELIM @ ''Content-Length: 2'' @ HEADER_DELIM @ ''hi''"

definition demo_ask :: "(event \<times> io) list" where
  "demo_ask = [(Client_readable, demo_io\<lparr>io_recv := Received demo_request\<rparr>),
     (Backend_writable, demo_io\<lparr>io_sockopt := Some 111\<rparr>), (Backend_writable, demo_io)]"

definition demo_answer :: "(event \<times> io) list" where
  "demo_answer = [(Backend_readable, demo_io\<lparr>io_recv := Received demo_response\<rparr>), (Client_writable, demo_io)]"

lemma demo_accepted: "accepted demo_start"
  unfolding accepted_def demo_start_def
  by (rule exI [of _ 0], rule exI [of _ "(''10.0.0.5'', 4000)"], rule exI [of _ demo_world])
    (simp add: demo_world_def world_ok_def lc_init_ok)

lemma demo_asked:
  "case play demo_ask demo_start of None \<Rightarrow> False
   | Some s \<Rightarrow> state (fst s) = READING_RESPONSE \<and> backend_attempts (fst s) = 2 \<and> backend_sock (fst s) = Some 2 \<and>
       backend_addr (fst s) = Some (''c'', 2) \<and>
       healthy_pool (w_router (snd s)) \<subseteq> insert (''c'', 2) (tried_backends (fst s)) \<and>
       response_buf (fst s) = []"
  by code_simp

lemma demo_answered:
  "case play (demo_ask @ demo_answer) demo_start of None \<Rightarrow> False
   | Some s \<Rightarrow> state (fst s) = DONE \<and> client_wire s = demo_response"
  by code_simp

lemma demo_runs:
  obtains s where "play demo_ask demo_start = Some s" "session_step\<^sup>*\<^sup>* demo_start s"
    "state (fst s) = READING_RESPONSE" "backend_attempts (fst s) = 2" "backend_sock (fst s) = Some 2"
    "backend_addr (fst s) = Some (''c'', 2)"
    "healthy_pool (w_router (snd s)) \<subseteq> insert (''c'', 2) (tried_backends (fst s))"
    "response_buf (fst s) = []"
  using demo_asked play_run [of demo_ask demo_start] by (auto split: option.splits)

section \<open>What is on the wires\<close>

text \<open>C3: On every run, whatever the client, the backends and the other connections do, the bytes
  the client has been sent are the beginning of one answer: of the relayed response or of one of
  the five error pages, never a mixture.\<close>

theorem client_gets_one_answer:
  assumes "accepted s" and "session_step\<^sup>*\<^sup>* s s'"
  shows "prefix (client_wire s') (relay_buf (fst s')) \<or> (\<exists>page \<in> error_pages. prefix (client_wire s') page)"
  using phase_answered [OF phase_run [OF assms(2) phase_accepted [OF assms(1)]]] by (simp add: answered_def)

theorem client_gets_one_answer_witness:
  "\<exists>s'. session_step\<^sup>*\<^sup>* demo_start s' \<and> client_wire s' = demo_response \<and>
     (prefix demo_response (relay_buf (fst s')) \<or> (\<exists>page \<in> error_pages. prefix demo_response page))"
proof -
  obtain s' where s': "session_step\<^sup>*\<^sup>* demo_start s'" "client_wire s' = demo_response"
    using demo_answered play_run [of "demo_ask @ demo_answer" demo_start] by (auto split: option.splits)
  with client_gets_one_answer [OF demo_accepted s'(1)] show ?thesis by auto
qed

text \<open>C4: When the balancer waits for a response, the current backend socket has been sent exactly
  the serialised request of the client, on every run, however often the request was retried and
  however the sends were cut.\<close>

theorem backend_gets_whole_request:
  assumes "accepted s" and "session_step\<^sup>*\<^sup>* s s'" and "state (fst s') = READING_RESPONSE"
  shows "\<exists>b req. backend_sock (fst s') = Some b \<and> parsed_request (fst s') = Some req \<and>
    w_wire (snd s') b = serialise_request req"
  using phase_run [OF assms(2) phase_accepted [OF assms(1)]] assms(3)
  by (auto simp: phase_ok_def engaged_def linked_def)

theorem backend_gets_whole_request_witness:
  "\<exists>s' req. session_step\<^sup>*\<^sup>* demo_start s' \<and> parsed_request (fst s') = Some req \<and>
     w_wire (snd s') 2 = serialise_request req"
proof -
  obtain s where s: "session_step\<^sup>*\<^sup>* demo_start s" "state (fst s) = READING_RESPONSE" "backend_sock (fst s) = Some 2"
    using demo_runs by metis
  with backend_gets_whole_request [OF demo_accepted s(1,2)] show ?thesis by auto
qed

section \<open>Failover\<close>

text \<open>C5: On every run, a connection with a backend has made one attempt more than it has failed
  backends, at most 1 + MAX_BACKEND_RETRIES of them, never returns to a backend that failed, and
  makes a second attempt only for an idempotent method and before the client has been sent
  anything.\<close>

theorem attempts_bounded:
  assumes "accepted s" and "session_step\<^sup>*\<^sup>* s s'"
    and "state (fst s') \<in> {CONNECTING_TO_BACKEND, FORWARDING_REQUEST, READING_RESPONSE}"
  shows "(\<exists>b. backend_addr (fst s') = Some b \<and> b \<notin> tried_backends (fst s'))
    \<and> backend_attempts (fst s') = int (card (tried_backends (fst s'))) + 1
    \<and> backend_attempts (fst s') \<le> 1 + MAX_BACKEND_RETRIES
    \<and> (backend_attempts (fst s') = 1 \<or> (\<exists>req. parsed_request (fst s') = Some req \<and> idempotent req))
    \<and> client_wire s' = []"
  using phaseD(2) [OF phase_run [OF assms(2) phase_accepted [OF assms(1)]] assms(3)]
  by (auto simp: engaged_def attempts_ok_def)

theorem attempts_bounded_witness:
  "\<exists>s'. session_step\<^sup>*\<^sup>* demo_start s' \<and> backend_attempts (fst s') = 2 \<and> card (tried_backends (fst s')) = 1"
proof -
  obtain s where s: "session_step\<^sup>*\<^sup>* demo_start s" "state (fst s) = READING_RESPONSE" "backend_attempts (fst s) = 2"
    using demo_runs by metis
  with attempts_bounded [OF demo_accepted s(1)] show ?thesis by auto
qed

lemma drop_engaged:
  assumes "engaged s" and "parsed_request (fst s) = Some req" and "backend_addr (fst s) = Some b"
  shows "can_retry (fst (drop_backend s)) \<longleftrightarrow> idempotent req \<and> backend_attempts (fst s) \<le> MAX_BACKEND_RETRIES"
    and "healthy_pool (w_router (snd (drop_backend s))) = healthy_pool (w_router (snd s))"
    and "router_ok (w_router (snd (drop_backend s)))"
proof -
  have "w_router (snd (drop_backend s)) = on_disconnect (w_router (snd s)) b"
    using assms by (cases s) (auto simp: drop_backend_def engaged_def router_release_def
        close_socket_def split: option.splits)
  with assms router.pool_release show "healthy_pool (w_router (snd (drop_backend s))) = healthy_pool (w_router (snd s))"
    "router_ok (w_router (snd (drop_backend s)))"
    by (simp_all add: engaged_def client_known_def world_ok_def router.release_ok)
  show "can_retry (fst (drop_backend s)) \<longleftrightarrow> idempotent req \<and> backend_attempts (fst s) \<le> MAX_BACKEND_RETRIES"
    using assms by (auto simp: can_retry_def engaged_def idempotent_def)
qed

text \<open>C19: A failure is retried exactly when the method is idempotent, attempts are left and some
  healthy backend has not failed yet; the retry starts on such a backend with the request and the
  response rewound. Otherwise the client is answered with 502.\<close>

theorem failover_decision:
  assumes "engaged s" and "parsed_request (fst s) = Some req" and "backend_addr (fst s) = Some b"
  shows "if idempotent req \<and> backend_attempts (fst s) \<le> MAX_BACKEND_RETRIES \<and>
        \<not> healthy_pool (w_router (snd s)) \<subseteq> insert b (tried_backends (fst s))
    then \<exists>b' w. b' \<in> healthy_pool (w_router (snd s)) - insert b (tried_backends (fst s)) \<and>
        fail_backend io s = initiate_backend_connect io (retry_reset b' (fst (drop_backend s)), w)
    else \<exists>w. fail_backend io s = Returned (send_error io 502 ''Bad Gateway'' (fst (drop_backend s), w))"
proof -
  let ?d = "drop_backend s" let ?T = "insert b (tried_backends (fst s))"
  note d = drop_engaged [OF assms]
  have T: "tried_backends (fst ?d) = ?T" by (simp add: assms(3))
  obtain ob w where sel: "router_select (Some ?T) (snd ?d) = (ob, w)" by fastforce
  then obtain r' where r: "next_backend (w_router (snd ?d)) (Some ?T) = (ob, r')"
    by (rule router_selectE)
  show ?thesis
  proof (cases "can_retry (fst ?d)")
    case False
    then have "\<exists>w. fail_backend io s = Returned (send_error io 502 ''Bad Gateway'' (fst ?d, w))"
      by (intro exI [of _ "snd ?d"]) (simp add: fail_backend.simps Let_def)
    with False d(1) show ?thesis by auto
  next
    case True
    show ?thesis
    proof (cases ob)
      case None
      with router.select_None [OF d(3), of "Some ?T"] r d(2) have "healthy_pool (w_router (snd s)) \<subseteq> ?T" by simp
      moreover have "fail_backend io s = Returned (send_error io 502 ''Bad Gateway'' (fst ?d, w))"
        using True None sel T by (simp add: fail_backend.simps Let_def del: drop_tried)
      ultimately show ?thesis by auto
    next
      case (Some b')
      with router.select_Some [OF d(3), of "Some ?T"] r d(2) have "b' \<in> healthy_pool (w_router (snd s)) - ?T" by simp
      moreover have "fail_backend io s = initiate_backend_connect io (retry_reset b' (fst ?d), w)"
        using True Some sel T by (simp add: fail_backend.simps Let_def del: drop_tried)
      ultimately show ?thesis using True d(1) by auto
    qed
  qed
qed

theorem failover_decision_witness:
  "\<exists>s w. session_step\<^sup>*\<^sup>* demo_start s \<and>
     fail_backend demo_io s = Returned (send_error demo_io 502 ''Bad Gateway'' (fst (drop_backend s), w))"
proof -
  obtain s where s: "session_step\<^sup>*\<^sup>* demo_start s" "state (fst s) = READING_RESPONSE"
    "backend_addr (fst s) = Some (''c'', 2)"
    "healthy_pool (w_router (snd s)) \<subseteq> insert (''c'', 2) (tried_backends (fst s))"
    using demo_runs by metis
  then have "engaged s" using phaseD(2) [OF phase_run [OF s(1) phase_accepted [OF demo_accepted]]] by simp
  moreover from this obtain req where "parsed_request (fst s) = Some req" by (auto simp: engaged_def)
  ultimately show ?thesis using failover_decision [of s req "(''c'', 2)" demo_io] s by auto
qed

section \<open>Slots\<close>

text \<open>C6: Every handler keeps the books of a least-connections router: what the router counts is
  what the other connections hold plus the slot of this one, before and after, whether the handler
  returns or raises.\<close>

theorem slots_accounted:
  assumes "phase_ok s" and "slots_ok f s" and "handle ev io s = Some r"
  shows "slots_ok f (final r)"
  by (rule outcome_ok_final [OF slots_handle [OF assms]])

lemma demo_slots: "slots_ok (\<lambda>b. 0) demo_start"
proof -
  have "lc_count (lc_init bs) b = 0" for bs b
  proof -
    have "lc_counts (foldl (\<lambda>r b. lc_push r 0 b) r bs) = lc_counts r" for r bs
      by (induction bs arbitrary: r) simp_all
    then show ?thesis by (simp add: lc_init_def lc_count_def)
  qed
  then have "slots_ok (\<lambda>b. 0) (c, demo_world\<lparr>w_reads := n\<rparr>)" if "backend_addr c = None" for c n
    using that by (intro slots_okI) (simp_all add: demo_world_def lc_init_ok held_def)
  then show ?thesis
    unfolding demo_start_def new_connection_def Let_def monotonic_def case_prod_conv
    by (intro slots_refresh) simp
qed

theorem slots_accounted_witness:
  "slots_ok (\<lambda>b. 0) (final (handle_client_readable (demo_io\<lparr>io_recv := Received demo_request\<rparr>) demo_start))"
  by (rule slots_accounted [OF phase_accepted [OF demo_accepted] demo_slots, of Client_readable]) simp

text \<open>C28: When a handler returns and its connection has ended, the slot has been given back: the router counts
  the others only. There is one exception: when sending to the client fails in the handler that relays the
  response, the connection's own slot is still counted.\<close>

theorem slot_given_back:
  assumes "phase_ok s" and "slots_ok f s" and "state (fst s) \<noteq> DONE"
    and "handle ev io s = Some (Returned s')" and "state (fst s') = DONE"
  shows "router_load (w_router (snd s')) b =
    (if ev = Client_writable \<and> io_send io = Send_failed then f b + held (fst s) b else f b)"
proof (cases "ev = Client_writable \<and> io_send io = Send_failed")
  case True
  with assms(3-5) have "snd s' = snd s"
    by (auto simp: handle_client_writable_def split: if_splits)
  with True slots_okD(3) [of f "fst s" "snd s" b] assms(2) show ?thesis by simp
next
  case False
  then have "released s'" using release_handle [OF assms(1,3,4)] assms(5) by blast
  moreover have "slots_ok f s'" using slots_handle [OF assms(1,2,4)] by simp
  ultimately have "router_load (w_router (snd s')) b = f b"
    using slots_okD(3) [of f "fst s'" "snd s'" b] assms(5) by (simp add: released_def)
  with False show ?thesis by auto
qed

theorem slot_given_back_witness:
  "router_load (w_router (snd (handle_timeout demo_io demo_start))) (''b'', 1) = 0"
proof -
  have "state (fst demo_start) \<noteq> DONE" "state (fst (handle_timeout demo_io demo_start)) = DONE" by code_simp+
  then show ?thesis
    using slot_given_back [OF phase_accepted [OF demo_accepted] demo_slots, of Expired demo_io
      "handle_timeout demo_io demo_start" "(''b'', 1)"] by simp
qed

text \<open>A send to the client that fails with an error ends the connection with its slot still
  taken: the router counts it from then on, and nothing that can happen to the connection changes
  that.\<close>

theorem slot_leaks_on_client_error:
  assumes "phase_ok s" and "slots_ok f s" and "state (fst s) = FORWARDING_RESPONSE"
    and "backend_addr (fst s) = Some b" and "io_send io = Send_failed"
  shows "\<exists>s'. handle Client_writable io s = Some (Returned s') \<and> state (fst s') = DONE \<and>
    router_load (w_router (snd s')) b = f b + 1 \<and>
    (\<forall>ev io'. handle ev io' s' = Some (Returned s'))"
proof -
  have "\<not> disconnect_notified (fst s)" using assms(1,3) by (simp add: phase_ok_def)
  with slots_okD(3) [of f "fst s" "snd s" b] assms(2,4) have "router_load (w_router (snd s)) b = f b + 1"
    by (simp add: held_def)
  with assms(3,5) handle_done [of "set_state DONE s"] show ?thesis
    by (simp add: handle_client_writable_def)
qed

lemma play_phase: "play evs s = Some s' \<Longrightarrow> phase_ok s \<Longrightarrow> phase_ok s'"
  using phase_run play_run by blast

lemma play_slots: "play evs s = Some s' \<Longrightarrow> phase_ok s \<Longrightarrow> slots_ok f s \<Longrightarrow> slots_ok f s'"
proof (induction evs arbitrary: s)
  case (Cons x evs)
  obtain ev io where x: "x = (ev, io)" by (cases x)
  with Cons.prems obtain t where t: "handle ev io s = Some (Returned t)" "play evs t = Some s'"
    by (auto split: option.splits outcome.splits)
  with Cons.IH [OF t(2)] phase_handle [OF Cons.prems(2) t(1)] slots_handle [OF Cons.prems(2,3) t(1)]
  show ?case by simp
qed simp

theorem slot_leaks_on_client_error_witness:
  "\<exists>s s'. play (demo_ask @ [hd demo_answer]) demo_start = Some s \<and>
     handle Client_writable (demo_io\<lparr>io_send := Send_failed\<rparr>) s = Some (Returned s') \<and>
     router_load (w_router (snd s')) (''c'', 2) = 1"
proof -
  have "case play (demo_ask @ [hd demo_answer]) demo_start of None \<Rightarrow> False
    | Some s \<Rightarrow> state (fst s) = FORWARDING_RESPONSE \<and> backend_addr (fst s) = Some (''c'', 2)" by code_simp
  then obtain s where s: "play (demo_ask @ [hd demo_answer]) demo_start = Some s"
    "state (fst s) = FORWARDING_RESPONSE" "backend_addr (fst s) = Some (''c'', 2)" by (auto split: option.splits)
  note ok = play_phase [OF s(1) phase_accepted [OF demo_accepted]]
    play_slots [OF s(1) phase_accepted [OF demo_accepted] demo_slots]
  from slot_leaks_on_client_error [OF ok s(2,3), of "demo_io\<lparr>io_send := Send_failed\<rparr>"] s(1)
  show ?thesis by auto
qed

section \<open>The access log\<close>

text \<open>C20: A connection writes at most one record to the access log, whatever its events and whatever
  other connections do to the world between them: the record is written when it ends, never before, with
  its request, the backend it was last given and the status it has in the end.\<close>

theorem one_log_record:
  "case attend evs s of (records, t) \<Rightarrow> records = [] \<or>
     (state (fst t) = DONE \<and>
      (\<exists>req b latency. parsed_request (fst t) = Some req \<and> backend_addr (fst t) = Some b \<and>
         records = [log_record (fst t) req b latency]))"
  using attend_records [of evs s] by (simp add: one_record_def case_prod_unfold)

text \<open>A request that is served after one backend has refused: one record, of the second backend.\<close>

lemma demo_logged:
  "case play (demo_ask @ demo_answer) demo_start of None \<Rightarrow> False
   | Some s \<Rightarrow> map (\<lambda>l. (log_backend_ip l, log_method l, log_path l, log_status l)) (w_log (snd s)) =
       [(''c'', ''GET'', ''/'', 200)]"
  by code_simp

section \<open>Exceptions\<close>

text \<open>C21: An exception that leaves a handler costs the client its answer and the balancer a slot: the
  reactor ends the connection, which has been sent nothing, is not in the access log, and whose
  backend is charged by the least-connections router from then on, whatever comes.\<close>

theorem exception_loses_request:
  assumes "phase_ok s" and "slots_ok f s" and "handle ev io s = Some (Raised s')"
  shows "client_wire s' = [] \<and> w_log (snd s') = w_log (snd s) \<and>
    (\<exists>b. backend_addr (fst s') = Some b \<and> router_load (w_router (snd s')) b = f b + 1) \<and>
    (\<forall>ev io'. handle ev io' (set_state DONE s') = Some (Returned (set_state DONE s')))"
proof -
  have "owing s s'" using owes_handle [OF assms(1,3)] by simp
  moreover from this obtain b where b: "backend_addr (fst s') = Some b" "\<not> disconnect_notified (fst s')"
    by (auto simp: owing_def engaged_def)
  moreover have "slots_ok f s'" using slots_handle [OF assms] by simp
  ultimately show ?thesis using slots_okD(3) [of f "fst s'" "snd s'" b] handle_done [of "set_state DONE s'"]
    by (simp add: owing_def engaged_def silent_def held_def)
qed

theorem exception_loses_request_witness:
  "\<exists>s' b. handle Client_readable (demo_io\<lparr>io_recv := Received demo_request, io_connect := (\<lambda>n. Connect_raises)\<rparr>)
       demo_start = Some (Raised s') \<and>
     client_wire s' = [] \<and> router_load (w_router (snd s')) b = 1"
proof -
  let ?io = "demo_io\<lparr>io_recv := Received demo_request, io_connect := (\<lambda>n. Connect_raises)\<rparr>"
  have "case handle Client_readable ?io demo_start of Some (Raised s') \<Rightarrow> True | _ \<Rightarrow> False" by code_simp
  then obtain s' where s': "handle Client_readable ?io demo_start = Some (Raised s')"
    by (auto split: option.splits outcome.splits)
  from exception_loses_request [OF phase_accepted [OF demo_accepted] demo_slots this] s' show ?thesis by auto
qed

section \<open>Messages in pieces\<close>

text \<open>C16: However the client's bytes are cut, a well-formed request leads to the same forwarded
  bytes, its serialisation with the client's address in X-Forwarded-For, and until its last byte
  has arrived the connection does nothing but collect.\<close>

theorem request_in_pieces:
  assumes "reading [] s" and "\<forall>d \<in> set ds. piece CLIENT_RECV_SIZE d" and "wf_request req"
    and "concat ds = serialise_request req" and "int (length (serialise_request req)) \<le> MAX_REQUEST_SIZE"
  shows "forward_buf (fst (final (feed_client io ds s))) =
      serialise_request (inject_forwarded_for req (fst (client_addr (fst s))))
    \<and> (\<forall>k < length ds. \<exists>s'. feed_client io (take k ds) s = Returned s' \<and> reading (concat (take k ds)) s')"
proof (intro conjI allI impI)
  fix k assume k: "k < length ds"
  then have "ds = take k ds @ ds ! k # drop (Suc k) ds" by (rule id_take_nth_drop)
  from feed_request(1) [OF assms this] show
    "\<exists>s'. feed_client io (take k ds) s = Returned s' \<and> reading (concat (take k ds)) s'" by blast
qed (rule feed_request_asked [OF assms])

theorem request_in_pieces_witness:
  "forward_buf (fst (final (feed_client demo_io [demo_request] demo_start))) =
     serialise_request (inject_forwarded_for
       (tiny_request\<lparr>req_method := ''GET'', req_headers := [], req_body := []\<rparr>) ''10.0.0.5'')"
proof -
  let ?req = "tiny_request\<lparr>req_method := ''GET'', req_headers := [], req_body := []\<rparr>"
  have "serialise_request ?req = demo_request" "wf_request ?req" by code_simp+
  moreover have "reading [] demo_start" "fst (client_addr (fst demo_start)) = ''10.0.0.5''"
    by (simp_all add: demo_start_def new_connection_def monotonic_def reading_def)
  moreover have "length demo_request = 18" by code_simp
  ultimately show ?thesis
    using request_in_pieces [of demo_start "[demo_request]" ?req demo_io]
    by (simp add: piece_def CLIENT_RECV_SIZE_def MAX_REQUEST_SIZE_def del: feed_client.simps)
      (auto simp: demo_request_def)
qed

text \<open>C18: However the backend's bytes are cut, a response with a Content-Length is relayed whole
  when its last byte has arrived and not before.\<close>

theorem length_response_in_pieces:
  assumes "awaiting [] s" and "\<forall>d \<in> set ds. piece BACKEND_RECV_SIZE d"
    and "head_ok head" and "is_chunked_response head = Some False"
    and "get_response_content_length head = int (length body)" and "concat ds = head @ body"
  shows "(\<exists>s'. feed_backend io ds s = Some (Returned s') \<and> relaying (head @ body) s')
    \<and> (\<forall>k < length ds. \<exists>s'. feed_backend io (take k ds) s = Some (Returned s') \<and>
        awaiting (concat (take k ds)) s')"
proof -
  have "head @ body \<noteq> []" using assms(3) by (auto simp: head_ok_def)
  note feed = feed_message [OF assms(1,2,6) this framing_length(2) [OF assms(3,4,5)] framing_length(1) [OF assms(3,4,5)]]
  have "\<exists>s'. feed_backend io (take k ds) s = Some (Returned s') \<and> awaiting (concat (take k ds)) s'"
    if "k < length ds" for k
    by (rule feed(2) [OF _ id_take_nth_drop [OF that]])
  with feed(1) show ?thesis by blast
qed

definition demo_head :: bytes where
  "demo_head = ''HTTP/1.1 200 OK'' @ LINE_DELIM @ ''Content-Length: 2'' @ HEADER_DELIM"

lemma demo_awaiting:
  obtains s where "session_step\<^sup>*\<^sup>* demo_start s" "awaiting [] s"
proof -
  obtain s where s: "session_step\<^sup>*\<^sup>* demo_start s" "state (fst s) = READING_RESPONSE"
    "backend_sock (fst s) = Some 2" "response_buf (fst s) = []" "play demo_ask demo_start = Some s"
    using demo_runs by metis
  have "case play demo_ask demo_start of None \<Rightarrow> False
    | Some s \<Rightarrow> \<not> response_headers_done (fst s) \<and> \<not> response_is_chunked (fst s)" by code_simp
  with s have "noted (fst s)"
    by (simp add: noted_def is_chunked_response_def HEADER_DELIM_def py_find_def)
  with s that show thesis by (simp add: awaiting_def)
qed

theorem length_response_in_pieces_witness:
  "\<exists>s s'. session_step\<^sup>*\<^sup>* demo_start s \<and>
     feed_backend demo_io [demo_head, ''h'', ''i''] s = Some (Returned s') \<and> relaying (demo_head @ ''hi'') s'"
proof -
  obtain s where s: "session_step\<^sup>*\<^sup>* demo_start s" "awaiting [] s" by (rule demo_awaiting)
  have "head_ok demo_head" "is_chunked_response demo_head = Some False"
    "get_response_content_length demo_head = int (length ''hi'')" by code_simp+
  moreover have "length demo_head = 38" by code_simp
  ultimately show ?thesis
    using length_response_in_pieces [OF s(2), of "[demo_head, ''h'', ''i'']" demo_head "''hi''" demo_io] s(1)
    by (fastforce simp: piece_def BACKEND_RECV_SIZE_def simp del: feed_backend.simps)
qed

text \<open>C17: The same for a chunked response, with any chunk extensions and trailers: what is relayed
  is the message as the backend sent it, byte for byte.\<close>

theorem chunked_response_in_pieces:
  assumes "awaiting [] s" and "\<forall>d \<in> set ds. piece BACKEND_RECV_SIZE d"
    and "head_ok head" and "is_chunked_response head = Some True"
    and "\<forall>c \<in> set cs. chunk_ok c" and "trailers_ok ts" and "concat ds = head @ encode_chunked cs ts"
  shows "(\<exists>s'. feed_backend io ds s = Some (Returned s') \<and> relaying (head @ encode_chunked cs ts) s')
    \<and> (\<forall>k < length ds. \<exists>s'. feed_backend io (take k ds) s = Some (Returned s') \<and>
        awaiting (concat (take k ds)) s')"
proof -
  have "head @ encode_chunked cs ts \<noteq> []" using assms(3) by (auto simp: head_ok_def)
  note feed = feed_message [OF assms(1,2,7) this framing_chunked(2) [OF assms(3-6)] framing_chunked(1) [OF assms(3-6)]]
  have "\<exists>s'. feed_backend io (take k ds) s = Some (Returned s') \<and> awaiting (concat (take k ds)) s'"
    if "k < length ds" for k
    by (rule feed(2) [OF _ id_take_nth_drop [OF that]])
  with feed(1) show ?thesis by blast
qed

definition demo_chunked_head :: bytes where
  "demo_chunked_head = ''HTTP/1.1 200 OK'' @ LINE_DELIM @ ''Transfer-Encoding: gzip, chunked'' @ HEADER_DELIM"

theorem chunked_response_in_pieces_witness:
  "\<exists>s s'. session_step\<^sup>*\<^sup>* demo_start s \<and>
     feed_backend demo_io [demo_chunked_head @ ''2'', tl (encode_chunked [([], ''hi'')] [])] s = Some (Returned s') \<and>
     relaying (demo_chunked_head @ encode_chunked [([], ''hi'')] []) s'"
proof -
  obtain s where s: "session_step\<^sup>*\<^sup>* demo_start s" "awaiting [] s" by (rule demo_awaiting)
  have head: "head_ok demo_chunked_head" "is_chunked_response demo_chunked_head = Some True" by code_simp+
  have msg: "\<forall>c \<in> set [([], ''hi'')]. chunk_ok c" "trailers_ok []" by code_simp+
  have cut: "concat [demo_chunked_head @ ''2'', tl (encode_chunked [([], ''hi'')] [])] =
      demo_chunked_head @ encode_chunked [([], ''hi'')] []" by code_simp
  have "length (demo_chunked_head @ ''2'') = 54" "length (tl (encode_chunked [([], ''hi'')] [])) = 11" by code_simp+
  then have "piece BACKEND_RECV_SIZE (demo_chunked_head @ ''2'')"
    "piece BACKEND_RECV_SIZE (tl (encode_chunked [([], ''hi'')] []))"
    unfolding piece_def BACKEND_RECV_SIZE_def by (auto simp del: length_tl)
  with chunked_response_in_pieces [OF s(2) _ head msg cut, of demo_io] s(1) show ?thesis by auto
qed

text \<open>When the backend closes before a response that is not chunked is complete, what has
  arrived is relayed as it is, the response of the right length cut short or nothing at all
  included: there is no 502 and no retry.\<close>

theorem closed_backend_is_relayed:
  assumes "awaiting buf s" and "is_chunked_response buf \<noteq> Some True"
  shows "\<exists>s'. handle_backend_readable (io\<lparr>io_recv := Received []\<rparr>) s = Some (Returned s') \<and> relaying buf s'"
proof -
  obtain c w b where s: "s = (c, w)" "backend_sock c = Some b" "state c = READING_RESPONSE"
    using assms(1) by (cases s) (auto simp: awaiting_def)
  have "\<not> response_is_chunked c" "response_buf c = buf" using assms s by (auto simp: awaiting_def noted_def)
  with s relaying_prepare [of "(c, w)"] show ?thesis
    by (simp add: recv_data_def del: prepare_relay.simps)
qed

theorem closed_backend_is_relayed_witness:
  "\<exists>s s'. session_step\<^sup>*\<^sup>* demo_start s \<and>
     handle_backend_readable (demo_io\<lparr>io_recv := Received []\<rparr>) s = Some (Returned s') \<and> relaying [] s'"
proof -
  obtain s where s: "session_step\<^sup>*\<^sup>* demo_start s" "awaiting [] s" by (rule demo_awaiting)
  have "is_chunked_response [] \<noteq> Some True" by code_simp
  with closed_backend_is_relayed [OF s(2), of demo_io] s(1) show ?thesis by auto
qed

section \<open>Timeouts and refusals\<close>

lemma response_status_send_error [simp]: "response_status (fst (send_error io code reason s)) = Some code"
proof -
  have "response_status (fst (notify_disconnect t)) = response_status (fst t)" for t
    by (cases t) (simp split: option.splits)
  then show ?thesis by (simp add: send_error_def finish_def)
qed

lemma send_error_wire:
  "client_wire (send_error io code reason s) =
    client_wire s @ (case io_sendall io of None \<Rightarrow> error_page code reason | Some n \<Rightarrow> take n (error_page code reason))"
  by (simp add: send_error_def client_wire_def page_wire)

text \<open>C29: A timeout always ends the connection, and the router then counts the slots of the others only: with 408
  while the request is read, with 504 while the backend is awaited (of either page the client gets what could
  be sent of it), and without another byte once the client has been sent part of the response.\<close>

theorem timeout_ends_connection:
  assumes "phase_ok s" and "state (fst s) \<noteq> DONE" and "s' = handle_timeout io s"
  shows "state (fst s') = DONE \<and> (\<forall>f. slots_ok f s \<longrightarrow> (\<forall>b. router_load (w_router (snd s')) b = f b)) \<and>
    (if state (fst s) = READING_REQUEST
     then client_wire s' = (case io_sendall io of None \<Rightarrow> error_page 408 ''Request Timeout''
         | Some n \<Rightarrow> take n (error_page 408 ''Request Timeout'')) \<and> response_status (fst s') = Some 408
     else if client_bytes_sent (fst s) then client_wire s' = client_wire s
     else client_wire s' = (case io_sendall io of None \<Rightarrow> error_page 504 ''Gateway Timeout''
         | Some n \<Rightarrow> take n (error_page 504 ''Gateway Timeout'')) \<and> response_status (fst s') = Some 504)"
proof -
  have "held (fst (set_state DONE (notify_disconnect s))) b = 0" for b
    by (cases s) (auto simp: held_def split: option.splits)
  then have "held (fst s') b = 0" for b
    using assms(2) by (simp add: assms(3) handle_timeout_def held_send_error)
  then have "router_load (w_router (snd s')) b = f b" if "slots_ok f s" for f b
    using slots_okD(3) [of f "fst s'" "snd s'" b] slots_timeout [OF that, of io] by (simp add: assms(3))
  moreover have "client_wire (set_state DONE (notify_disconnect s)) = client_wire s"
    by (simp add: client_wire_def)
  moreover have "client_wire s = []" if "\<not> client_bytes_sent (fst s)"
    using assms(1,2) that by (auto simp: phase_ok_def engaged_def split: conn_state.splits)
  moreover have "client_wire s = []" if "state (fst s) = READING_REQUEST"
    using assms(1) that by (simp add: phase_ok_def)
  ultimately show ?thesis
    using assms(2) by (auto simp: assms(3) handle_timeout_def send_error_wire)
qed

theorem timeout_ends_connection_witness:
  "\<exists>s. handle_client_readable (demo_io\<lparr>io_recv := Received demo_request\<rparr>) demo_start = Returned s \<and>
     router_load (w_router (snd s)) (''b'', 1) = 1 \<and>
     client_wire (handle_timeout demo_io s) = error_page 504 ''Gateway Timeout'' \<and>
     router_load (w_router (snd (handle_timeout demo_io s))) (''b'', 1) = 0"
proof -
  have "case handle_client_readable (demo_io\<lparr>io_recv := Received demo_request\<rparr>) demo_start of
      Returned s \<Rightarrow> state (fst s) = CONNECTING_TO_BACKEND \<and> \<not> client_bytes_sent (fst s) \<and>
        router_load (w_router (snd s)) (''b'', 1) = 1
    | Raised s \<Rightarrow> False"
    by code_simp
  then obtain s where s: "handle_client_readable (demo_io\<lparr>io_recv := Received demo_request\<rparr>) demo_start = Returned s"
      "state (fst s) = CONNECTING_TO_BACKEND" "\<not> client_bytes_sent (fst s)" "router_load (w_router (snd s)) (''b'', 1) = 1"
    by (auto split: outcome.splits)
  then have h: "handle Client_readable (demo_io\<lparr>io_recv := Received demo_request\<rparr>) demo_start = Some (Returned s)" by simp
  have "phase_ok s" using phase_handle [OF phase_accepted [OF demo_accepted] h] by simp
  moreover have "slots_ok (\<lambda>b. 0) s" using slots_handle [OF phase_accepted [OF demo_accepted] demo_slots h] by simp
  ultimately show ?thesis
    using timeout_ends_connection [of s, OF _ _ refl, of demo_io] s by (auto simp: demo_io_def)
qed

lemma framing_whole:
  "is_chunked_response buf = Some False \<Longrightarrow> 0 \<le> get_response_content_length buf \<Longrightarrow>
    get_response_content_length buf \<le> int (length buf) - (py_find buf HEADER_DELIM + 4) \<Longrightarrow>
    framing buf = Some (Some buf)"
  by (cases "find_sub HEADER_DELIM buf") (simp_all add: framing_def is_chunked_eq)

lemma digit_chars:
  assumes "c \<in> set (show_base 10 n)"
  shows "\<not> py_space c" "c \<noteq> CHR 0x0D" "c \<noteq> CHR '' ''"
proof -
  obtain d where "d < 10" "c = digit_char d" using show_base_digits [OF _ _ assms] by auto
  with digit_char_props [of d] show "\<not> py_space c" "c \<noteq> CHR 0x0D" by simp_all
  then show "c \<noteq> CHR '' ''" by (auto simp: py_space_def)
qed

lemma clean_digits: "clean_line (show_base 10 n)"
proof -
  have "CHR 0x0D \<notin> set (show_base 10 n)" using digit_chars by blast
  then show ?thesis by (auto simp: clean_line_def LINE_DELIM_def dest: set_mono_sublist)
qed

lemma parse_status_line:
  "find_sub LINE_DELIM buf = Some i \<Longrightarrow> py_split_max '' '' 2 (take i buf) = [v, code, reason] \<Longrightarrow>
    py_int code = Some n \<Longrightarrow> parse_response_status buf = (Some n, Some reason)"
  by (simp add: parse_response_status_def Let_def)

definition page_lines :: "nat \<Rightarrow> string \<Rightarrow> nat \<Rightarrow> string list" where
  "page_lines code reason m =
     (''HTTP/1.1'' @ '' '' @ show_base 10 code @ '' '' @ reason) #
     map header_line [(''Content-Length'', show_base 10 m), (''Content-Type'', ''text/html''), (''Connection'', ''close'')]"

definition page_body :: "nat \<Rightarrow> string \<Rightarrow> string" where
  "page_body code reason = ''<h1>'' @ show_base 10 code @ '' '' @ reason @ ''</h1>''"

lemma error_page_lines:
  "error_page (int code) reason =
    py_join LINE_DELIM (page_lines code reason (length (page_body code reason))) @ HEADER_DELIM @ page_body code reason"
  by (simp add: error_page_def page_lines_def page_body_def Let_def show_int_def header_line_def delims(1))

lemma page_headers_clean:
  "clean_header (''Content-Length'', show_base 10 m)" "clean_header (''Content-Type'', ''text/html'')"
  "clean_header (''Connection'', ''close'')"
proof -
  have "py_strip (show_base 10 m) = show_base 10 m"
    using digit_chars(1) [of "hd (show_base 10 m)" m] digit_chars(1) [of "last (show_base 10 m)" m]
    by (simp add: py_strip_def strip_by_fixed)
  moreover have "clean_header (''Content-Length'', [])" by code_simp
  ultimately show "clean_header (''Content-Length'', show_base 10 m)"
    by (simp add: clean_header_def clean_digits)
qed code_simp+

lemma page_lines_clean:
  assumes "clean_line reason"
  shows "\<forall>l \<in> set (page_lines code reason m). clean_line l"
proof -
  have "clean_line (show_base 10 code @ '' '' @ reason)"
    using assms clean_append [of "CHR '' ''" "show_base 10 code" reason] clean_digits by simp
  moreover have "clean_line ''HTTP/1.1''" by code_simp
  ultimately have "clean_line (''HTTP/1.1'' @ '' '' @ show_base 10 code @ '' '' @ reason)"
    using clean_append [of "CHR '' ''" "''HTTP/1.1''"] by simp
  with page_headers_clean show ?thesis by (simp add: page_lines_def clean_header_line)
qed

lemma length_show_base: "length (show_base 10 n) \<le> Suc n"
proof (induction n rule: less_induct)
  case (less n)
  show ?case
  proof (cases "n < 10")
    case False
    with less [of "n div 10"] show ?thesis by (subst show_base.simps) simp
  qed (simp add: show_base.simps)
qed

text \<open>The balancer's own error pages are complete HTTP responses by its own parser: the status
  line has the code and the reason, and the Content-Length is that of the page.\<close>

theorem error_pages_are_responses:
  assumes "code < 4000" and "clean_line reason" and "length reason < 4000 - length (show_base 10 code)"
  shows "parse_response_status (error_page (int code) reason) = (Some (int code), Some reason)
    \<and> framing (error_page (int code) reason) = Some (Some (error_page (int code) reason))"
proof -
  let ?page = "error_page (int code) reason" let ?body = "page_body code reason"
  let ?ls = "page_lines code reason (length ?body)" let ?i = "length (py_join LINE_DELIM ?ls)"
  have clean: "\<forall>l \<in> set ?ls. clean_line l" by (rule page_lines_clean [OF assms(2)])
  have find: "find_sub HEADER_DELIM ?page = Some ?i"
    unfolding error_page_lines by (rule find_blank_joined) (use clean in \<open>auto simp: page_lines_def\<close>)
  have split: "py_split LINE_DELIM (take ?i ?page) = ?ls"
    using py_split_joined [OF _ clean] by (simp add: error_page_lines) (simp add: page_lines_def)
  have digits: "length (show_base 10 code) \<le> max_str_digits" "length (show_base 10 (length ?body)) \<le> max_str_digits"
    using length_show_base [of code] length_show_base [of "length ?body"] assms(1,3)
    by (simp_all add: max_str_digits_def page_body_def)
  have "is_chunked_response ?page = Some False"
    unfolding is_chunked_eq(1) [OF find] split
    by (simp add: page_lines_def header_of_line_back page_headers_clean) code_simp
  moreover have "get_response_content_length ?page = int (length ?body)"
  proof -
    have "py_lower ''Content-Length'' = ''content-length''" by code_simp
    then show ?thesis unfolding response_length_eq [OF find] split
      by (simp add: page_lines_def header_of_line_back page_headers_clean py_int_show [OF digits(2)])
  qed
  ultimately have "framing ?page = Some (Some ?page)"
    using find by (simp add: framing_def) (simp add: error_page_lines delims)
  moreover have "parse_response_status ?page = (Some (int code), Some reason)"
  proof -
    let ?l = "''HTTP/1.1'' @ '' '' @ show_base 10 code @ '' '' @ reason"
    have page: "?page = ?l @ LINE_DELIM @ py_join LINE_DELIM (tl ?ls) @ HEADER_DELIM @ ?body"
      by (simp add: error_page_lines page_lines_def)
    have "clean_line ?l" using clean by (simp add: page_lines_def)
    from find_line_end [OF this] have "find_sub LINE_DELIM ?page = Some (length ?l)" unfolding page .
    moreover have "take (length ?l) ?page = ?l" unfolding page by simp
    moreover have "CHR '' '' \<notin> set (show_base 10 code)"
      using digit_chars(3) by blast
    then have "py_split_max '' '' 2 ?l = [''HTTP/1.1'', show_base 10 code, reason]"
      by (intro split_request_line) simp_all
    ultimately show ?thesis using py_int_show [OF digits(1)] parse_status_line by metis
  qed
  ultimately show ?thesis by blast
qed

theorem error_pages_are_responses_witness:
  "parse_response_status (error_page (int 504) ''Gateway Timeout'') = (Some (int 504), Some ''Gateway Timeout'')"
proof -
  have "length (show_base 10 504) = 3" "clean_line ''Gateway Timeout''" by code_simp+
  with error_pages_are_responses [of 504 "''Gateway Timeout''"] show ?thesis by simp
qed

text \<open>A request that grows over the limit is refused with 413 before any backend is chosen.\<close>

theorem oversize_is_refused:
  assumes "reading buf s" and "piece CLIENT_RECV_SIZE d" and "MAX_REQUEST_SIZE < int (length (buf @ d))"
  shows "\<exists>s'. handle_client_readable (io\<lparr>io_recv := Received d\<rparr>) s = Returned s' \<and>
    state (fst s') = DONE \<and> response_status (fst s') = Some 413"
proof -
  obtain c w where s: "s = (c, w)" "state c = READING_REQUEST" "request_buf c = buf"
    using assms(1) by (cases s) (auto simp: reading_def)
  have "recv_data CLIENT_RECV_SIZE d = d" "d \<noteq> []" using assms(2) by (auto simp: piece_def recv_data_def)
  with s assms(3) show ?thesis by (simp add: Let_def case_prod_unfold)
qed

theorem oversize_is_refused_witness:
  "\<exists>s s'. handle_client_readable (demo_io\<lparr>io_recv := Received ''x''\<rparr>) s = Returned s' \<and>
     response_status (fst s') = Some 413"
proof -
  let ?s = "apfst (request_buf_update (\<lambda>_. replicate (nat MAX_REQUEST_SIZE) CHR ''x'')) demo_start"
  have "reading (replicate (nat MAX_REQUEST_SIZE) CHR ''x'') ?s"
    by (simp add: reading_def demo_start_def new_connection_def monotonic_def)
  moreover have "piece CLIENT_RECV_SIZE ''x''" by (simp add: piece_def CLIENT_RECV_SIZE_def)
  moreover have "MAX_REQUEST_SIZE < int (length (replicate (nat MAX_REQUEST_SIZE) CHR ''x'' @ ''x''))"
    by (simp add: MAX_REQUEST_SIZE_def)
  ultimately show ?thesis using oversize_is_refused [of _ ?s "''x''" demo_io] by blast
qed

text \<open>A complete request that meets a pool without a healthy backend is answered with 503.\<close>

theorem empty_pool_is_refused:
  assumes "phase_ok s" and "reading buf s" and "piece CLIENT_RECV_SIZE d"
    and "int (length (buf @ d)) \<le> MAX_REQUEST_SIZE" and "try_parse_request (buf @ d) = Some req"
    and "healthy_pool (w_router (snd s)) = {}"
  shows "\<exists>s'. handle_client_readable (io\<lparr>io_recv := Received d\<rparr>) s = Returned s' \<and>
    state (fst s') = DONE \<and> response_status (fst s') = Some 503"
proof -
  obtain c w where s: "s = (c, w)" "state c = READING_REQUEST" "request_buf c = buf"
    using assms(2) by (cases s) (auto simp: reading_def)
  have d: "recv_data CLIENT_RECV_SIZE d = d" "d \<noteq> []" using assms(3) by (auto simp: piece_def recv_data_def)
  have ok: "router_ok (w_router w)" using phase_known [OF assms(1)] by (simp add: s client_known_def world_ok_def)
  define t where "t = refresh_deadline (c\<lparr>request_buf := buf @ d\<rparr>, w)"
  have "w_router (snd t) = w_router w" by (simp add: t_def)
  with router.select_None [OF ok, of None] assms(6) s have "fst (next_backend (w_router (snd t)) None) = None" by simp
  then obtain w' where sel: "router_select None (snd t) = (None, w')"
    by (cases "next_backend (w_router (snd t)) None") (simp add: router_select_def)
  have "handle_client_readable (io\<lparr>io_recv := Received d\<rparr>) s = forward_request (io\<lparr>io_recv := Received d\<rparr>) req t"
    using s d assms(4,5) by (simp add: Let_def case_prod_unfold t_def)
  moreover have "\<exists>s'. forward_request io' req t = Returned s' \<and> state (fst s') = DONE \<and> response_status (fst s') = Some 503" for io'
    using sel by (cases t) (simp add: forward_request.simps Let_def)
  ultimately show ?thesis by simp
qed

theorem empty_pool_is_refused_witness:
  "\<exists>s s'. handle_client_readable (demo_io\<lparr>io_recv := Received demo_request\<rparr>) s = Returned s' \<and>
     response_status (fst s') = Some 503"
proof -
  let ?w = "demo_world\<lparr>w_router := RR (rr_init [])\<rparr>"
  let ?s = "new_connection 0 (''10.0.0.5'', 4000) ?w"
  have "accepted ?s"
    unfolding accepted_def by (rule exI [of _ 0], rule exI [of _ "(''10.0.0.5'', 4000)"], rule exI [of _ ?w])
      (simp add: demo_world_def world_ok_def rr_init_def rr_ok_def)
  then have "phase_ok ?s" by (rule phase_accepted)
  moreover have "reading [] ?s" "w_router (snd ?s) = RR (rr_init [])"
    by (simp_all add: reading_def new_connection_def monotonic_def)
  moreover have "length demo_request = 18" by code_simp
  moreover obtain req where "try_parse_request demo_request = Some req"
  proof -
    have "try_parse_request demo_request \<noteq> None" by code_simp
    then show thesis using that by blast
  qed
  moreover have "demo_request \<noteq> []" by code_simp
  ultimately show ?thesis
    using empty_pool_is_refused [of ?s "[]" demo_request req demo_io]
    by (auto simp: piece_def CLIENT_RECV_SIZE_def MAX_REQUEST_SIZE_def rr_get_healthy_backends_def rr_init_def
        simp del: handle_client_readable.simps)
qed

end
