(* ===== verification/Served.thy ===== *)
theory Served
  imports ConnectionTheorems
begin

text \<open>
  A whole exchange that goes well, from the first byte of the request to the last byte of the response:
  every step of \<open>connection.py\<close> on its way, composed as one run.
\<close>

section \<open>What the steps leave alone\<close>

definition kept :: "session \<Rightarrow> session \<Rightarrow> bool" where
  "kept s t \<longleftrightarrow> parsed_request (fst t) = parsed_request (fst s) \<and> backend_addr (fst t) = backend_addr (fst s) \<and>
     backend_sock (fst t) = backend_sock (fst s) \<and> client_sock (fst t) = client_sock (fst s) \<and>
     client_addr (fst t) = client_addr (fst s) \<and> forward_buf (fst t) = forward_buf (fst s) \<and>
     disconnect_notified (fst t) = disconnect_notified (fst s) \<and>
     tried_backends (fst t) = tried_backends (fst s) \<and> w_log (snd t) = w_log (snd s) \<and>
     w_router (snd t) = w_router (snd s)"

lemma kept_refl [simp]: "kept s s"
  by (simp add: kept_def)

lemma kept_trans: "kept s t \<Longrightarrow> kept t u \<Longrightarrow> kept s u"
  by (simp add: kept_def)

lemma kept_refresh [simp]: "kept s (refresh_deadline t) = kept s t"
  by (simp add: kept_def)

lemma kept_state [simp]: "kept s (set_state x t) = kept s t"
  by (simp add: kept_def)

lemma send_forward_addr [simp]: "client_addr (fst (send_forward b n s)) = client_addr (fst s)"
  "client_addr (fst (send_relay n s)) = client_addr (fst s)"
  by (simp_all add: send_forward_def send_relay_def Let_def)

lemma kept_forward [simp]: "kept s (send_forward b n t) = kept s t"
  by (simp add: kept_def)

lemma play_append: "play (xs @ ys) s = Option.bind (play xs s) (play ys)"
  by (induction xs arbitrary: s) (auto split: option.splits outcome.splits)

lemma play_still:
  assumes "\<And>x. x \<in> set evs \<Longrightarrow> handle (fst x) (snd x) s = Some (Returned s)"
  shows "play evs s = Some s"
  using assms
proof (induction evs)
  case (Cons x evs)
  obtain ev io where x: "x = (ev, io)" by (cases x)
  have "handle ev io s = Some (Returned s)" using Cons.prems [of x] by (simp add: x)
  with Cons.IH Cons.prems show ?case by (simp add: x del: handle.simps)
qed simp

section \<open>Asking\<close>

abbreviation ask_events :: "io \<Rightarrow> bytes list \<Rightarrow> (event \<times> io) list" where
  "ask_events io ds \<equiv> map (\<lambda>d. (Client_readable, io\<lparr>io_recv := Received d\<rparr>)) ds"

lemma play_asks: "feed_client io ds s = Returned t \<Longrightarrow> play (ask_events io ds) s = Some t"
proof (induction ds arbitrary: s)
  case (Cons d ds)
  then show ?case
    by (cases "handle_client_readable (io\<lparr>io_recv := Received d\<rparr>) s") (simp_all del: handle_client_readable.simps)
qed simp

definition connecting :: "http_request \<Rightarrow> backend \<Rightarrow> session \<Rightarrow> bool" where
  "connecting req b s \<longleftrightarrow> phase_ok s \<and> state (fst s) = CONNECTING_TO_BACKEND \<and> backend_addr (fst s) = Some b \<and>
     parsed_request (fst s) = Some req \<and> forward_buf (fst s) = serialise_request req"

lemma initiate_in_progress:
  "io_connect io (backend_attempts (fst s)) = Connect_errno EINPROGRESS \<Longrightarrow>
    initiate_backend_connect io s = Returned (open_backend (begun s))"
  by (subst initiate_backend_connect.simps) (simp add: begun_def EINPROGRESS_def Let_def del: open_backend.simps)

lemma begun_fields [simp]:
  "parsed_request (fst (begun s)) = parsed_request (fst s)" "backend_addr (fst (begun s)) = backend_addr (fst s)"
  "forward_buf (fst (begun s)) = forward_buf (fst s)" "client_addr (fst (begun s)) = client_addr (fst s)"
  "w_log (snd (begun s)) = w_log (snd s)" "state (fst (begun s)) = CONNECTING_TO_BACKEND"
  by (simp_all add: begun_def)

lemma open_kept [simp]:
  "parsed_request (fst (open_backend s)) = parsed_request (fst s)"
  "forward_buf (fst (open_backend s)) = forward_buf (fst s)" "client_addr (fst (open_backend s)) = client_addr (fst s)"
  "state (fst (open_backend s)) = state (fst s)"
  by (cases s; simp add: new_socket_def)+

lemma forward_request_connects:
  assumes "phase_ok t" and "state (fst t) = READING_REQUEST" and "healthy_pool (w_router (snd t)) \<noteq> {}"
    and "io_connect io 1 = Connect_errno EINPROGRESS"
  shows "\<exists>u b. forward_request io req t = Returned u \<and> b \<in> healthy_pool (w_router (snd t)) \<and>
    connecting (inject_forwarded_for req (fst (client_addr (fst t)))) b u \<and>
    client_addr (fst u) = client_addr (fst t) \<and> w_log (snd u) = w_log (snd t)"
proof -
  obtain c w where t: "t = (c, w)" by (cases t)
  have ok: "router_ok (w_router w)" using phase_known [OF assms(1)] by (simp add: t client_known_def world_ok_def)
  obtain ob w' where sel: "router_select None w = (ob, w')" by fastforce
  then obtain r' where r: "next_backend (w_router w) None = (ob, r')" "w' = w\<lparr>w_router := r'\<rparr>"
    by (rule router_selectE)
  from router.select_None [OF ok, of None] assms(3) r(1) t obtain b where b: "ob = Some b" by (cases ob) auto
  with router.select_Some [OF ok, of None b] r(1) have mem: "b \<in> healthy_pool (w_router w)" by simp
  let ?u = "final (forward_request io req t)"
  from sel b assms(4) have ret: "forward_request io req t = Returned ?u"
    and u: "state (fst ?u) = CONNECTING_TO_BACKEND" "backend_addr (fst ?u) = Some b"
      "parsed_request (fst ?u) = Some (inject_forwarded_for req (fst (client_addr c)))"
      "forward_buf (fst ?u) = serialise_request (inject_forwarded_for req (fst (client_addr c)))"
      "client_addr (fst ?u) = client_addr c" "w_log (snd ?u) = w_log w'"
    by (simp_all add: t forward_request.simps Let_def initiate_in_progress del: open_backend.simps)
  have "phase_ok ?u" using phase_forward_request [of c w io req] assms(1,2) ret by (metis fst_conv outcome_ok.simps(1) t)
  with ret u mem r(2) t show ?thesis by (auto simp: connecting_def)
qed

section \<open>Forwarding\<close>

abbreviation send_events :: "io \<Rightarrow> nat list \<Rightarrow> (event \<times> io) list" where
  "send_events io ns \<equiv> map (\<lambda>n. (Backend_writable, io\<lparr>io_send := Sent n\<rparr>)) ns"

lemma writable_ignored: "state (fst s) = READING_RESPONSE \<Longrightarrow> handle Backend_writable io s = Some (Returned s)"
  by (cases s) simp

lemma forward_step:
  assumes "state (fst s) = FORWARDING_REQUEST" and "backend_sock (fst s) = Some b"
  shows "handle Backend_writable (io\<lparr>io_send := Sent n\<rparr>) s = Some
    (if forward_offset (fst (send_forward b n s)) \<ge> length (forward_buf (fst (send_forward b n s)))
     then Returned (refresh_deadline (set_state READING_RESPONSE (send_forward b n s)))
     else Returned (send_forward b n s))"
  using assms by (cases s) (simp add: forward_some_def Let_def del: send_forward_fields)

lemma forwards:
  assumes "phase_ok s" and "state (fst s) = FORWARDING_REQUEST"
    and "length (forward_buf (fst s)) - forward_offset (fst s) \<le> sum_list ns"
  shows "\<exists>t. play (send_events io ns) s = Some t \<and> state (fst t) = READING_RESPONSE \<and> kept s t \<and> response_fresh (fst t)"
  using assms
proof (induction ns arbitrary: s)
  case Nil
  then show ?case by (simp add: phase_ok_def)
next
  case (Cons n ns)
  let ?io = "io\<lparr>io_send := Sent n\<rparr>"
  from Cons.prems(1,2) obtain b where b: "backend_sock (fst s) = Some b" "response_fresh (fst s)"
    by (auto simp: phase_ok_def linked_def)
  let ?t = "send_forward b n s"
  note h = forward_step [OF Cons.prems(2) b(1)]
  show ?case
  proof (cases "forward_offset (fst ?t) \<ge> length (forward_buf (fst ?t))")
    case True
    let ?u = "refresh_deadline (set_state READING_RESPONSE ?t)"
    have "play (send_events io ns) ?u = Some ?u"
      by (rule play_still) (auto simp del: handle.simps intro!: writable_ignored)
    moreover have "response_fresh (fst ?u)" using b(2) by simp
    moreover have "handle Backend_writable ?io s = Some (Returned ?u)" unfolding h if_P [OF True] ..
    ultimately show ?thesis by (simp del: handle.simps)
  next
    case False
    have step: "handle Backend_writable ?io s = Some (Returned ?t)" unfolding h if_not_P [OF False] ..
    with phase_handle [OF Cons.prems(1) this] have "phase_ok ?t" by simp
    moreover have "length (forward_buf (fst ?t)) - forward_offset (fst ?t) \<le> sum_list ns"
      using Cons.prems(3) False by simp
    ultimately obtain u where "play (send_events io ns) ?t = Some u" "state (fst u) = READING_RESPONSE" "kept ?t u"
        "response_fresh (fst u)"
      using Cons.IH [of ?t] Cons.prems(2) by auto
    with step kept_trans [of s ?t u] show ?thesis by (auto simp del: handle.simps)
  qed
qed

lemma connects_and_forwards:
  assumes "phase_ok s" and "state (fst s) = CONNECTING_TO_BACKEND" and "io_sockopt io = Some 0"
    and "length (forward_buf (fst s)) \<le> sum_list ns"
  shows "\<exists>t. play (send_events io ns) s = Some t \<and> state (fst t) = READING_RESPONSE \<and> kept s t \<and> response_fresh (fst t)"
proof -
  obtain c w where s: "s = (c, w)" by (cases s)
  let ?s = "refresh_deadline (c\<lparr>state := FORWARDING_REQUEST\<rparr>, w)"
  from assms(1,2) have e: "engaged s" "linked s" "forward_offset (fst s) = 0" by (auto simp: phase_ok_def)
  then have "forward_buf (fst s) \<noteq> []" by (auto simp: engaged_def)
  with assms(4) obtain n ms where ns: "ns = n # ms" by (cases ns) auto
  have ok: "phase_ok ?s" using phase_connected [of c w] assms(1,2) s by simp
  have st: "state (fst ?s) = FORWARDING_REQUEST" by simp
  have k: "kept s ?s" by (simp add: s) (simp add: kept_def)
  have "handle Backend_writable (io\<lparr>io_send := Sent n\<rparr>) s = handle Backend_writable (io\<lparr>io_send := Sent n\<rparr>) ?s"
    using assms(2,3) e(2) st by (cases ?s) (auto simp: s linked_def)
  then have "play (send_events io ns) s = play (send_events io ns) ?s" by (simp add: ns del: handle.simps)
  moreover have "length (forward_buf (fst ?s)) - forward_offset (fst ?s) \<le> sum_list ns"
    using assms(4) by (simp add: s)
  ultimately show ?thesis using forwards [OF ok st] kept_trans [OF k] by fastforce
qed

section \<open>Reading the response\<close>

lemma status_stable:
  assumes "fst (parse_response_status buf) \<noteq> None"
  shows "parse_response_status (buf @ d) = parse_response_status buf"
proof (cases "find_sub LINE_DELIM buf")
  case None
  with assms show ?thesis by (simp add: parse_response_status_def)
next
  case (Some i)
  then show ?thesis using find_sub_append [OF Some, of d] find_sub_bound [OF Some]
    by (simp add: parse_response_status_def)
qed

text \<open>The status is that of what has been read.\<close>

definition status_noted :: "proxy_connection \<Rightarrow> bool" where
  "status_noted c \<longleftrightarrow> response_status c = fst (parse_response_status (response_buf c))"

lemma status_fresh: "response_fresh c \<Longrightarrow> status_noted c"
  by (simp add: response_fresh_def status_noted_def) (simp add: parse_response_status_def LINE_DELIM_def)

lemma status_after:
  "status_noted c \<Longrightarrow> response_status (note_status (c\<lparr>response_buf := response_buf c @ d\<rparr>)) =
    fst (parse_response_status (response_buf c @ d))"
  using status_stable [of "response_buf c" d] by (auto simp: status_noted_def note_status_def split: option.splits)

lemma refresh_status [simp]: "response_status (fst (refresh_deadline s)) = response_status (fst s)"
  by (cases s; simp add: refresh_deadline.simps monotonic_def split: option.splits)

lemma note_headers_status [simp]: "response_status (note_headers c) = response_status c"
  by (simp add: note_headers_def Let_def)

lemma noted_addr [simp]: "client_addr (note_status c) = client_addr c" "client_addr (note_headers c) = client_addr c"
  by (simp_all add: note_status_def note_headers_def Let_def split: option.splits)

text \<open>One piece of the response.\<close>

definition read_from :: "bytes \<Rightarrow> session \<Rightarrow> session \<Rightarrow> bool" where
  "read_from buf s t \<longleftrightarrow> kept s t \<and> w_wire (snd t) = w_wire (snd s) \<and>
     response_status (fst t) = fst (parse_response_status buf)"

lemma kept_check:
  assumes "check_complete (c, w) = Some t"
  shows "kept (c, w) t \<and> w_wire (snd t) = w_wire w \<and> response_status (fst t) = response_status c"
  using assms by (auto simp: Let_def kept_def split: if_splits option.splits)

lemma piece_read:
  assumes "awaiting buf s" and "status_noted (fst s)" and "piece BACKEND_RECV_SIZE d"
    and "handle_backend_readable (io\<lparr>io_recv := Received d\<rparr>) s = Some (Returned t)"
  shows "read_from (buf @ d) s t"
proof -
  obtain c w b where s: "s = (c, w)" "backend_sock c = Some b" "state c = READING_RESPONSE" "response_buf c = buf"
    using assms(1) by (cases s) (auto simp: awaiting_def)
  have d: "recv_data BACKEND_RECV_SIZE d = d" "d \<noteq> []" using assms(3) by (auto simp: piece_def recv_data_def)
  let ?r = "refresh_deadline (c\<lparr>response_buf := response_buf c @ d\<rparr>, w)"
  let ?n = "note_headers (note_status (fst ?r))"
  have t: "check_complete (?n, snd ?r) = Some t"
    using assms(4) s(1-3) d by (simp add: Let_def case_prod_unfold del: check_complete.simps split: option.splits)
  have "kept s (?n, snd ?r)" "w_wire (snd ?r) = w_wire (snd s)" by (simp_all add: kept_def s(1))
  moreover have "response_status ?n = fst (parse_response_status (buf @ d))"
    using status_after [of c d] assms(2) s(1,4) by (auto simp: note_status_def split: option.splits if_splits)
  ultimately show ?thesis using kept_check [OF t] kept_trans [of s] by (auto simp: read_from_def)
qed

lemma read_trans: "read_from buf s t \<Longrightarrow> read_from buf' t u \<Longrightarrow> read_from buf' s u"
  using kept_trans [of s t u] by (auto simp: read_from_def)

lemma pieces_read:
  assumes "awaiting buf s" and "status_noted (fst s)" and "\<forall>d \<in> set ds. piece BACKEND_RECV_SIZE d"
    and "feed_backend io ds s = Some (Returned t)" and "ds \<noteq> []"
    and "\<And>xs. strict_prefix xs ds \<Longrightarrow> xs \<noteq> [] \<Longrightarrow> framing (buf @ concat xs) = Some None"
  shows "read_from (buf @ concat ds) s t"
  using assms
proof (induction ds arbitrary: buf s)
  case (Cons d ds)
  have d: "piece BACKEND_RECV_SIZE d" using Cons.prems(3) by simp
  obtain u where u: "handle_backend_readable (io\<lparr>io_recv := Received d\<rparr>) s = Some (Returned u)"
      "feed_backend io ds u = Some (Returned t)"
    using Cons.prems(4) by (auto split: option.splits outcome.splits)
  have read: "read_from (buf @ d) s u" by (rule piece_read [OF Cons.prems(1,2) d u(1)])
  show ?case
  proof (cases "ds = []")
    case True
    with read u(2) show ?thesis by simp
  next
    case False
    have "framing (buf @ d) = Some None" using Cons.prems(6) [of "[d]"] False by (simp add: strict_prefix_def)
    from handle_piece(2) [OF Cons.prems(1) d this, of io] u(1) have aw: "awaiting (buf @ d) u"
      by (auto simp del: handle_backend_readable.simps)
    moreover have "status_noted (fst u)" using read aw by (simp add: read_from_def status_noted_def awaiting_def)
    moreover have "framing ((buf @ d) @ concat xs) = Some None" if "strict_prefix xs ds" "xs \<noteq> []" for xs
      using Cons.prems(6) [of "d # xs"] that by simp
    ultimately have "read_from ((buf @ d) @ concat ds) u t"
      using Cons.IH [of "buf @ d" u] Cons.prems(3) u(2) False by auto
    with read_trans [OF read] show ?thesis by simp
  qed
qed simp

abbreviation answer_events :: "io \<Rightarrow> bytes list \<Rightarrow> (event \<times> io) list" where
  "answer_events io ds \<equiv> map (\<lambda>d. (Backend_readable, io\<lparr>io_recv := Received d\<rparr>)) ds"

lemma play_answers: "feed_backend io ds s = Some (Returned t) \<Longrightarrow> play (answer_events io ds) s = Some t"
  by (induction ds arbitrary: s)
    (auto simp del: handle_backend_readable.simps split: option.splits outcome.splits)

section \<open>Relaying\<close>

abbreviation relay_events :: "io \<Rightarrow> nat list \<Rightarrow> (event \<times> io) list" where
  "relay_events io ns \<equiv> map (\<lambda>n. (Client_writable, io\<lparr>io_send := Sent n\<rparr>)) ns"

lemma kept_relay [simp]: "kept s (send_relay n t) = kept s t"
  by (simp add: kept_def) (simp add: send_relay_def Let_def)

lemma relay_status [simp]: "response_status (fst (send_relay n s)) = response_status (fst s)"
  by (simp add: send_relay_def Let_def)

lemma relays_to_end:
  assumes "phase_ok s" and "state (fst s) = FORWARDING_RESPONSE" and "ns \<noteq> []"
    and "length (relay_buf (fst s)) - relay_offset (fst s) \<le> sum_list ns"
  shows "\<exists>t. play (relay_events io ns) s = Some (finish t) \<and> kept s t \<and> client_wire t = relay_buf (fst s) \<and>
    response_status (fst t) = response_status (fst s) \<and>
    (\<forall>x. x \<noteq> client_sock (fst s) \<longrightarrow> w_wire (snd t) x = w_wire (snd s) x)"
  using assms
proof (induction ns arbitrary: s)
  case (Cons n ns)
  let ?io = "io\<lparr>io_send := Sent n\<rparr>" let ?t = "send_relay n s"
  have h: "handle Client_writable ?io s = Some (if relay_offset (fst ?t) \<ge> length (relay_buf (fst ?t))
      then Returned (finish ?t) else Returned ?t)"
    using Cons.prems(2) by (simp add: handle_client_writable_def Let_def del: send_relay_fields)
  have wire: "w_wire (snd ?t) x = w_wire (snd s) x" if "x \<noteq> client_sock (fst s)" for x
    using that by (simp add: send_relay_wire)
  have old: "client_wire s = take (relay_offset (fst s)) (relay_buf (fst s))"
    "relay_offset (fst s) \<le> length (relay_buf (fst s))"
    using Cons.prems(1,2) by (auto simp: phase_ok_def)
  show ?case
  proof (cases "relay_offset (fst ?t) \<ge> length (relay_buf (fst ?t))")
    case True
    have "handle Client_writable ?io s = Some (Returned (finish ?t))" unfolding h if_P [OF True] ..
    moreover have "play (relay_events io ns) (finish ?t) = Some (finish ?t)"
      by (rule play_still) (simp add: handle_done del: handle.simps)
    moreover have "length (relay_buf (fst s)) \<le> relay_offset (fst s) + n"
      using True by (auto simp: min_def split: if_splits)
    then have "client_wire ?t = relay_buf (fst s)"
      using old unfolding client_wire_def [of ?t] by (simp add: send_relay_wire flip: take_add)
    ultimately show ?thesis using wire by (auto simp del: handle.simps intro!: exI [of _ ?t])
  next
    case False
    have step: "handle Client_writable ?io s = Some (Returned ?t)" unfolding h if_not_P [OF False] ..
    with phase_handle [OF Cons.prems(1) this] have "phase_ok ?t" by simp
    moreover have "length (relay_buf (fst ?t)) - relay_offset (fst ?t) \<le> sum_list ns"
      using Cons.prems(4) False by simp
    moreover have "ns \<noteq> []" using Cons.prems(4) False by auto
    ultimately obtain u where "play (relay_events io ns) ?t = Some (finish u)" "kept ?t u"
        "client_wire u = relay_buf (fst ?t)" "response_status (fst u) = response_status (fst ?t)"
        "\<forall>x. x \<noteq> client_sock (fst ?t) \<longrightarrow> w_wire (snd u) x = w_wire (snd ?t) x"
      using Cons.IH [of ?t] Cons.prems(2) by auto
    with step wire kept_trans [of s ?t u] show ?thesis by (auto simp del: handle.simps intro!: exI [of _ u])
  qed
qed simp

lemma finish_kept [simp]: "backend_sock (fst (finish s)) = backend_sock (fst s)"
proof -
  have "backend_sock (fst (notify_disconnect t)) = backend_sock (fst t)" for t by (cases t) (auto split: option.splits)
  moreover have "backend_sock (fst (log_request s)) = backend_sock (fst s)" by (cases s) (simp add: monotonic_def)
  ultimately show ?thesis by (simp add: finish_def)
qed

lemma finish_log:
  assumes "parsed_request (fst s) = Some req" and "backend_addr (fst s) = Some b"
  shows "\<exists>latency. w_log (snd (finish s)) = w_log (snd s) @ [log_record (fst s) req b latency]"
proof (cases s)
  case (Pair c w)
  have "w_log (snd (finish s)) = w_log (snd (log_request s))" by (simp add: finish_def)
  with assms show ?thesis by (auto simp: Pair monotonic_def access_log_def)
qed

section \<open>The whole exchange\<close>

text \<open>A response of any framing that is complete, and none of whose beginnings is.\<close>

definition response_message :: "bytes \<Rightarrow> bool" where
  "response_message msg \<longleftrightarrow> msg \<noteq> [] \<and> framing msg = Some (Some msg) \<and>
     (\<forall>q. strict_prefix q msg \<longrightarrow> framing q = Some None)"

lemma response_messages:
  "head_ok head \<Longrightarrow> is_chunked_response head = Some False \<Longrightarrow>
    get_response_content_length head = int (length body) \<Longrightarrow> response_message (head @ body)"
  "head_ok head \<Longrightarrow> is_chunked_response head = Some True \<Longrightarrow> \<forall>c \<in> set cs. chunk_ok c \<Longrightarrow> trailers_ok ts \<Longrightarrow>
    response_message (head @ encode_chunked cs ts)"
proof -
  have ne: "head @ body \<noteq> []" if "head_ok head" for head body using that by (auto simp: head_ok_def)
  show "head_ok head \<Longrightarrow> is_chunked_response head = Some False \<Longrightarrow>
    get_response_content_length head = int (length body) \<Longrightarrow> response_message (head @ body)"
    using framing_length ne by (simp add: response_message_def)
  show "head_ok head \<Longrightarrow> is_chunked_response head = Some True \<Longrightarrow> \<forall>c \<in> set cs. chunk_ok c \<Longrightarrow> trailers_ok ts \<Longrightarrow>
    response_message (head @ encode_chunked cs ts)"
    using framing_chunked ne by (simp add: response_message_def)
qed

abbreviation asked_of :: "session \<Rightarrow> http_request \<Rightarrow> http_request" where
  "asked_of s req \<equiv> inject_forwarded_for req (fst (client_addr (fst s)))"

text \<open>The request, up to the point where the response is awaited.\<close>

lemma exchange_asks:
  assumes "accepted s" and "healthy_pool (w_router (snd s)) \<noteq> {}"
    and "wf_request req" and "int (length (serialise_request req)) \<le> MAX_REQUEST_SIZE"
    and "\<forall>d \<in> set ds. piece CLIENT_RECV_SIZE d" and "concat ds = serialise_request req"
    and "io_connect io 1 = Connect_errno EINPROGRESS" and "io_sockopt io = Some 0"
    and "length (serialise_request (asked_of s req)) \<le> sum_list ns"
  shows "\<exists>v b sock raw n. play (ask_events io ds @ send_events io ns) s = Some v \<and> phase_ok v \<and> awaiting [] v \<and>
    status_noted (fst v) \<and> b \<in> healthy_pool (w_router (snd s)) \<and> backend_addr (fst v) = Some b \<and>
    parsed_request (fst v) = Some (asked_of s (req\<lparr>req_raw_header_bytes := raw, req_header_length := n\<rparr>)) \<and>
    backend_sock (fst v) = Some sock \<and> sock \<noteq> client_sock (fst v) \<and>
    w_wire (snd v) sock = serialise_request (asked_of s req) \<and> client_addr (fst v) = client_addr (fst s) \<and>
    w_log (snd v) = w_log (snd s)"
proof -
  have s: "phase_ok s" by (rule phase_accepted [OF assms(1)])
  have reading: "reading [] s"
    using assms(1) by (auto simp: accepted_def reading_def new_connection_def monotonic_def)
  from feed_request(2) [OF reading assms(5,3,6,4), of io] obtain t raw n d where
    t: "feed_client io ds s = forward_request (io\<lparr>io_recv := Received d\<rparr>)
        (req\<lparr>req_raw_header_bytes := raw, req_header_length := n\<rparr>) t" "undisturbed s t" "state (fst t) = READING_REQUEST"
    by blast
  let ?req = "req\<lparr>req_raw_header_bytes := raw, req_header_length := n\<rparr>"
  have same: "client_addr (fst t) = client_addr (fst s)" "w_router (snd t) = w_router (snd s)"
    "w_log (snd t) = w_log (snd s)" "phase_ok t"
    using t(2) s by (simp_all add: undisturbed_def)
  with forward_request_connects [of t "io\<lparr>io_recv := Received d\<rparr>" ?req] t(3) assms(2,7) obtain u b where
    u: "forward_request (io\<lparr>io_recv := Received d\<rparr>) ?req t = Returned u" "b \<in> healthy_pool (w_router (snd s))"
      "connecting (asked_of s ?req) b u" "client_addr (fst u) = client_addr (fst s)" "w_log (snd u) = w_log (snd s)"
    by auto
  from u(1) t(1) have ask: "play (ask_events io ds) s = Some u" by (intro play_asks) simp
  have fwd: "forward_buf (fst u) = serialise_request (asked_of s req)" using u(3) by (simp add: connecting_def)
  then obtain v where v: "play (send_events io ns) u = Some v" "state (fst v) = READING_RESPONSE" "kept u v"
      "response_fresh (fst v)"
    using connects_and_forwards [of u io ns] u(3) assms(8,9) by (auto simp: connecting_def)
  have play: "play (ask_events io ds @ send_events io ns) s = Some v" using ask v(1) by (simp add: play_append)
  have ok: "phase_ok v" by (rule play_phase [OF play s])
  with v(2) obtain sock where sock: "backend_sock (fst v) = Some sock" "sock \<noteq> client_sock (fst v)"
      "w_wire (snd v) sock = forward_buf (fst v)"
    by (auto simp: phase_ok_def linked_def)
  have "response_buf (fst v) = []" using v(4) by (simp add: response_fresh_def)
  then have "awaiting [] v" using v(2) sock(1) noted_fresh [OF v(4)] by (simp add: awaiting_def)
  moreover have "backend_addr (fst v) = Some b" "parsed_request (fst v) = Some (asked_of s ?req)"
    "w_wire (snd v) sock = serialise_request (asked_of s req)" "client_addr (fst v) = client_addr (fst s)"
    "w_log (snd v) = w_log (snd s)"
    using u(3-5) v(3) sock(3) fwd by (simp_all add: kept_def connecting_def)
  ultimately show ?thesis using play ok status_fresh [OF v(4)] u(2) sock(1,2) by blast
qed

text \<open>The response, from where it is awaited to the end of the connection.\<close>

lemma exchange_answers:
  assumes "phase_ok v" and "awaiting [] v" and "status_noted (fst v)"
    and "backend_addr (fst v) = Some b" and "parsed_request (fst v) = Some req" and "sock \<noteq> client_sock (fst v)"
    and "response_message msg" and "\<forall>d \<in> set rs. piece BACKEND_RECV_SIZE d" and "concat rs = msg"
    and "length msg \<le> sum_list ms"
  shows "\<exists>u latency. play (answer_events io rs @ relay_events io ms) v = Some (finish u) \<and> kept v u \<and> client_wire (finish u) = msg \<and>
    w_wire (snd (finish u)) sock = w_wire (snd v) sock \<and>
    w_log (snd (finish u)) = w_log (snd v) @ [(log_record (fst v) req b latency)\<lparr>log_status :=
      (case fst (parse_response_status msg) of None \<Rightarrow> 0 | Some code \<Rightarrow> code)\<rparr>]"
proof -
  have part: "framing (concat xs) = Some None" if "strict_prefix xs rs" for xs
  proof -
    from that obtain ys where "rs = xs @ ys" "ys \<noteq> []" by (auto simp: strict_prefix_def prefix_def)
    with assms(8,9) have "strict_prefix (concat xs) msg" by (auto simp: strict_prefix_def piece_def prefix_def)
    with assms(7) show ?thesis by (simp add: response_message_def)
  qed
  have ne: "msg \<noteq> []" "rs \<noteq> []" using assms(7,9) by (auto simp: response_message_def)
  have "\<exists>t. feed_backend io rs v = Some (Returned t) \<and> relaying msg t"
    by (rule feed_message(1) [OF assms(2,8,9)]) (use assms(7) in \<open>simp_all add: response_message_def\<close>)
  then obtain t where t: "feed_backend io rs v = Some (Returned t)" "relaying msg t" by blast
  have read: "read_from msg v t"
    using pieces_read [OF assms(2,3,8) t(1) ne(2)] part assms(9) by simp
  have "play (answer_events io rs) v = Some t" by (rule play_answers [OF t(1)])
  note play = this play_phase [OF this assms(1)]
  have "ms \<noteq> []" using assms(10) ne(1) by auto
  moreover have "state (fst t) = FORWARDING_RESPONSE" "relay_buf (fst t) = msg" "relay_offset (fst t) = 0"
    using t(2) by (simp_all add: relaying_def)
  ultimately obtain u where u: "play (relay_events io ms) t = Some (finish u)" "kept t u" "client_wire u = msg"
      "response_status (fst u) = response_status (fst t)"
      "\<forall>x. x \<noteq> client_sock (fst t) \<longrightarrow> w_wire (snd u) x = w_wire (snd t) x"
    using relays_to_end [OF play(2), of ms io] assms(10) by fastforce
  have kept: "kept v u" using read u(2) kept_trans [of v t u] by (simp add: read_from_def)
  with assms(4,5) obtain latency where
    log: "w_log (snd (finish u)) = w_log (snd u) @ [log_record (fst u) req b latency]"
    using finish_log [of u req b] by (auto simp: kept_def)
  have "log_record (fst u) req b latency = (log_record (fst v) req b latency)\<lparr>log_status :=
      (case fst (parse_response_status msg) of None \<Rightarrow> 0 | Some code \<Rightarrow> code)\<rparr>"
    using kept u(4) read by (simp add: log_record_def kept_def read_from_def)
  moreover have "w_wire (snd (finish u)) sock = w_wire (snd v) sock"
    using u(5) read assms(6) by (simp add: read_from_def kept_def)
  moreover have "client_wire (finish u) = msg" using u(3) by (simp add: client_wire_def)
  moreover have "play (answer_events io rs @ relay_events io ms) v = Some (finish u)" using play(1) u(1) by (simp add: play_append)
  ultimately show ?thesis using kept log by (auto simp: kept_def)
qed

text \<open>C1: An exchange that goes well is served: however the request and the response are cut by the network
  and however little the sends accept, the client gets the response byte for byte and the connection ends; a
  healthy backend got the request with the client's address added, one access record with the response's status
  is written, and the slot of the backend is free again.\<close>

theorem served_exchange:
  assumes "accepted s" and "healthy_pool (w_router (snd s)) \<noteq> {}"
    and "wf_request req" and "int (length (serialise_request req)) \<le> MAX_REQUEST_SIZE"
    and "\<forall>d \<in> set ds. piece CLIENT_RECV_SIZE d" and "concat ds = serialise_request req"
    and "io_connect io 1 = Connect_errno EINPROGRESS" and "io_sockopt io = Some 0"
    and "length (serialise_request (asked_of s req)) \<le> sum_list ns"
    and "response_message msg" and "\<forall>d \<in> set rs. piece BACKEND_RECV_SIZE d" and "concat rs = msg"
    and "length msg \<le> sum_list ms"
  shows "\<exists>t b sock latency. play (ask_events io ds @ send_events io ns @ answer_events io rs @ relay_events io ms) s = Some t \<and>
    state (fst t) = DONE \<and> client_wire t = msg \<and>
    b \<in> healthy_pool (w_router (snd s)) \<and> backend_sock (fst t) = Some sock \<and>
    w_wire (snd t) sock = serialise_request (asked_of s req) \<and>
    w_log (snd t) = w_log (snd s) @
      [\<lparr>log_client_ip = fst (client_addr (fst s)), log_client_port = snd (client_addr (fst s)),
        log_backend_ip = fst b, log_backend_port = snd b,
        log_method = req_method req, log_path = req_path req, log_version = req_version req,
        log_status = (case fst (parse_response_status msg) of None \<Rightarrow> 0 | Some code \<Rightarrow> code),
        log_latency_ms = latency\<rparr>] \<and>
    (\<forall>f. slots_ok f s \<longrightarrow> (\<forall>x. router_load (w_router (snd t)) x = f x))"
proof -
  from exchange_asks [OF assms(1-9)] obtain v b sock raw n where
    v: "play (ask_events io ds @ send_events io ns) s = Some v" "phase_ok v" "awaiting [] v" "status_noted (fst v)"
      "b \<in> healthy_pool (w_router (snd s))" "backend_addr (fst v) = Some b"
      "parsed_request (fst v) = Some (asked_of s (req\<lparr>req_raw_header_bytes := raw, req_header_length := n\<rparr>))"
      "backend_sock (fst v) = Some sock" "sock \<noteq> client_sock (fst v)"
      "w_wire (snd v) sock = serialise_request (asked_of s req)" "client_addr (fst v) = client_addr (fst s)"
      "w_log (snd v) = w_log (snd s)"
    by blast
  from exchange_answers [OF v(2-4,6,7,9) assms(10-13), of io] obtain u latency where
    u: "play (answer_events io rs @ relay_events io ms) v = Some (finish u)" "kept v u" "client_wire (finish u) = msg"
      "w_wire (snd (finish u)) sock = w_wire (snd v) sock"
      "w_log (snd (finish u)) = w_log (snd v) @ [(log_record (fst v)
        (asked_of s (req\<lparr>req_raw_header_bytes := raw, req_header_length := n\<rparr>)) b latency)\<lparr>log_status :=
        (case fst (parse_response_status msg) of None \<Rightarrow> 0 | Some code \<Rightarrow> code)\<rparr>]"
    by blast
  have play: "play (ask_events io ds @ send_events io ns @ answer_events io rs @ relay_events io ms) s = Some (finish u)"
    using play_append [of "ask_events io ds @ send_events io ns" "answer_events io rs @ relay_events io ms" s] v(1) u(1) by simp
  have "router_load (w_router (snd (finish u))) x = f x" if "slots_ok f s" for f x
    using play_slots [OF play phase_accepted [OF assms(1)] that] slots_okD(3) [of f "fst (finish u)" "snd (finish u)" x]
    by (simp add: held_finish)
  then show ?thesis using play u v
    by (intro exI [of _ "finish u"] exI [of _ b] exI [of _ sock] exI [of _ latency] conjI)
      (simp_all add: kept_def log_record_def inject_eq)
qed

theorem served_exchange_witness:
  "\<exists>t. play (ask_events demo_io [take 5 demo_request, drop 5 demo_request] @ send_events demo_io [7, 0, 1000] @
       answer_events demo_io [demo_head, ''h'', ''i''] @ relay_events demo_io [3, 100]) demo_start = Some t \<and>
     state (fst t) = DONE \<and> client_wire t = demo_head @ ''hi''"
proof -
  let ?req = "tiny_request\<lparr>req_method := ''GET'', req_headers := [], req_body := []\<rparr>"
  have pool: "healthy_pool (w_router (snd demo_start)) \<noteq> {}" by code_simp
  have req: "serialise_request ?req = demo_request" "wf_request ?req" by code_simp+
  have addr: "fst (client_addr (fst demo_start)) = ''10.0.0.5''"
    by (simp add: demo_start_def new_connection_def monotonic_def)
  have lens: "length demo_request = 18" "length demo_head = 38"
    "length (serialise_request (inject_forwarded_for ?req ''10.0.0.5'')) = 45" by code_simp+
  have head: "head_ok demo_head" "is_chunked_response demo_head = Some False"
    "get_response_content_length demo_head = int (length ''hi'')" by code_simp+
  have pieces: "\<forall>d \<in> set [take 5 demo_request, drop 5 demo_request]. piece CLIENT_RECV_SIZE d"
    "\<forall>d \<in> set [demo_head, ''h'', ''i'']. piece BACKEND_RECV_SIZE d"
    by code_simp+
  have io: "io_connect demo_io 1 = Connect_errno EINPROGRESS" "io_sockopt demo_io = Some 0"
    by (simp_all add: demo_io_def EINPROGRESS_def)
  have size: "int (length (serialise_request ?req)) \<le> MAX_REQUEST_SIZE"
    "length (serialise_request (asked_of demo_start ?req)) \<le> sum_list [7, 0, 1000]"
    "length (demo_head @ ''hi'') \<le> sum_list [3, 100]"
    by (simp_all add: req lens addr MAX_REQUEST_SIZE_def)
  have cut: "concat [take 5 demo_request, drop 5 demo_request] = serialise_request ?req"
    "concat [demo_head, ''h'', ''i''] = demo_head @ ''hi''" by (simp_all add: req)
  from served_exchange [OF demo_accepted pool req(2) size(1) pieces(1) cut(1) io size(2) response_messages(1) [OF head]
      pieces(2) cut(2) size(3)]
  show ?thesis by blast
qed

end
