(* ===== verification/FailedOver.thy ===== *)
theory FailedOver
  imports Served
begin

text \<open>
  An exchange in which backends fail, each in a way of its own, before one answers: the client sees
  nothing of it. \<open>_fail_backend\<close> of \<open>connection.py\<close> composed with the handlers around it.
\<close>

section \<open>Attempts\<close>

text \<open>The state in which \<open>_initiate_backend_connect\<close> is called, for an exchange that began at \<open>s0\<close>.\<close>

definition trying :: "http_request \<Rightarrow> session \<Rightarrow> backend \<Rightarrow> session \<Rightarrow> bool" where
  "trying req s0 b s \<longleftrightarrow> engaged s \<and> response_fresh (fst s) \<and> forward_offset (fst s) = 0 \<and>
     parsed_request (fst s) = Some req \<and> backend_addr (fst s) = Some b \<and>
     insert b (tried_backends (fst s)) \<subseteq> healthy_pool (w_router (snd s0)) \<and>
     healthy_pool (w_router (snd s)) = healthy_pool (w_router (snd s0)) \<and>
     client_addr (fst s) = client_addr (fst s0) \<and> w_log (snd s) = w_log (snd s0)"

text \<open>An attempt that is under way, and what its handlers leave alone of it.\<close>

definition under_way :: "http_request \<Rightarrow> session \<Rightarrow> backend \<Rightarrow> session \<Rightarrow> bool" where
  "under_way req s0 b s \<longleftrightarrow> engaged s \<and> parsed_request (fst s) = Some req \<and> backend_addr (fst s) = Some b \<and>
     insert b (tried_backends (fst s)) \<subseteq> healthy_pool (w_router (snd s0)) \<and>
     healthy_pool (w_router (snd s)) = healthy_pool (w_router (snd s0)) \<and>
     client_addr (fst s) = client_addr (fst s0) \<and> w_log (snd s) = w_log (snd s0)"

lemma under_way_kept:
  "under_way req s0 b s \<Longrightarrow> kept s t \<Longrightarrow> engaged t \<Longrightarrow>
    under_way req s0 b t \<and> tried_backends (fst t) = tried_backends (fst s)"
  by (simp add: under_way_def kept_def)

text \<open>What \<open>_fail_backend\<close> leaves alone.\<close>

lemma drop_outside [simp]:
  "client_addr (fst (drop_backend s)) = client_addr (fst s)" "w_log (snd (drop_backend s)) = w_log (snd s)"
proof -
  have "client_addr (fst (notify_disconnect t)) = client_addr (fst t)" "w_log (snd (notify_disconnect t)) = w_log (snd t)"
    "client_addr (fst (close_backend t)) = client_addr (fst t)" "w_log (snd (close_backend t)) = w_log (snd t)" for t
    by (cases t; simp add: router_release_def close_socket_def split: option.splits)+
  moreover have "client_addr (note_tried c) = client_addr c" for c by (simp add: note_tried_def split: option.splits)
  ultimately show "client_addr (fst (drop_backend s)) = client_addr (fst s)" "w_log (snd (drop_backend s)) = w_log (snd s)"
    by (simp_all add: drop_backend_def)
qed

lemma fail_retries:
  assumes "under_way req s0 b s" and "idempotent req" and "card (tried_backends (fst s)) < nat MAX_BACKEND_RETRIES"
    and "Suc (card (tried_backends (fst s))) < card (healthy_pool (w_router (snd s0)))"
  shows "\<exists>b' t. fail_backend io s = initiate_backend_connect io t \<and> trying req s0 b' t \<and>
    card (tried_backends (fst t)) = Suc (card (tried_backends (fst s)))"
proof -
  let ?d = "drop_backend s" let ?T = "insert b (tried_backends (fst s))"
  from assms(1) have e: "engaged s" "parsed_request (fst s) = Some req" "backend_addr (fst s) = Some b"
    by (simp_all add: under_way_def)
  then have fin: "finite (tried_backends (fst s))" "b \<notin> tried_backends (fst s)"
    "backend_attempts (fst s) = int (card (tried_backends (fst s))) + 1"
    by (auto simp: engaged_def attempts_ok_def)
  note d = drop_engaged [OF e]
  have T: "tried_backends (fst ?d) = ?T" by (simp add: e(3))
  have retry: "can_retry (fst ?d)" using d(1) assms(2,3) fin(3) by (simp add: MAX_BACKEND_RETRIES_def)
  have "\<not> healthy_pool (w_router (snd s)) \<subseteq> ?T"
    using card_mono [of ?T "healthy_pool (w_router (snd s))"] assms(1,4) fin by (auto simp: under_way_def)
  moreover obtain ob w where sel: "router_select (Some ?T) (snd ?d) = (ob, w)" by fastforce
  then obtain r' where r: "next_backend (w_router (snd ?d)) (Some ?T) = (ob, r')" "w = snd ?d\<lparr>w_router := r'\<rparr>"
    by (rule router_selectE)
  ultimately obtain b' where b': "ob = Some b'"
    using router.select_None [OF d(3), of "Some ?T"] d(2) by (cases ob) auto
  with router.select_Some [OF d(3), of "Some ?T"] r d(2) have mem: "b' \<in> healthy_pool (w_router (snd s)) - ?T" by simp
  have pool: "healthy_pool r' = healthy_pool (w_router (snd s))"
    using router.pool_select [of "w_router (snd ?d)" "Some ?T"] r(1) d(2) by simp
  let ?t = "(retry_reset b' (fst ?d), w)"
  have "fail_backend io s = initiate_backend_connect io ?t"
    using retry b' sel T by (simp add: fail_backend.simps Let_def del: drop_tried)
  moreover have "engaged ?t" using engaged_retry [OF e(1) retry] sel b' T by simp
  then have "trying req s0 b' ?t"
    using assms(1) mem pool r(2) T unfolding trying_def under_way_def
    by (simp add: retry_fresh) (simp add: retry_reset_def)
  moreover have "card (tried_backends (fst ?t)) = Suc (card (tried_backends (fst s)))"
    using fin T by (simp add: retry_reset_def del: drop_tried)
  ultimately show ?thesis by blast
qed

section \<open>Faults\<close>

text \<open>
  How an attempt fails: the connection is refused by \<open>connect_ex\<close> itself, or when the socket turns
  writable; a send fails after some have gone through; a receive fails, or the backend closes inside a chunked
  body, after pieces of a response have come.
\<close>

datatype fault =
  Refused_at_once int | Refused int | Send_broke "nat list" | Recv_broke "nat list" "bytes list"
| Cut_short "nat list" "bytes list"

text \<open>The events of a fault: what gets through, and the one that fails.\<close>

primrec fault_prelude :: "io \<Rightarrow> fault \<Rightarrow> (event \<times> io) list" where
  "fault_prelude io (Refused_at_once err) = []"
| "fault_prelude io (Refused err) = []"
| "fault_prelude io (Send_broke ns) = send_events io ns"
| "fault_prelude io (Recv_broke ns rs) = send_events io ns @ answer_events io rs"
| "fault_prelude io (Cut_short ns rs) = send_events io ns @ answer_events io rs"

primrec fault_blow :: "io \<Rightarrow> fault \<Rightarrow> (event \<times> io) list" where
  "fault_blow io (Refused_at_once err) = []"
| "fault_blow io (Refused err) = [(Backend_writable, io\<lparr>io_sockopt := Some err\<rparr>)]"
| "fault_blow io (Send_broke ns) = [(Backend_writable, io\<lparr>io_send := Send_failed\<rparr>)]"
| "fault_blow io (Recv_broke ns rs) = [(Backend_readable, io\<lparr>io_recv := Recv_failed\<rparr>)]"
| "fault_blow io (Cut_short ns rs) = [(Backend_readable, io\<lparr>io_recv := Received []\<rparr>)]"

abbreviation fault_events :: "io \<Rightarrow> fault \<Rightarrow> (event \<times> io) list" where
  "fault_events io f \<equiv> fault_prelude io f @ fault_blow io f"

definition unfinished :: "bytes list \<Rightarrow> bool" where
  "unfinished rs \<longleftrightarrow> (\<forall>d \<in> set rs. piece BACKEND_RECV_SIZE d) \<and>
     (\<forall>xs. prefix xs rs \<longrightarrow> xs \<noteq> [] \<longrightarrow> framing (concat xs) = Some None)"

fun fault_ok :: "bytes \<Rightarrow> fault \<Rightarrow> bool" where
  "fault_ok out (Refused_at_once err) = (err \<notin> {0, EINPROGRESS, EWOULDBLOCK, EAGAIN})"
| "fault_ok out (Refused err) = (err \<noteq> 0)"
| "fault_ok out (Send_broke ns) = (sum_list ns < length out)"
| "fault_ok out (Recv_broke ns rs) = (length out \<le> sum_list ns \<and> unfinished rs)"
| "fault_ok out (Cut_short ns rs) = (length out \<le> sum_list ns \<and> unfinished rs \<and>
     find_sub HEADER_DELIM (concat rs) \<noteq> None \<and> is_chunked_response (concat rs) = Some True)"

lemma unfinished_part:
  assumes "response_message msg" and "\<forall>d \<in> set rs. piece BACKEND_RECV_SIZE d" and "strict_prefix (concat rs) msg"
  shows "unfinished rs"
proof -
  have "strict_prefix (concat xs) msg" if "prefix xs rs" for xs
  proof -
    have "prefix (concat xs) (concat rs)" using that by (auto elim!: prefixE)
    from this assms(3) show ?thesis by (rule prefix_order.le_less_trans)
  qed
  with assms(1,2) show ?thesis by (simp add: unfinished_def response_message_def)
qed

text \<open>The answers of \<open>connect_ex\<close> from attempt \<open>n\<close> on.\<close>

primrec connects_as :: "io \<Rightarrow> int \<Rightarrow> fault list \<Rightarrow> bool" where
  "connects_as io n [] \<longleftrightarrow> io_connect io n = Connect_errno EINPROGRESS"
| "connects_as io n (f # fs) \<longleftrightarrow> io_connect io n =
     (case f of Refused_at_once err \<Rightarrow> Connect_errno err | _ \<Rightarrow> Connect_errno EINPROGRESS) \<and> connects_as io (n + 1) fs"

lemma connects_cong: "io_connect io' = io_connect io \<Longrightarrow> connects_as io' n fs = connects_as io n fs"
  by (induction fs arbitrary: n) simp_all

text \<open>What follows a handler that may have raised.\<close>

fun play_from :: "(event \<times> io) list \<Rightarrow> session outcome \<Rightarrow> session option" where
  "play_from evs (Returned s) = play evs s"
| "play_from evs (Raised s) = None"

lemma play_handled: "handle ev io s = Some r \<Longrightarrow> play ((ev, io) # evs) s = play_from evs r"
  by (cases r) simp_all

text \<open>The part of a fault that gets through leaves the attempt under way.\<close>

lemma engaged_awaiting: "phase_ok s \<Longrightarrow> state (fst s) = READING_RESPONSE \<Longrightarrow> engaged s"
  by (simp add: phase_ok_def)

lemma forwards_some:
  assumes "phase_ok s" and "state (fst s) = FORWARDING_REQUEST"
    and "forward_offset (fst s) + sum_list ns < length (forward_buf (fst s))"
  shows "\<exists>t. play (send_events io ns) s = Some t \<and> phase_ok t \<and> state (fst t) = FORWARDING_REQUEST \<and> kept s t"
  using assms
proof (induction ns arbitrary: s)
  case (Cons n ns)
  let ?io = "io\<lparr>io_send := Sent n\<rparr>"
  from Cons.prems(1,2) obtain b where b: "backend_sock (fst s) = Some b" by (auto simp: phase_ok_def linked_def)
  let ?t = "send_forward b n s"
  have "\<not> length (forward_buf (fst ?t)) \<le> forward_offset (fst ?t)" using Cons.prems(3) by simp
  then have step: "handle Backend_writable ?io s = Some (Returned ?t)"
    unfolding forward_step [OF Cons.prems(2) b] by (rule arg_cong [OF if_not_P])
  with phase_handle [OF Cons.prems(1) this] have ok: "phase_ok ?t" by simp
  have st: "state (fst ?t) = FORWARDING_REQUEST" using Cons.prems(2) by simp
  have "forward_offset (fst ?t) + sum_list ns < length (forward_buf (fst ?t))" using Cons.prems(3) by simp
  from Cons.IH [OF ok st this] obtain u where "play (send_events io ns) ?t = Some u" "phase_ok u"
      "state (fst u) = FORWARDING_REQUEST" "kept ?t u" by blast
  with step kept_trans [of s ?t u] show ?case by (auto simp del: handle.simps)
qed simp

text \<open>A socket that turns writable without an error is connected first, whatever the send does.\<close>

definition connected_now :: "session \<Rightarrow> session" where
  "connected_now s = refresh_deadline (set_state FORWARDING_REQUEST s)"

lemma connected_now:
  assumes "phase_ok s" and "state (fst s) = CONNECTING_TO_BACKEND" and "io_sockopt io = Some 0"
  shows "handle Backend_writable io s = handle Backend_writable io (connected_now s)"
    "phase_ok (connected_now s)" "state (fst (connected_now s)) = FORWARDING_REQUEST" "kept s (connected_now s)"
    "forward_buf (fst (connected_now s)) = forward_buf (fst s)" "forward_offset (fst (connected_now s)) = 0"
    "backend_sock (fst (connected_now s)) = backend_sock (fst s)"
proof -
  obtain c w where s: "s = (c, w)" by (cases s)
  from assms(1,2) have l: "linked s" "forward_offset (fst s) = 0" by (auto simp: phase_ok_def)
  then obtain b where b: "backend_sock c = Some b" by (auto simp: linked_def s)
  show "phase_ok (connected_now s)" using phase_connected [of c w] assms(1,2) by (simp add: s connected_now_def set_state_def)
  show st: "state (fst (connected_now s)) = FORWARDING_REQUEST" "kept s (connected_now s)"
    "forward_buf (fst (connected_now s)) = forward_buf (fst s)" "forward_offset (fst (connected_now s)) = 0"
    "backend_sock (fst (connected_now s)) = backend_sock (fst s)"
    using l by (simp_all add: connected_now_def)
  have "handle Backend_writable io s = Some (forward_some io (connected_now s))"
    using assms(2,3) b by (simp add: s connected_now_def set_state_def)
  then show "handle Backend_writable io s = handle Backend_writable io (connected_now s)"
    using st(1) by (cases "connected_now s") simp
qed

lemma play_connected:
  assumes "phase_ok s" and "state (fst s) = CONNECTING_TO_BACKEND" and "io_sockopt io = Some 0"
  shows "play ((Backend_writable, io) # evs) s = play ((Backend_writable, io) # evs) (connected_now s)"
  by (simp add: connected_now(1) [OF assms] del: handle.simps)

lemma reads_some:
  assumes "phase_ok s" and "state (fst s) = READING_RESPONSE" and "response_fresh (fst s)" and "unfinished rs"
  shows "\<exists>t. play (answer_events io rs) s = Some t \<and> phase_ok t \<and> awaiting (concat rs) t \<and> kept s t"
proof -
  have "backend_sock (fst s) \<noteq> None" "response_buf (fst s) = []"
    using assms(1-3) by (auto simp: phase_ok_def linked_def response_fresh_def)
  then have aw: "awaiting [] s" using assms(2) noted_fresh [OF assms(3)] by (simp add: awaiting_def)
  have pieces: "\<forall>d \<in> set rs. piece BACKEND_RECV_SIZE d"
    and part: "\<And>xs. prefix xs rs \<Longrightarrow> xs \<noteq> [] \<Longrightarrow> framing (concat xs) = Some None"
    using assms(4) by (simp_all add: unfinished_def)
  from feed_incomplete [OF aw pieces, of io] part obtain t where
    t: "feed_backend io rs s = Some (Returned t)" "awaiting (concat rs) t" by auto
  note play = play_answers [OF t(1)]
  have "kept s t"
  proof (cases "rs = []")
    case True
    with t(1) show ?thesis by simp
  next
    case False
    from pieces_read [OF aw status_fresh [OF assms(3)] pieces t(1) False] part show ?thesis
      by (auto simp: read_from_def strict_prefix_def)
  qed
  with play t(2) play_phase [OF play assms(1)] show ?thesis by blast
qed

lemma closed_in_body:
  assumes "awaiting buf s" and "framing buf = Some None" and "find_sub HEADER_DELIM buf \<noteq> None"
    and "is_chunked_response buf = Some True"
  shows "backend_closed io s = Some (fail_backend io s)"
proof -
  obtain c w where s: "s = (c, w)" by (cases s)
  from assms(3) obtain i where i: "find_sub HEADER_DELIM buf = Some i" by auto
  have c: "noted c" "response_buf c = buf" using assms(1) by (simp_all add: awaiting_def s)
  have "try_consume_chunked_body (drop (i + 4) buf) = Some None"
    using assms(2,4) i by (auto simp: framing_def split: option.splits)
  moreover have "py_slice_from buf (int i + int (length HEADER_DELIM)) = drop (i + 4) buf"
    unfolding delims(3) using py_slice_from_int [of buf "i + 4"] by simp
  ultimately show ?thesis using c assms(4) i by (simp add: s noted_def py_find_def Let_def)
qed

text \<open>A fault after \<open>connect_ex\<close> ends in \<open>_fail_backend\<close>.\<close>

lemma blow_fails:
  assumes "play (fault_prelude io f) v = Some u" and "fault_blow io f = [(ev, io')]"
    and "handle ev io' u = Some (fail_backend io' u)"
  shows "play (fault_events io f @ evs) v = play_from evs (fail_backend io' u)"
  by (simp add: play_append assms(1,2) play_handled [OF assms(3)] del: handle.simps play.simps(2))

lemma sends_some:
  assumes "phase_ok v" and "state (fst v) = CONNECTING_TO_BACKEND" and "io_sockopt io = Some 0"
    and "sum_list ns < length (forward_buf (fst v))"
  shows "\<exists>u. kept v u \<and> phase_ok u \<and> state (fst u) = FORWARDING_REQUEST \<and>
    (\<forall>evs. play (send_events io ns @ (Backend_writable, io\<lparr>io_send := Send_failed\<rparr>) # evs) v =
      play ((Backend_writable, io\<lparr>io_send := Send_failed\<rparr>) # evs) u)"
proof -
  note c = connected_now [OF assms(1,2)]
  have "forward_offset (fst (connected_now v)) + sum_list ns < length (forward_buf (fst (connected_now v)))"
    using assms(3,4) c(5,6) [of io] by simp
  from forwards_some [OF c(2,3) this] assms(3) obtain u where
    u: "play (send_events io ns) (connected_now v) = Some u" "phase_ok u" "state (fst u) = FORWARDING_REQUEST"
      "kept (connected_now v) u" by blast
  have "play (send_events io ns @ (Backend_writable, io\<lparr>io_send := Send_failed\<rparr>) # evs) v =
      play (send_events io ns @ (Backend_writable, io\<lparr>io_send := Send_failed\<rparr>) # evs) (connected_now v)" for evs
    using play_connected [OF assms(1,2), of "io\<lparr>io_send := x\<rparr>" for x] assms(3)
    by (cases ns) (simp_all del: handle.simps play.simps(2))
  with u c(4) [OF assms(3)] kept_trans [of v "connected_now v" u] show ?thesis
    by (auto simp: play_append simp del: handle.simps play.simps(2))
qed

lemma fault_breaks:
  assumes "phase_ok v" and "state (fst v) = CONNECTING_TO_BACKEND" and "io_sockopt io = Some 0"
    and "fault_ok (forward_buf (fst v)) f" and "\<nexists>err. f = Refused_at_once err"
  shows "\<exists>u io'. kept v u \<and> engaged u \<and> io_connect io' = io_connect io \<and>
    (\<forall>evs. play (fault_events io f @ evs) v = play_from evs (fail_backend io' u))"
proof -
  have linked: "\<exists>b. backend_sock (fst t) = Some b" if "phase_ok t"
    "state (fst t) \<in> {CONNECTING_TO_BACKEND, FORWARDING_REQUEST, READING_RESPONSE}" for t
    using phaseD(2) [OF that] by (auto simp: linked_def)
  have read: "\<exists>u. play (send_events io ns @ answer_events io rs) v = Some u \<and> phase_ok u \<and>
      awaiting (concat rs) u \<and> kept v u" if "length (forward_buf (fst v)) \<le> sum_list ns" "unfinished rs" for ns rs
  proof -
    from connects_and_forwards [OF assms(1-3) that(1)] obtain t where
      t: "play (send_events io ns) v = Some t" "state (fst t) = READING_RESPONSE" "kept v t" "response_fresh (fst t)"
      by blast
    from reads_some [OF play_phase [OF t(1) assms(1)] t(2,4) that(2), of io] obtain u where
      "play (answer_events io rs) t = Some u" "phase_ok u" "awaiting (concat rs) u" "kept t u" by blast
    with t(1,3) kept_trans [of v t u] show ?thesis by (auto simp: play_append)
  qed
  show ?thesis
  proof (cases f)
    case (Refused_at_once err)
    with assms(5) show ?thesis by simp
  next
    case (Refused err)
    have "handle Backend_writable (io\<lparr>io_sockopt := Some err\<rparr>) v = Some (fail_backend (io\<lparr>io_sockopt := Some err\<rparr>) v)"
      using linked [OF assms(1)] assms(2,4) Refused by (cases v) auto
    note blow = blow_fails [of io f v v, OF _ _ this]
    show ?thesis
      using blow phaseD(2) [OF assms(1)] assms(2) Refused
      by (intro exI [of _ v] exI [of _ "io\<lparr>io_sockopt := Some err\<rparr>"]) simp
  next
    case (Send_broke ns)
    let ?io = "io\<lparr>io_send := Send_failed\<rparr>"
    have "sum_list ns < length (forward_buf (fst v))" using assms(4) Send_broke by simp
    from sends_some [OF assms(1-3) this] obtain u where
      u: "kept v u" "phase_ok u" "state (fst u) = FORWARDING_REQUEST"
      "\<forall>evs. play (send_events io ns @ (Backend_writable, ?io) # evs) v = play ((Backend_writable, ?io) # evs) u"
      by blast
    have "handle Backend_writable ?io u = Some (fail_backend ?io u)"
      using linked [OF u(2)] u(3) by (cases u) (auto simp: forward_some_def)
    note h = play_handled [OF this]
    have "\<forall>evs. play (fault_events io f @ evs) v = play_from evs (fail_backend ?io u)"
      using u(4) Send_broke h by (simp del: play.simps(2) handle.simps)
    moreover have "engaged u" using phaseD(2) [OF u(2)] u(3) by simp
    ultimately show ?thesis using u(1) by (intro exI [of _ u] exI [of _ ?io]) simp
  next
    case (Recv_broke ns rs)
    from read [of ns rs] assms(4) Recv_broke obtain u where
      u: "play (fault_prelude io f) v = Some u" "phase_ok u" "awaiting (concat rs) u" "kept v u"
      by (simp only: fault_ok.simps fault_prelude.simps) blast
    let ?io = "io\<lparr>io_recv := Recv_failed\<rparr>"
    have "handle Backend_readable ?io u = Some (fail_backend ?io u)"
      using u(3) by (cases u) (auto simp: awaiting_def)
    from blow_fails [OF u(1) _ this] have "\<forall>evs. play (fault_events io f @ evs) v = play_from evs (fail_backend ?io u)"
      using Recv_broke by simp
    moreover have "engaged u" using phaseD(2) [OF u(2)] u(3) by (simp add: awaiting_def)
    ultimately show ?thesis using u(4) by (intro exI [of _ u] exI [of _ ?io]) simp
  next
    case (Cut_short ns rs)
    from read [of ns rs] assms(4) Cut_short obtain u where
      u: "play (fault_prelude io f) v = Some u" "phase_ok u" "awaiting (concat rs) u" "kept v u"
      by (simp only: fault_ok.simps fault_prelude.simps) blast
    let ?io = "io\<lparr>io_recv := Received []\<rparr>"
    have "rs \<noteq> []" using assms(4) Cut_short by (auto simp: HEADER_DELIM_def)
    then have "framing (concat rs) = Some None" using assms(4) Cut_short by (simp add: unfinished_def)
    from closed_in_body [OF u(3) this] assms(4) Cut_short
    have "handle Backend_readable ?io u = Some (fail_backend ?io u)"
      using u(3) by (cases u) (auto simp: awaiting_def recv_data_def simp del: backend_closed.simps)
    from blow_fails [OF u(1) _ this] have "\<forall>evs. play (fault_events io f @ evs) v = play_from evs (fail_backend ?io u)"
      using Cut_short by simp
    moreover have "engaged u" using phaseD(2) [OF u(2)] u(3) by (simp add: awaiting_def)
    ultimately show ?thesis using u(4) by (intro exI [of _ u] exI [of _ ?io]) simp
  qed
qed

section \<open>Until one answers\<close>

lemma initiate_refused:
  "io_connect io (backend_attempts (fst s)) = Connect_errno err \<Longrightarrow> err \<notin> {0, EINPROGRESS, EWOULDBLOCK, EAGAIN} \<Longrightarrow>
    initiate_backend_connect io s = fail_backend io (open_backend (begun s))"
  by (subst initiate_backend_connect.simps) (simp add: begun_def EINPROGRESS_def Let_def del: open_backend.simps)

lemma trying_opens:
  assumes "trying req s0 b s"
  shows "under_way req s0 b (open_backend (begun s))" "phase_ok (open_backend (begun s))"
    "state (fst (open_backend (begun s))) = CONNECTING_TO_BACKEND"
    "tried_backends (fst (open_backend (begun s))) = tried_backends (fst s)"
    "forward_buf (fst (open_backend (begun s))) = serialise_request req"
proof -
  let ?o = "open_backend (begun s)"
  from assms have s: "engaged s \<and> response_fresh (fst s) \<and> forward_offset (fst s) = 0" by (simp add: trying_def)
  then have "engaged ?o" by (simp add: engaged_open engaged_begun)
  moreover have "w_router (snd ?o) = w_router (snd s)" "w_log (snd ?o) = w_log (snd s)"
    "backend_addr (fst ?o) = backend_addr (fst s)" "tried_backends (fst ?o) = tried_backends (fst s)"
    by (simp_all add: begun_def)
  ultimately show "under_way req s0 b ?o" "tried_backends (fst ?o) = tried_backends (fst s)"
    using assms by (simp_all add: under_way_def trying_def)
  show "phase_ok ?o" by (rule phases.in_progress [OF s])
  show "state (fst ?o) = CONNECTING_TO_BACKEND" by simp
  show "forward_buf (fst ?o) = serialise_request req"
    using s assms by (auto simp: engaged_def trying_def)
qed

lemma attempts_go_on:
  assumes "trying req s0 b s" and "connects_as io (backend_attempts (fst s)) fs"
    and "fs \<noteq> [] \<longrightarrow> idempotent req" and "io_sockopt io = Some 0"
    and "card (tried_backends (fst s)) + length fs \<le> nat MAX_BACKEND_RETRIES"
    and "card (tried_backends (fst s)) + length fs < card (healthy_pool (w_router (snd s0)))"
    and "\<forall>f \<in> set fs. fault_ok (serialise_request req) f" and "io_connect io' = io_connect io"
  shows "\<exists>v b'. play_from (concat (map (fault_events io) fs)) (initiate_backend_connect io' s) = Some v \<and>
    under_way req s0 b' v \<and> phase_ok v \<and> state (fst v) = CONNECTING_TO_BACKEND \<and>
    card (tried_backends (fst v)) = card (tried_backends (fst s)) + length fs"
  using assms
proof (induction fs arbitrary: b s io')
  case Nil
  have "initiate_backend_connect io' s = Returned (open_backend (begun s))"
    using Nil.prems(2,8) by (intro initiate_in_progress) simp
  with trying_opens [OF Nil.prems(1)] show ?case by auto
next
  case (Cons f fs)
  let ?o = "open_backend (begun s)"
  note o = trying_opens [OF Cons.prems(1)]
  have n: "backend_attempts (fst s) = int (card (tried_backends (fst s))) + 1" if "trying req s0 b s" for b s
    using that by (auto simp: trying_def engaged_def attempts_ok_def)
  have again: "\<exists>v b'. play_from (concat (map (fault_events io) fs)) (fail_backend io'' u) = Some v \<and>
      under_way req s0 b' v \<and> phase_ok v \<and> state (fst v) = CONNECTING_TO_BACKEND \<and>
      card (tried_backends (fst v)) = card (tried_backends (fst s)) + length (f # fs)"
    if u: "under_way req s0 b u" "tried_backends (fst u) = tried_backends (fst s)" "io_connect io'' = io_connect io" for u io''
  proof -
    from fail_retries [OF u(1), of io''] Cons.prems(3,5,6) u(2) obtain b' t where
      t: "fail_backend io'' u = initiate_backend_connect io'' t" "trying req s0 b' t"
        "card (tried_backends (fst t)) = Suc (card (tried_backends (fst s)))" by auto
    have "backend_attempts (fst t) = backend_attempts (fst s) + 1" using n [OF t(2)] n [OF Cons.prems(1)] t(3) by simp
    with Cons.IH [OF t(2) _ _ Cons.prems(4) _ _ _ u(3)] Cons.prems(2,3,5-7) t(1,3) show ?thesis by simp
  qed
  show ?case
  proof (cases "\<exists>err. f = Refused_at_once err")
    case True
    then obtain err where f: "f = Refused_at_once err" by blast
    then have "initiate_backend_connect io' s = fail_backend io' ?o"
      using Cons.prems(2,7,8) by (intro initiate_refused) auto
    with again [OF o(1,4) Cons.prems(8)] f show ?thesis by simp
  next
    case False
    then have "initiate_backend_connect io' s = Returned ?o"
      using Cons.prems(2,8) by (intro initiate_in_progress) (cases f; simp)
    moreover from fault_breaks [OF o(2,3) Cons.prems(4), of f] False Cons.prems(7) o(5) obtain u io'' where
      u: "kept ?o u" "engaged u" "io_connect io'' = io_connect io"
        "\<forall>evs. play (fault_events io f @ evs) ?o = play_from evs (fail_backend io'' u)" by auto
    moreover from under_way_kept [OF o(1) u(1,2)] o(4) have "under_way req s0 b u"
      "tried_backends (fst u) = tried_backends (fst s)" by simp_all
    ultimately show ?thesis using again [of u io''] by simp
  qed
qed

section \<open>The exchange\<close>

lemma forward_request_tries:
  assumes "phase_ok s" and "state (fst s) = READING_REQUEST" and "healthy_pool (w_router (snd s)) \<noteq> {}"
  shows "\<exists>b t. forward_request io req s = initiate_backend_connect io t \<and> trying (asked_of s req) s b t \<and>
    tried_backends (fst t) = {}"
proof -
  obtain c w where s: "s = (c, w)" by (cases s)
  let ?req = "inject_forwarded_for req (fst (client_addr c))"
  let ?c = "c\<lparr>parsed_request := Some ?req, forward_buf := serialise_request ?req, forward_offset := 0\<rparr>"
  have p: "client_known (c, w) \<and> client_wire (c, w) = [] \<and> \<not> client_bytes_sent c \<and> tried_backends c = {} \<and> response_fresh c"
    using phaseD(1) [OF assms(1,2)] by (simp add: s)
  obtain ob w' where sel: "router_select None w = (ob, w')" by fastforce
  then obtain r' where r: "next_backend (w_router w) None = (ob, r')" "w' = w\<lparr>w_router := r'\<rparr>" by (rule router_selectE)
  have ok: "router_ok (w_router w)" using p by (simp add: client_known_def world_ok_def)
  from router.select_None [OF ok, of None] assms(3) r(1) s obtain b where b: "ob = Some b" by (cases ob) auto
  with router.select_Some [OF ok, of None b] r(1) have mem: "b \<in> healthy_pool (w_router w)" by simp
  have pool: "healthy_pool r' = healthy_pool (w_router w)" using router.pool_select [of "w_router w" None] r(1) by simp
  let ?t = "(?c\<lparr>backend_addr := Some b, backend_attempts := 1, disconnect_notified := False\<rparr>, w')"
  note k = select_known [of "(c, w)", simplified, OF conjunct1 [OF p] sel]
  have "forward_request io req s = initiate_backend_connect io ?t"
    using sel b by (simp add: s forward_request.simps Let_def)
  moreover have "engaged ?t"
    using p k by (auto simp: engaged_def client_known_def client_wire_def attempts_ok_def MAX_BACKEND_RETRIES_def)
  then have "trying (asked_of s req) s b ?t"
    using p mem pool r(2) by (simp add: trying_def s) (simp add: response_fresh_def)
  ultimately show ?thesis using p by (intro exI [of _ b] exI [of _ ?t]) simp
qed

lemma play_asked: "play (ask_events io ds @ evs) s = play_from evs (feed_client io ds s)"
proof (induction ds arbitrary: s)
  case (Cons d ds)
  then show ?case
    by (cases "handle_client_readable (io\<lparr>io_recv := Received d\<rparr>) s") (simp_all del: handle_client_readable.simps)
qed simp

text \<open>The request and the attempts, up to the one that is left under way.\<close>

lemma exchange_tries:
  assumes "accepted s" and "length fs < card (healthy_pool (w_router (snd s)))"
    and "wf_request req" and "int (length (serialise_request req)) \<le> MAX_REQUEST_SIZE"
    and "\<forall>d \<in> set ds. piece CLIENT_RECV_SIZE d" and "concat ds = serialise_request req"
    and "fs \<noteq> [] \<longrightarrow> idempotent req" and "length fs \<le> nat MAX_BACKEND_RETRIES"
    and "\<forall>f \<in> set fs. fault_ok (serialise_request (asked_of s req)) f"
    and "connects_as io 1 fs" and "io_sockopt io = Some 0"
  shows "\<exists>v b raw n. play (ask_events io ds @ concat (map (fault_events io) fs)) s = Some v \<and>
    under_way (asked_of s (req\<lparr>req_raw_header_bytes := raw, req_header_length := n\<rparr>)) s b v \<and>
    phase_ok v \<and> state (fst v) = CONNECTING_TO_BACKEND \<and> card (tried_backends (fst v)) = length fs"
proof -
  have s: "phase_ok s" by (rule phase_accepted [OF assms(1)])
  have "reading [] s" using assms(1) by (auto simp: accepted_def reading_def new_connection_def monotonic_def)
  from feed_request(2) [OF this assms(5,3,6,4), of io] obtain t raw n d where
    t: "feed_client io ds s = forward_request (io\<lparr>io_recv := Received d\<rparr>)
        (req\<lparr>req_raw_header_bytes := raw, req_header_length := n\<rparr>) t" "undisturbed s t" "state (fst t) = READING_REQUEST"
    by blast
  let ?req = "req\<lparr>req_raw_header_bytes := raw, req_header_length := n\<rparr>" and ?io = "io\<lparr>io_recv := Received d\<rparr>"
  have same: "client_addr (fst t) = client_addr (fst s)" "w_router (snd t) = w_router (snd s)"
    "w_log (snd t) = w_log (snd s)" "phase_ok t"
    using t(2) s by (simp_all add: undisturbed_def)
  have "healthy_pool (w_router (snd t)) \<noteq> {}" using assms(2) same(2) by auto
  from forward_request_tries [OF same(4) t(3) this, of ?io ?req] obtain b u where
    u: "forward_request ?io ?req t = initiate_backend_connect ?io u" "trying (asked_of t ?req) t b u"
      "tried_backends (fst u) = {}" by blast
  have try_s: "trying (asked_of s ?req) s b u" using u(2) same by (simp add: trying_def)
  then have n: "backend_attempts (fst u) = 1" using u(3) by (auto simp: trying_def engaged_def attempts_ok_def)
  have "idempotent (asked_of s ?req) = idempotent req" by (simp add: idempotent_def inject_eq)
  with attempts_go_on [OF try_s, of io fs ?io] assms(2,7-11) u(3) n obtain v b' where
    v: "play_from (concat (map (fault_events io) fs)) (initiate_backend_connect ?io u) = Some v"
      "under_way (asked_of s ?req) s b' v" "phase_ok v" "state (fst v) = CONNECTING_TO_BACKEND"
      "card (tried_backends (fst v)) = length fs" by auto
  have "play (ask_events io ds @ concat (map (fault_events io) fs)) s = Some v"
    using t(1) u(1) v(1) by (simp add: play_asked)
  with v(2-) show ?thesis by blast
qed

lemma finish_tried [simp]: "tried_backends (fst (finish s)) = tried_backends (fst s)"
  by (cases s) (simp add: finish_def monotonic_def split: option.splits)

text \<open>The attempt that goes well, from where the connection to its backend is in progress.\<close>

lemma attempt_served:
  assumes "under_way req s b v" and "phase_ok v" and "state (fst v) = CONNECTING_TO_BACKEND" and "io_sockopt io = Some 0"
    and "length (forward_buf (fst v)) \<le> sum_list ns"
    and "response_message msg" and "\<forall>d \<in> set rs. piece BACKEND_RECV_SIZE d" and "concat rs = msg"
    and "length msg \<le> sum_list ms"
  shows "\<exists>w u sock latency. play (send_events io ns @ answer_events io rs @ relay_events io ms) v = Some (finish u) \<and>
    kept v w \<and> kept w u \<and> client_wire (finish u) = msg \<and> backend_sock (fst u) = Some sock \<and>
    w_wire (snd (finish u)) sock = forward_buf (fst v) \<and>
    w_log (snd (finish u)) = w_log (snd w) @ [(log_record (fst w) req b latency)\<lparr>log_status :=
      (case fst (parse_response_status msg) of None \<Rightarrow> 0 | Some code \<Rightarrow> code)\<rparr>]"
proof -
  from connects_and_forwards [OF assms(2-4), of ns] assms(5) obtain w where
    w: "play (send_events io ns) v = Some w" "state (fst w) = READING_RESPONSE" "kept v w" "response_fresh (fst w)"
    by blast
  note ok = play_phase [OF w(1) assms(2)]
  from phaseD(2) [OF ok] w(2,3) ok obtain sock where
    sock: "backend_sock (fst w) = Some sock" "sock \<noteq> client_sock (fst w)" "w_wire (snd w) sock = forward_buf (fst v)"
    by (auto simp: linked_def phase_ok_def kept_def)
  have "awaiting [] w"
    using w(2,4) sock(1) noted_fresh [OF w(4)] by (simp add: awaiting_def response_fresh_def)
  moreover have "backend_addr (fst w) = Some b" "parsed_request (fst w) = Some req"
    using assms(1) w(3) by (simp_all add: under_way_def kept_def)
  ultimately obtain u latency where
    u: "play (answer_events io rs @ relay_events io ms) w = Some (finish u)" "kept w u" "client_wire (finish u) = msg"
      "w_wire (snd (finish u)) sock = w_wire (snd w) sock"
      "w_log (snd (finish u)) = w_log (snd w) @ [(log_record (fst w) req b latency)\<lparr>log_status :=
        (case fst (parse_response_status msg) of None \<Rightarrow> 0 | Some code \<Rightarrow> code)\<rparr>]"
    using exchange_answers [OF ok _ status_fresh [OF w(4)] _ _ sock(2) assms(6-9), of b req io] by blast
  moreover have "play (send_events io ns @ answer_events io rs @ relay_events io ms) v = Some (finish u)"
    using w(1) u(1) by (simp only: play_append [of "send_events io ns"]) simp
  moreover have "backend_sock (fst u) = Some sock" using u(2) sock(1) by (simp add: kept_def)
  ultimately show ?thesis using w(3) sock(3) by metis
qed

text \<open>C2: Failover is invisible to the client: when up to MAX_BACKEND_RETRIES backends fail an idempotent
  request one after the other, refused at once or late, by a broken send, a broken receive or a chunked
  body cut short, whatever of the request or of a response had gone through, and more backends than that are
  healthy, the client gets the response of the backend that answers, byte for byte; this one is healthy, none of
  those that failed, and was sent the whole request; one access record names it, and every slot is free
  again.\<close>

theorem failover_is_served:
  assumes "accepted s" and "length fs < card (healthy_pool (w_router (snd s)))"
    and "wf_request req" and "int (length (serialise_request req)) \<le> MAX_REQUEST_SIZE"
    and "\<forall>d \<in> set ds. piece CLIENT_RECV_SIZE d" and "concat ds = serialise_request req"
    and "fs \<noteq> [] \<longrightarrow> idempotent req" and "length fs \<le> nat MAX_BACKEND_RETRIES"
    and "\<forall>f \<in> set fs. fault_ok (serialise_request (asked_of s req)) f"
    and "connects_as io 1 fs" and "io_sockopt io = Some 0"
    and "length (serialise_request (asked_of s req)) \<le> sum_list ns"
    and "response_message msg" and "\<forall>d \<in> set rs. piece BACKEND_RECV_SIZE d" and "concat rs = msg"
    and "length msg \<le> sum_list ms"
  shows "\<exists>t b sock latency. play (ask_events io ds @ concat (map (fault_events io) fs) @ send_events io ns @
      answer_events io rs @ relay_events io ms) s = Some t \<and>
    state (fst t) = DONE \<and> client_wire t = msg \<and>
    b \<in> healthy_pool (w_router (snd s)) - tried_backends (fst t) \<and> card (tried_backends (fst t)) = length fs \<and>
    backend_sock (fst t) = Some sock \<and> w_wire (snd t) sock = serialise_request (asked_of s req) \<and>
    w_log (snd t) = w_log (snd s) @
      [\<lparr>log_client_ip = fst (client_addr (fst s)), log_client_port = snd (client_addr (fst s)),
        log_backend_ip = fst b, log_backend_port = snd b,
        log_method = req_method req, log_path = req_path req, log_version = req_version req,
        log_status = (case fst (parse_response_status msg) of None \<Rightarrow> 0 | Some code \<Rightarrow> code),
        log_latency_ms = latency\<rparr>] \<and>
    (\<forall>f. slots_ok f s \<longrightarrow> (\<forall>x. router_load (w_router (snd t)) x = f x))"
proof -
  from exchange_tries [OF assms(1-11)] obtain v b raw n where
    v: "play (ask_events io ds @ concat (map (fault_events io) fs)) s = Some v" "phase_ok v"
      "state (fst v) = CONNECTING_TO_BACKEND" "card (tried_backends (fst v)) = length fs"
    and way: "under_way (asked_of s (req\<lparr>req_raw_header_bytes := raw, req_header_length := n\<rparr>)) s b v"
    by blast
  let ?req = "asked_of s (req\<lparr>req_raw_header_bytes := raw, req_header_length := n\<rparr>)"
  have fresh: "b \<in> healthy_pool (w_router (snd s)) - tried_backends (fst v)"
    and out: "forward_buf (fst v) = serialise_request (asked_of s req)"
    using way by (auto simp: under_way_def engaged_def)
  from attempt_served [OF way v(2,3) assms(11) _ assms(13-16)] assms(12) obtain w u sock latency where
    u: "play (send_events io ns @ answer_events io rs @ relay_events io ms) v = Some (finish u)"
      "kept v w" "kept w u" "client_wire (finish u) = msg" "backend_sock (fst u) = Some sock"
      "w_wire (snd (finish u)) sock = serialise_request (asked_of s req)"
      "w_log (snd (finish u)) = w_log (snd w) @ [(log_record (fst w) ?req b latency)\<lparr>log_status :=
        (case fst (parse_response_status msg) of None \<Rightarrow> 0 | Some code \<Rightarrow> code)\<rparr>]"
    unfolding out by blast
  have play: "play (ask_events io ds @ concat (map (fault_events io) fs) @ send_events io ns @
      answer_events io rs @ relay_events io ms) s = Some (finish u)"
    using play_append [of "ask_events io ds @ concat (map (fault_events io) fs)"
      "send_events io ns @ answer_events io rs @ relay_events io ms" s] v(1) u(1) by simp
  have "router_load (w_router (snd (finish u))) x = f x" if "slots_ok f s" for f x
    using play_slots [OF play phase_accepted [OF assms(1)] that] slots_okD(3) [of f "fst (finish u)" "snd (finish u)" x]
    by (simp add: held_finish)
  moreover have "tried_backends (fst u) = tried_backends (fst v)" "client_addr (fst w) = client_addr (fst s)"
    "w_log (snd w) = w_log (snd s)" using u(2,3) way by (simp_all add: kept_def under_way_def)
  ultimately show ?thesis using play u fresh v(4)
    by (intro exI [of _ "finish u"] exI [of _ b] exI [of _ sock] exI [of _ latency] conjI)
      (simp_all add: kept_def log_record_def inject_eq)
qed

text \<open>Two of three backends fail, the second inside a chunked body.\<close>

definition flaky_io :: io where
  "flaky_io = demo_io\<lparr>io_connect := (\<lambda>n. Connect_errno (if n = 1 then 111 else 115))\<rparr>"

definition flaky_head :: bytes where
  "flaky_head = ''HTTP/1.1 200 OK'' @ LINE_DELIM @ ''Transfer-Encoding: chunked'' @ HEADER_DELIM"

definition flaky_faults :: "fault list" where
  "flaky_faults = [Refused_at_once 111, Cut_short [1000] [flaky_head, ''3'', LINE_DELIM @ ''a'']]"

definition three_backends :: session where
  "three_backends = new_connection 0 (''10.0.0.5'', 4000)
     (demo_world\<lparr>w_router := LC (lc_init [(''b'', 1), (''c'', 2), (''d'', 3)])\<rparr>)"

theorem failover_is_served_witness:
  "\<exists>t. play (ask_events flaky_io [take 5 demo_request, drop 5 demo_request] @
       concat (map (fault_events flaky_io) flaky_faults) @ send_events flaky_io [7, 0, 1000] @
       answer_events flaky_io [demo_head, ''h'', ''i''] @ relay_events flaky_io [3, 100]) three_backends = Some t \<and>
     client_wire t = demo_head @ ''hi'' \<and> card (tried_backends (fst t)) = 2"
proof -
  let ?req = "tiny_request\<lparr>req_method := ''GET'', req_headers := [], req_body := []\<rparr>"
  let ?w = "demo_world\<lparr>w_router := LC (lc_init [(''b'', 1), (''c'', 2), (''d'', 3)])\<rparr>"
  have acc: "accepted three_backends"
    unfolding accepted_def three_backends_def
    by (rule exI [of _ 0], rule exI [of _ "(''10.0.0.5'', 4000)"], rule exI [of _ ?w])
      (simp add: demo_world_def world_ok_def lc_init_ok)
  have "healthy_pool (w_router (snd three_backends)) = {(''b'', 1), (''c'', 2), (''d'', 3)}" by code_simp
  then have pool: "length flaky_faults < card (healthy_pool (w_router (snd three_backends)))"
    by (simp add: flaky_faults_def)
  have req: "serialise_request ?req = demo_request" "wf_request ?req" "idempotent ?req" by code_simp+
  have addr: "fst (client_addr (fst three_backends)) = ''10.0.0.5''"
    by (simp add: three_backends_def new_connection_def monotonic_def)
  have lens: "length demo_request = 18" "length demo_head = 38"
    "length (serialise_request (inject_forwarded_for ?req ''10.0.0.5'')) = 45" by code_simp+
  have head: "head_ok demo_head" "is_chunked_response demo_head = Some False"
    "get_response_content_length demo_head = int (length ''hi'')" by code_simp+
  have pieces: "\<forall>d \<in> set [take 5 demo_request, drop 5 demo_request]. piece CLIENT_RECV_SIZE d"
    "\<forall>d \<in> set [demo_head, ''h'', ''i'']. piece BACKEND_RECV_SIZE d"
    by code_simp+
  let ?cut = "[flaky_head, ''3'', LINE_DELIM @ ''a'']"
  have "head_ok flaky_head" "is_chunked_response flaky_head = Some True" "\<forall>c \<in> set [([], ''abc'')]. chunk_ok c"
    "trailers_ok []" by code_simp+
  note msg = response_messages(2) [OF this]
  have "\<forall>d \<in> set ?cut. piece BACKEND_RECV_SIZE d"
    "strict_prefix (concat ?cut) (flaky_head @ encode_chunked [([], ''abc'')] [])" by code_simp+
  from unfinished_part [OF msg this] have cut: "unfinished ?cut" "find_sub HEADER_DELIM (concat ?cut) \<noteq> None"
    "is_chunked_response (concat ?cut) = Some True" by (simp, code_simp+)
  have faults: "\<forall>f \<in> set flaky_faults. fault_ok (serialise_request (asked_of three_backends ?req)) f"
    using cut by (simp add: flaky_faults_def addr lens EINPROGRESS_def EWOULDBLOCK_def EAGAIN_def)
  have io: "connects_as flaky_io 1 flaky_faults" "io_sockopt flaky_io = Some 0"
    by (simp_all add: flaky_io_def flaky_faults_def demo_io_def EINPROGRESS_def)
  have few: "flaky_faults \<noteq> [] \<longrightarrow> idempotent ?req" "length flaky_faults \<le> nat MAX_BACKEND_RETRIES"
    "length flaky_faults = 2" using req(3) by (simp_all add: flaky_faults_def MAX_BACKEND_RETRIES_def)
  have size: "int (length (serialise_request ?req)) \<le> MAX_REQUEST_SIZE"
    "length (serialise_request (asked_of three_backends ?req)) \<le> sum_list [7, 0, 1000]"
    "length (demo_head @ ''hi'') \<le> sum_list [3, 100]"
    by (simp_all add: req lens addr MAX_REQUEST_SIZE_def)
  have whole: "concat [take 5 demo_request, drop 5 demo_request] = serialise_request ?req"
    "concat [demo_head, ''h'', ''i''] = demo_head @ ''hi''" by (simp_all add: req)
  from failover_is_served [OF acc pool req(2) size(1) pieces(1) whole(1) few(1,2) faults io size(2)
      response_messages(1) [OF head] pieces(2) whole(2) size(3)] few(3)
  show ?thesis by auto
qed

end
