(* ===== verification/Confined.thy ===== *)
theory Confined
  imports ConnectionRuns
begin

text \<open>
  What a handler of one connection can touch: its own sockets, sockets it opens, the router, the
  clock and the log. The sockets of other connections are out of its reach, which is what lets
  the invariant of one connection be kept while the others run.
\<close>

section \<open>The sockets of a connection\<close>

definition owns :: "proxy_connection \<Rightarrow> sock set" where
  "owns c = insert (client_sock c) (set_option (backend_sock c) \<union> set_option (pending_backend_unregister c))"

definition confined :: "session \<Rightarrow> session \<Rightarrow> bool" where
  "confined s t \<longleftrightarrow>
     client_sock (fst t) = client_sock (fst s) \<and>
     w_next_sock (snd s) \<le> w_next_sock (snd t) \<and>
     w_clock (snd t) = w_clock (snd s) \<and> w_reads (snd s) \<le> w_reads (snd t) \<and>
     (\<forall>x < w_next_sock (snd s). x \<notin> owns (fst s) \<longrightarrow>
        w_wire (snd t) x = w_wire (snd s) x \<and> (x \<in> w_closed (snd t) \<longleftrightarrow> x \<in> w_closed (snd s))) \<and>
     (\<forall>x \<in> owns (fst t). x \<in> owns (fst s) \<or> w_next_sock (snd s) \<le> x \<and> x < w_next_sock (snd t))"

lemma confined_refl [simp, intro]: "confined s s"
  by (simp add: confined_def)

lemma confined_trans:
  assumes "confined s t" and "confined t u"
  shows "confined s u"
proof -
  have "x \<notin> owns (fst t)" if "x < w_next_sock (snd s)" "x \<notin> owns (fst s)" for x
    using assms(1) that by (force simp: confined_def)
  with assms show ?thesis unfolding confined_def
    by (smt (verit, best) order_less_le_trans order_trans)
qed

text \<open>Only fields that are neither sockets nor seen by other connections change.\<close>

lemma confined_same:
  assumes "client_sock (fst t) = client_sock (fst s)" and "backend_sock (fst t) = backend_sock (fst s)"
    and "pending_backend_unregister (fst t) = pending_backend_unregister (fst s)"
    and "w_next_sock (snd t) = w_next_sock (snd s)" and "w_wire (snd t) = w_wire (snd s)"
    and "w_closed (snd t) = w_closed (snd s)" and "w_clock (snd t) = w_clock (snd s)"
    and "w_reads (snd s) \<le> w_reads (snd t)"
  shows "confined s t"
  using assms by (auto simp: confined_def owns_def)

text \<open>One more step after steps that stay inside.\<close>

lemma confined_after: "confined t u \<Longrightarrow> confined s t \<Longrightarrow> confined s u"
  by (rule confined_trans)

section \<open>Steps\<close>

lemma confined_update [frame]:
  "client_sock d = client_sock c \<Longrightarrow> backend_sock d = backend_sock c \<Longrightarrow>
    pending_backend_unregister d = pending_backend_unregister c \<Longrightarrow> confined (c, w) (d, w)"
  by (rule confined_same) simp_all

lemma confined_state [frame]: "confined s (set_state st s)"
  by (rule confined_same) simp_all

lemma confined_refresh [frame]: "confined s (refresh_deadline s)"
  by (cases s) (auto simp: refresh_deadline.simps monotonic_def confined_def owns_def split: option.splits)

lemma confined_notify [frame]: "confined s (notify_disconnect s)"
  by (cases s) (auto simp: router_release_def confined_def owns_def split: option.splits)

lemma confined_log [frame]: "confined s (log_request s)"
  by (cases s) (auto simp: monotonic_def access_log_def confined_def owns_def split: option.splits)

lemma confined_page [frame]: "confined s (send_page io page s)"
  by (cases s) (auto simp: transmit_def confined_def owns_def split: option.splits)

lemma confined_select [frame]: "router_select ex w = (b, w') \<Longrightarrow> confined (c, w) (c, w')"
  by (erule router_selectE) (auto simp: confined_def)

lemma confined_close [frame]: "confined s (close_backend s)"
  by (cases s) (auto simp: close_socket_def confined_def owns_def split: option.splits)

lemma confined_tried [frame]: "confined s (apfst note_tried s)"
  by (cases s) (auto simp: note_tried_def confined_def owns_def split: option.splits)

lemma confined_open [frame]: "confined s (open_backend s)"
  by (cases s) (auto simp: new_socket_def confined_def owns_def)

lemma confined_retry [frame]: "confined (c, w) (retry_reset b c, w)"
  by (rule confined_update) (simp_all add: retry_reset_def)

lemma confined_finish [frame]: "confined s (finish s)"
  unfolding finish_def by (rule confined_after, rule frame)+ (rule confined_refl)

lemma confined_error [frame]: "confined s (send_error io code reason s)"
proof -
  have "confined t (apfst (response_status_update (\<lambda>_. Some code)) t)" for t :: session
    by (rule confined_same) simp_all
  from confined_trans [OF confined_trans [OF confined_page this] confined_finish]
  show ?thesis by (simp add: send_error_def)
qed

lemma confined_drop [frame]: "confined s (drop_backend s)"
  unfolding drop_backend_def by (rule confined_after, rule frame)+ (rule confined_refl)

lemma confined_begun [frame]: "confined s (begun s)"
  unfolding begun_def by (rule confined_after, rule frame)+ (rule confined_refl)

lemma confined_at_once [frame]: "confined s (connected_at_once s)"
  unfolding connected_at_once_def by (rule confined_after, rule frame)+ (rule confined_refl)

interpretation confinement: connect_contract "confined s" "confined s" "confined s" "confined s" for s
proof unfold_locales
  fix t b w io
  assume t: "confined s t"
  show "confined s (begun t)" "confined s (open_backend (begun t))" "confined s (connected_at_once t)"
    using t by (blast intro: confined_trans frame)+
  show "confined s (send_error io 502 ''Bad Gateway'' (drop_backend t))"
    using t by (blast intro: confined_trans frame)
  let ?sel = "router_select (Some (tried_backends (fst (drop_backend t)))) (snd (drop_backend t))"
  have sel: "confined s (fst (drop_backend t), w)" if "?sel = (ob, w)" for ob
    using confined_trans [OF t confined_trans [OF confined_drop]] confined_select [OF that] by (metis prod.collapse)
  show "confined s (send_error io 502 ''Bad Gateway'' (fst (drop_backend t), w))" if "?sel = (None, w)"
    using sel [OF that] by (blast intro: confined_trans frame)
  show "confined s (retry_reset b (fst (drop_backend t)), w)" if "?sel = (Some b, w)"
    using sel [OF that] by (blast intro: confined_trans frame)
qed

section \<open>Handlers\<close>

abbreviation stays_in :: "session \<Rightarrow> session outcome \<Rightarrow> bool" where
  "stays_in s \<equiv> outcome_ok (confined s) (confined s)"

lemma confined_final: "stays_in s r \<longleftrightarrow> confined s (final r)"
  by (cases r) simp_all

lemma confined_begin: "confined s t \<Longrightarrow> stays_in s (initiate_backend_connect io t)"
  and confined_fail: "confined s t \<Longrightarrow> stays_in s (fail_backend io t)"
  by (rule confinement.chain, assumption)+

lemma confined_forward_request:
  assumes "confined s (c, w)"
  shows "stays_in s (forward_request io req (c, w))"
proof -
  let ?req = "inject_forwarded_for req (fst (client_addr c))"
  let ?c = "c\<lparr>parsed_request := Some ?req, forward_buf := serialise_request ?req, forward_offset := 0\<rparr>"
  obtain ob w' where sel: "router_select None w = (ob, w')" by fastforce
  have "confined s (?c, w)" using assms by (rule confined_trans) (simp add: confined_update)
  then have c: "confined s (?c, w')" using confined_select [OF sel] by (rule confined_trans)
  show ?thesis
  proof (cases ob)
    case None
    with sel confined_trans [OF c confined_error] show ?thesis by (simp add: forward_request.simps Let_def)
  next
    case (Some b)
    have "confined s (?c\<lparr>backend_addr := Some b, backend_attempts := 1, disconnect_notified := False\<rparr>, w')"
      using c by (rule confined_trans) (simp add: confined_update)
    with sel Some confined_begin show ?thesis by (simp add: forward_request.simps Let_def)
  qed
qed

lemma confined_client_readable: "stays_in (c, w) (handle_client_readable io (c, w))"
proof (cases "state c = READING_REQUEST")
  case True
  show ?thesis
  proof (cases "io_recv io")
    case (Received data)
    let ?s = "refresh_deadline (c\<lparr>request_buf := request_buf c @ recv_data CLIENT_RECV_SIZE data\<rparr>, w)"
    have "confined (c, w) ?s" by (rule confined_trans [OF confined_update confined_refresh]) simp_all
    with True Received confined_forward_request [of "(c, w)" "fst ?s" "snd ?s"] confined_trans [OF _ confined_error]
    show ?thesis by (simp add: Let_def case_prod_unfold confined_update split: option.splits)
  qed (use True in \<open>simp_all add: confined_update\<close>)
qed simp

lemma confined_sent: "backend_sock (fst s) = Some b \<Longrightarrow> confined s (send_forward b n s)"
  by (cases s) (auto simp: send_forward_def Let_def transmit_def refresh_deadline.simps monotonic_def
      confined_def owns_def split: option.splits)

lemma confined_relayed: "confined s (send_relay n s)"
  by (cases s) (auto simp: send_relay_def Let_def transmit_def refresh_deadline.simps monotonic_def
      confined_def owns_def split: option.splits)

lemma confined_forward_some:
  assumes "confined s t"
  shows "stays_in s (forward_some io t)"
proof (cases "backend_sock (fst t)")
  case None
  with assms show ?thesis by (simp add: forward_some_def)
next
  case (Some b)
  have "confined s (send_forward b n t)" for n by (rule confined_trans [OF assms confined_sent [OF Some]])
  with assms Some confined_fail [OF assms] confined_trans [OF _ confined_trans [OF confined_state confined_refresh]]
  show ?thesis by (auto simp: forward_some_def Let_def split: send_result.splits)
qed

lemma confined_backend_writable: "stays_in s (handle_backend_writable io s)"
proof (cases s)
  case (Pair c w)
  have "confined s (refresh_deadline (c\<lparr>state := FORWARDING_REQUEST\<rparr>, w))"
    unfolding Pair by (rule confined_trans [OF confined_update confined_refresh]) simp_all
  with confined_forward_some [of s] confined_fail [of s] show ?thesis
    by (auto simp: Pair split: option.splits)
qed

lemma confined_prepare: "confined s (prepare_relay s)"
  by (cases s) (auto intro: confined_trans [OF confined_update confined_refresh])

lemma confined_check:
  "check_complete (c, w) = Some t \<Longrightarrow> confined (c, w) t"
  by (auto simp: Let_def intro!: confined_update confined_trans [OF confined_update confined_refresh]
      split: if_splits option.splits)

lemma note_sockets [simp]:
  "client_sock (note_headers (note_status c)) = client_sock c"
  "backend_sock (note_headers (note_status c)) = backend_sock c"
  "pending_backend_unregister (note_headers (note_status c)) = pending_backend_unregister c"
  by (simp_all add: note_headers_def note_status_def Let_def split: option.splits)

lemma confined_backend_readable:
  assumes "handle_backend_readable io (c, w) = Some r"
  shows "stays_in (c, w) r"
proof (cases "state c = READING_RESPONSE \<and> backend_sock c \<noteq> None")
  case False
  with assms show ?thesis by (cases "backend_sock c") (auto split: if_splits)
next
  case True
  then obtain b where b: "state c = READING_RESPONSE" "backend_sock c = Some b" by auto
  note fail = confined_fail [OF confined_refl, of "(c, w)" io]
  show ?thesis
  proof (cases "io_recv io")
    case (Received data)
    let ?d = "recv_data BACKEND_RECV_SIZE data"
    let ?s = "refresh_deadline (c\<lparr>response_buf := response_buf c @ ?d\<rparr>, w)"
    show ?thesis
    proof (cases "?d = []")
      case True
      with assms b Received fail confined_prepare [of "(c, w)"] show ?thesis
        by (auto simp: Let_def simp del: prepare_relay.simps split: if_splits option.splits)
    next
      case False
      with assms b Received obtain t where
        t: "check_complete (note_headers (note_status (fst ?s)), snd ?s) = Some t" "r = Returned t"
        by (auto simp: Let_def case_prod_unfold simp del: check_complete.simps)
      have "confined (c, w) ?s" by (rule confined_trans [OF confined_update confined_refresh]) simp_all
      moreover have "confined ?s (note_headers (note_status (fst ?s)), snd ?s)" by (rule confined_same) simp_all
      ultimately show ?thesis using confined_check [OF t(1)] t(2) by (auto intro: confined_trans)
    qed
  qed (use assms b fail in auto)
qed

lemma confined_client_writable: "stays_in s (handle_client_writable io s)"
  using confined_relayed [of s] confined_trans [OF confined_relayed confined_finish]
  by (auto simp: handle_client_writable_def Let_def confined_state split: send_result.splits)

lemma confined_timeout: "confined s (handle_timeout io s)"
  using confined_trans [OF confined_notify confined_state]
  by (auto simp: handle_timeout_def confined_error)

theorem confined_handle:
  assumes "handle ev io s = Some r"
  shows "confined s (final r)"
proof (cases s)
  case (Pair c w)
  with assms show ?thesis unfolding confined_final [symmetric]
    by (cases ev) (auto simp del: handle_client_readable.simps handle_backend_readable.simps
        handle_backend_writable.simps
        simp: confined_client_readable confined_client_writable confined_backend_writable confined_timeout
        intro: confined_backend_readable)
qed

lemma confined_cleanup: "confined s (cleanup s)"
  by (cases s) (auto simp: close_socket_def Let_def confined_def owns_def split: option.splits)

section \<open>A new connection\<close>

lemma new_connection_fields:
  "state (fst (new_connection s addr w)) = READING_REQUEST"
  "client_sock (fst (new_connection s addr w)) = s"
  "backend_addr (fst (new_connection s addr w)) = None"
  "backend_sock (fst (new_connection s addr w)) = None"
  "pending_backend_unregister (fst (new_connection s addr w)) = None"
  "owns (fst (new_connection s addr w)) = {s}"
  "deadline_gen (fst (new_connection s addr w)) = 1"
  "deadline (fst (new_connection s addr w)) = w_clock w (Suc (w_reads w)) + CLIENT_IDLE_TIMEOUT"
  "snd (new_connection s addr w) = w\<lparr>w_reads := w_reads w + 2\<rparr>"
  by (simp_all add: new_connection_def monotonic_def refresh_deadline.simps timeout_for_state_def owns_def)

end
