(* ===== verification/Selector.thy ===== *)
theory Selector
  imports Prelude "HOL-Library.AList" "HOL-Library.Word"
begin

unbundle bit_operations_syntax

text \<open>
  The standard library's selector as the reactor uses it: the registrations keyed by file
  descriptor, and the interest list of the kernel behind it. A socket object has one descriptor
  while it is open; the number may be given to another socket after it has been closed, and the
  registrations of a closed socket stay until they are taken out.
\<close>

section \<open>State\<close>

datatype 'a attempt = Fine (outcome_of: 'a) | Absent (outcome_of: 'a) | Broken (outcome_of: 'a)

text \<open>
  A call either succeeds, raises a \<open>KeyError\<close> or \<open>ValueError\<close> (\<open>Absent\<close>; the reactor catches both)
  or an \<open>OSError\<close> of the kernel (\<open>Broken\<close>; it does not).
\<close>

definition EVENT_READ :: int where "EVENT_READ = 1"

definition EVENT_WRITE :: int where "EVENT_WRITE = 2"

record 'd sel_key =
  key_fileobj :: nat
  key_events :: int
  key_data :: 'd

record 'd selector =
  sel_keys :: "(int \<times> 'd sel_key) list"
  sel_poll :: "(nat \<times> int) list"

text \<open>What the selector sees of the sockets: the descriptors, and which sockets are closed.\<close>

record sockets =
  sock_fd :: "nat \<Rightarrow> int"
  sock_closed :: "nat set"

definition fileno :: "sockets \<Rightarrow> nat \<Rightarrow> int" where
  "fileno k s = (if s \<in> sock_closed k then - 1 else sock_fd k s)"

section \<open>Operations\<close>

text \<open>The descriptor of a socket object, or of its registration once it is closed.\<close>

definition fileobj_lookup :: "sockets \<Rightarrow> 'd selector \<Rightarrow> nat \<Rightarrow> int option" where
  "fileobj_lookup k sel s =
     (let fd = fileno k s
      in if 0 \<le> fd then Some fd
         else map_option fst (find (\<lambda>(fd, key). key_fileobj key = s) (sel_keys sel)))"

text \<open>The interest of the kernel in a descriptor is in the open socket that has it.\<close>

definition polls_fd :: "sockets \<Rightarrow> int \<Rightarrow> nat \<times> int \<Rightarrow> bool" where
  "polls_fd k fd p \<longleftrightarrow> fileno k (fst p) = fd"

definition sel_register :: "sockets \<Rightarrow> nat \<Rightarrow> int \<Rightarrow> 'd \<Rightarrow> 'd selector \<Rightarrow> 'd selector attempt" where
  "sel_register k s ev data sel =
     (case fileobj_lookup k sel s of
        None \<Rightarrow> Absent sel
      | Some fd \<Rightarrow>
          if map_of (sel_keys sel) fd \<noteq> None then Absent sel
          else if fileno k s < 0 \<or> (\<exists>p \<in> set (sel_poll sel). polls_fd k fd p) then Broken sel
          else Fine (sel\<lparr>sel_keys := sel_keys sel @ [(fd, \<lparr>key_fileobj = s, key_events = ev, key_data = data\<rparr>)],
                         sel_poll := sel_poll sel @ [(s, ev)]\<rparr>))"

definition sel_unregister :: "sockets \<Rightarrow> nat \<Rightarrow> 'd selector \<Rightarrow> 'd selector attempt" where
  "sel_unregister k s sel =
     (case fileobj_lookup k sel s of
        None \<Rightarrow> Absent sel
      | Some fd \<Rightarrow>
          if map_of (sel_keys sel) fd = None then Absent sel
          else Fine (sel\<lparr>sel_keys := AList.delete fd (sel_keys sel),
                         sel_poll := filter (\<lambda>p. \<not> polls_fd k fd p) (sel_poll sel)\<rparr>))"

definition sel_modify :: "sockets \<Rightarrow> nat \<Rightarrow> int \<Rightarrow> 'd \<Rightarrow> 'd selector \<Rightarrow> 'd selector attempt" where
  "sel_modify k s ev data sel =
     (case fileobj_lookup k sel s of
        None \<Rightarrow> Absent sel
      | Some fd \<Rightarrow>
          (case map_of (sel_keys sel) fd of
             None \<Rightarrow> Absent sel
           | Some key \<Rightarrow>
               let keys = AList.update fd (key\<lparr>key_events := ev, key_data := data\<rparr>) (sel_keys sel)
               in if ev = key_events key then Fine (sel\<lparr>sel_keys := keys\<rparr>)
                  else if \<exists>p \<in> set (sel_poll sel). polls_fd k fd p
                  then Fine (sel\<lparr>sel_keys := keys,
                       sel_poll := map (\<lambda>p. if polls_fd k fd p then (fst p, ev) else p) (sel_poll sel)\<rparr>)
                  else Broken (sel\<lparr>sel_keys := AList.delete fd (sel_keys sel)\<rparr>)))"

text \<open>The keys of the descriptors the kernel reports ready, with the events that were asked for.\<close>

definition select_ready :: "(int \<times> int) list \<Rightarrow> 'd selector \<Rightarrow> ('d sel_key \<times> int) list" where
  "select_ready ready sel =
     List.map_filter (\<lambda>(fd, events). map_option (\<lambda>key. (key, events AND key_events key)) (map_of (sel_keys sel) fd)) ready"

text \<open>A socket the kernel watches: it is open and in the interest list.\<close>

definition watched :: "sockets \<Rightarrow> 'd selector \<Rightarrow> nat \<Rightarrow> int option" where
  "watched k sel s = (if s \<in> sock_closed k then None else map_of (sel_poll sel) s)"

end
