(* ===== verification/Reactor.thy ===== *)
theory Reactor
  imports Connection Selector
begin

text \<open>
  \<open>reactor.py\<close>: the event loop. Connections are objects with an identity (\<open>id(conn)\<close>) that may be
  given to another object once the first one is gone; tables and the deadline heap refer to them
  by it. One round of the loop is a function of what the kernel answers in it.
\<close>

section \<open>State\<close>

type_synonym cid = nat

datatype key_data = Accept | Conn cid

type_synonym deadline_entry = "real \<times> int \<times> cid"

text \<open>
  \<open>r_objs\<close> is the store of connection objects. \<open>r_conn_by_id\<close> maps the identity of an object to the
  object, so its keys are all there is to it. \<open>r_connections\<close> is keyed by descriptor. \<open>r_conn\<close> and \<open>r_events\<close> are
  the local variables of \<open>_loop\<close> that refer to connections: the one dispatched last, and those in the list of events.
\<close>

record reactor =
  r_world :: world
  r_objs :: "cid \<Rightarrow> proxy_connection"
  r_connections :: "(int \<times> cid) list"
  r_conn_by_id :: "cid set"
  r_deadlines :: "deadline_entry list"
  r_selector :: "key_data selector"
  r_server :: "sock option"
  r_running :: bool
  r_conn :: "cid option"
  r_events :: "cid list"
  r_fd :: "sock \<Rightarrow> int"

definition r_sockets :: "reactor \<Rightarrow> sockets" where
  "r_sockets r = \<lparr>sock_fd = r_fd r, sock_closed = w_closed (r_world r)\<rparr>"

definition session_of :: "reactor \<Rightarrow> cid \<Rightarrow> session" where
  "session_of r cid = (r_objs r cid, r_world r)"

definition put_session :: "cid \<Rightarrow> session \<Rightarrow> reactor \<Rightarrow> reactor" where
  "put_session cid s r = r\<lparr>r_objs := (r_objs r)(cid := fst s), r_world := snd s\<rparr>"

definition set_selector :: "key_data selector \<Rightarrow> reactor \<Rightarrow> reactor" where
  "set_selector sel r = r\<lparr>r_selector := sel\<rparr>"

section \<open>Deadline scheduling\<close>

definition schedule_deadline :: "cid \<Rightarrow> reactor \<Rightarrow> reactor" where
  "schedule_deadline cid r =
     (let conn = r_objs r cid
      in if state conn = DONE then r
         else r\<lparr>r_conn_by_id := insert cid (r_conn_by_id r),
                r_deadlines := heappush (r_deadlines r) (deadline conn, deadline_gen conn, cid)\<rparr>)"

definition stale_entry :: "reactor \<Rightarrow> deadline_entry \<Rightarrow> bool" where
  "stale_entry r e \<longleftrightarrow>
     (case e of (d, gen, cid) \<Rightarrow>
        cid \<notin> r_conn_by_id r \<or> state (r_objs r cid) = DONE \<or> gen \<noteq> deadline_gen (r_objs r cid))"

text \<open>The \<open>while\<close> loop of \<open>_select_timeout\<close>: drops what is stale on top of the heap.\<close>

function drop_stale :: "reactor \<Rightarrow> deadline_entry list \<Rightarrow> deadline_entry list" where
  "drop_stale r h =
     (case h of
        [] \<Rightarrow> []
      | e # _ \<Rightarrow> if stale_entry r e then (case heappop h of None \<Rightarrow> h | Some (_, h') \<Rightarrow> drop_stale r h') else h)"
  by pat_completeness auto
termination
  by (relation "measure (\<lambda>(r, h). length h)") (auto dest: heappop_length)

definition select_timeout :: "reactor \<Rightarrow> real \<times> reactor" where
  "select_timeout r =
     (let (now, w) = monotonic (r_world r);
          h = drop_stale r (r_deadlines r);
          r = r\<lparr>r_world := w, r_deadlines := h\<rparr>
      in case h of [] \<Rightarrow> (1, r) | (d, gen, cid) # _ \<Rightarrow> (min 1 (max 0 (d - now)), r))"

text \<open>The \<open>while\<close> loop of \<open>_expire_timeouts\<close>, for the reading \<open>now\<close>; \<open>n\<close> bounds the rounds.\<close>

fun expire_loop :: "(cid \<Rightarrow> io) \<Rightarrow> real \<Rightarrow> nat \<Rightarrow> reactor \<Rightarrow> reactor" where
  "expire_loop ios now 0 r = r"
| "expire_loop ios now (Suc n) r =
     (case heappop (r_deadlines r) of
        None \<Rightarrow> r
      | Some ((d, gen, cid), h) \<Rightarrow>
          if now < d then r
          else let r = r\<lparr>r_deadlines := h\<rparr>
               in if stale_entry r (d, gen, cid) then expire_loop ios now n r
                  else expire_loop ios now n (put_session cid (handle_timeout (ios cid) (session_of r cid)) r))"

definition expire_timeouts :: "(cid \<Rightarrow> io) \<Rightarrow> reactor \<Rightarrow> reactor" where
  "expire_timeouts ios r =
     (let (now, w) = monotonic (r_world r)
      in expire_loop ios now (length (r_deadlines r)) (r\<lparr>r_world := w\<rparr>))"

section \<open>Selector updates\<close>

text \<open>\<open>except (KeyError, ValueError): pass\<close> around a call on the selector.\<close>

fun ignoring :: "key_data selector attempt \<Rightarrow> reactor \<Rightarrow> reactor outcome" where
  "ignoring (Fine sel) r = Returned (set_selector sel r)"
| "ignoring (Absent sel) r = Returned (set_selector sel r)"
| "ignoring (Broken sel) r = Raised (set_selector sel r)"

text \<open>\<open>except (KeyError, ValueError):\<close> with a second attempt that is guarded in the same way.\<close>

fun or_else :: "key_data selector attempt \<Rightarrow> (key_data selector \<Rightarrow> key_data selector attempt) \<Rightarrow>
    reactor \<Rightarrow> reactor outcome" where
  "or_else (Absent sel) second r = ignoring (second sel) r"
| "or_else first second r = ignoring first r"

definition flush_pending_unregister :: "cid \<Rightarrow> reactor \<Rightarrow> reactor outcome" where
  "flush_pending_unregister cid r =
     (case pending_backend_unregister (r_objs r cid) of
        None \<Rightarrow> Returned r
      | Some old \<Rightarrow>
          and_then (ignoring (sel_unregister (r_sockets r) old (r_selector r)) r)
            (\<lambda>r. let r = r\<lparr>r_objs := (r_objs r)(cid := (r_objs r cid)\<lparr>pending_backend_unregister := None\<rparr>)\<rparr>;
                     conn = r_objs r cid
                 in case backend_sock conn of
                      Some b \<Rightarrow>
                        if state conn \<in> {CONNECTING_TO_BACKEND, FORWARDING_REQUEST}
                        then or_else (sel_register (r_sockets r) b EVENT_WRITE (Conn cid) (r_selector r))
                               (sel_modify (r_sockets r) b EVENT_WRITE (Conn cid)) r
                        else Returned r
                    | None \<Rightarrow> Returned r))"

definition transition :: "cid \<Rightarrow> conn_state \<Rightarrow> reactor \<Rightarrow> reactor outcome" where
  "transition cid prev_state r =
     and_then (if pending_backend_unregister (r_objs r cid) \<noteq> None then flush_pending_unregister cid r else Returned r)
       (\<lambda>r. let conn = r_objs r cid; k = r_sockets r; sel = r_selector r
            in if state conn = prev_state then Returned r
               else case (state conn, backend_sock conn) of
                      (CONNECTING_TO_BACKEND, Some b) \<Rightarrow>
                        ignoring (sel_register k b EVENT_WRITE (Conn cid) sel) r
                    | (FORWARDING_REQUEST, Some b) \<Rightarrow>
                        or_else (sel_modify k b EVENT_WRITE (Conn cid) sel)
                          (sel_register k b EVENT_WRITE (Conn cid)) r
                    | (READING_RESPONSE, Some b) \<Rightarrow>
                        ignoring (sel_modify k b EVENT_READ (Conn cid) sel) r
                    | (FORWARDING_RESPONSE, ob) \<Rightarrow>
                        and_then (ignoring (sel_modify k (client_sock conn) EVENT_WRITE (Conn cid) sel) r)
                          (\<lambda>r. case ob of
                                 None \<Rightarrow> Returned r
                               | Some b \<Rightarrow> ignoring (sel_unregister (r_sockets r) b (r_selector r)) r)
                    | _ \<Rightarrow> Returned r)"

section \<open>Dispatch\<close>

text \<open>A handler of a connection and the transition after it. \<open>None\<close> when the handler does not return.\<close>

definition run_handler :: "event \<Rightarrow> io \<Rightarrow> cid \<Rightarrow> reactor \<Rightarrow> reactor outcome option" where
  "run_handler ev io cid r =
     (case handle ev io (session_of r cid) of
        None \<Rightarrow> None
      | Some (Raised s) \<Rightarrow> Some (Raised (put_session cid s r))
      | Some (Returned s) \<Rightarrow> Some (transition cid (state (r_objs r cid)) (put_session cid s r)))"

fun and_when :: "bool \<Rightarrow> (reactor \<Rightarrow> reactor outcome option) \<Rightarrow> reactor outcome option \<Rightarrow>
    reactor outcome option" where
  "and_when True f (Some (Returned r)) = f r"
| "and_when _ f res = res"

definition dispatch :: "(event \<Rightarrow> io) \<Rightarrow> cid \<Rightarrow> sock \<Rightarrow> int \<Rightarrow> reactor \<Rightarrow> reactor outcome option" where
  "dispatch ios cid s ev_mask r =
     (let is_client = (s = client_sock (r_objs r cid));
          is_backend = (Some s = backend_sock (r_objs r cid));
          reads = (ev_mask AND EVENT_READ \<noteq> 0);
          writes = (ev_mask AND EVENT_WRITE \<noteq> 0);
          res = and_when (is_client \<and> reads) (run_handler Client_readable (ios Client_readable) cid) (Some (Returned r));
          res = and_when (is_client \<and> writes) (run_handler Client_writable (ios Client_writable) cid) res;
          res = and_when (is_backend \<and> reads) (run_handler Backend_readable (ios Backend_readable) cid) res;
          res = and_when (is_backend \<and> writes) (run_handler Backend_writable (ios Backend_writable) cid) res
      in and_when True
           (\<lambda>r. Some (and_then (flush_pending_unregister cid r) (\<lambda>r. Returned (schedule_deadline cid r)))) res)"

text \<open>The guard of \<open>_loop\<close>: an exception ends the connection.\<close>

definition dispatch_guarded ::
    "(event \<Rightarrow> io) \<Rightarrow> cid \<Rightarrow> sock \<Rightarrow> int \<Rightarrow> reactor \<Rightarrow> reactor option" where
  "dispatch_guarded ios cid s ev_mask r =
     (case dispatch ios cid s ev_mask r of
        None \<Rightarrow> None
      | Some (Returned r) \<Rightarrow> Some r
      | Some (Raised r) \<Rightarrow> Some (put_session cid (set_state DONE (session_of r cid)) r))"

section \<open>Accepting\<close>

text \<open>
  The objects something still refers to: the two tables, the data of the selector's keys, and the local variables
  of the loop. A new object gets an identity none of them has; which one is the allocator's choice \<open>hint\<close>.
\<close>

definition key_refs :: "key_data selector \<Rightarrow> cid set" where
  "key_refs sel = {cid. Conn cid \<in> key_data ` snd ` set (sel_keys sel)}"

lemma key_refs_code [code]:
  "key_refs sel =
     set (List.map_filter (\<lambda>(fd, key). case key_data key of Conn cid \<Rightarrow> Some cid | Accept \<Rightarrow> None) (sel_keys sel))"
  by (force simp: key_refs_def List.map_filter_def split: key_data.splits)

definition references :: "reactor \<Rightarrow> cid set" where
  "references r = set (map snd (r_connections r)) \<union> r_conn_by_id r \<union> key_refs (r_selector r) \<union>
     set_option (r_conn r) \<union> set (r_events r)"

definition new_identity :: "cid \<Rightarrow> reactor \<Rightarrow> cid" where
  "new_identity hint r = (if hint \<in> references r then Suc (Max (references r)) else hint)"

text \<open>
  One client of a burst: its address and the choice of the identity. Registering can raise;
  \<open>_accept\<close> does not catch that.
\<close>

definition accept_one :: "(string \<times> int) \<times> cid \<Rightarrow> reactor \<Rightarrow> reactor outcome" where
  "accept_one a r =
     (let (addr, hint) = a;
          cid = new_identity hint r;
          (s, w) = new_socket (r_world r);
          (conn, w) = new_connection s addr w;
          r = put_session cid (conn, w) r
      in case sel_register (r_sockets r) s EVENT_READ (Conn cid) (r_selector r) of
           Fine sel \<Rightarrow>
             let r = set_selector sel r;
                 r = r\<lparr>r_connections := AList.update (fileno (r_sockets r) s) cid (r_connections r)\<rparr>
             in Returned (schedule_deadline cid r)
         | Absent sel \<Rightarrow> Raised (set_selector sel r)
         | Broken sel \<Rightarrow> Raised (set_selector sel r))"

fun accept_all :: "((string \<times> int) \<times> cid) list \<Rightarrow> reactor \<Rightarrow> reactor outcome" where
  "accept_all [] r = Returned r"
| "accept_all (a # as) r = and_then (accept_one a r) (accept_all as)"

section \<open>Reaping\<close>

definition dead_fds :: "reactor \<Rightarrow> int list" where
  "dead_fds r = map fst (filter (\<lambda>(fd, cid). state (r_objs r cid) = DONE) (r_connections r))"

text \<open>Taking a socket out of the selector; an exception but the two caught ones does not occur here.\<close>

definition forget_socket :: "sock \<Rightarrow> reactor \<Rightarrow> reactor" where
  "forget_socket s r = set_selector (outcome_of (sel_unregister (r_sockets r) s (r_selector r))) r"

definition reap_one :: "int \<Rightarrow> reactor \<Rightarrow> reactor" where
  "reap_one fd r =
     (case map_of (r_connections r) fd of
        None \<Rightarrow> r
      | Some cid \<Rightarrow>
          let conn = r_objs r cid;
              r = r\<lparr>r_connections := AList.delete fd (r_connections r), r_conn_by_id := r_conn_by_id r - {cid}\<rparr>;
              r = forget_socket (client_sock conn) r;
              r = (case backend_sock conn of None \<Rightarrow> r | Some b \<Rightarrow> forget_socket b r)
          in put_session cid (cleanup (session_of r cid)) r)"

definition reap :: "reactor \<Rightarrow> reactor" where
  "reap r = foldl (\<lambda>r fd. reap_one fd r) r (dead_fds r)"

section \<open>The loop\<close>

text \<open>
  What happens in one round: the ready descriptors with their events, the answers to
  the handlers of event number \<open>i\<close>, the clients that wait when event \<open>i\<close> is the listening socket's,
  the answers to the sends of expired connections, whether a signal arrives in it, and what the health checker's thread
  finds meanwhile: the marks it sets before each of the events, and after the last.
\<close>

record round_io =
  io_ready :: "(int \<times> int) list"
  io_handlers :: "nat \<Rightarrow> event \<Rightarrow> io"
  io_accepts :: "nat \<Rightarrow> ((string \<times> int) \<times> cid) list"
  io_expired :: "cid \<Rightarrow> io"
  io_signal :: bool
  io_marks :: "(backend \<times> bool) list list"

definition set_marks :: "(backend \<times> bool) list \<Rightarrow> reactor \<Rightarrow> reactor" where
  "set_marks vs r = r\<lparr>r_world := (r_world r)\<lparr>w_router :=
     foldl (\<lambda>rt (b, healthy). if healthy then mark_healthy rt b else mark_unhealthy rt b) (w_router (r_world r)) vs\<rparr>\<rparr>"

definition marks_before :: "round_io \<Rightarrow> nat \<Rightarrow> (backend \<times> bool) list" where
  "marks_before rio i = (if i < length (io_marks rio) then io_marks rio ! i else [])"

text \<open>An exception of \<open>_accept\<close> leaves the loop: \<open>Raised\<close>.\<close>

fun handle_events :: "round_io \<Rightarrow> nat \<Rightarrow> (key_data sel_key \<times> int) list \<Rightarrow> reactor \<Rightarrow> reactor outcome option" where
  "handle_events rio i [] r = Some (Returned (set_marks (concat (drop i (io_marks rio))) r))"
| "handle_events rio i ((key, ev_mask) # events) r =
     (let r = set_marks (marks_before rio i) r
      in case key_data key of
           Accept \<Rightarrow>
             (case accept_all (io_accepts rio i) r of
                Returned r \<Rightarrow> handle_events rio (Suc i) events r
              | Raised r \<Rightarrow> Some (Raised r))
         | Conn cid \<Rightarrow>
             (case dispatch_guarded (io_handlers rio i) cid (key_fileobj key) ev_mask (r\<lparr>r_conn := Some cid\<rparr>) of
                None \<Rightarrow> None
              | Some r \<Rightarrow> handle_events rio (Suc i) events r))"

definition events_conns :: "(key_data sel_key \<times> int) list \<Rightarrow> cid list" where
  "events_conns events =
     List.map_filter (\<lambda>(key, ev_mask). case key_data key of Conn cid \<Rightarrow> Some cid | Accept \<Rightarrow> None) events"

definition loop_round :: "round_io \<Rightarrow> reactor \<Rightarrow> reactor outcome option" where
  "loop_round rio r =
     (let r = snd (select_timeout r);
          events = select_ready (io_ready rio) (r_selector r);
          r = r\<lparr>r_events := events_conns events\<rparr>
      in map_option (\<lambda>res. and_then res (\<lambda>r. Returned (reap (expire_timeouts (io_expired rio) r))))
           (handle_events rio 0 events r))"

text \<open>\<open>stop\<close>, which is what the handlers of SIGINT and SIGTERM call.\<close>

definition stop :: "reactor \<Rightarrow> reactor" where
  "stop r = r\<lparr>r_running := False\<rparr>"

text \<open>
  The loop. The flag is read between two rounds only, so it makes no difference where in a round the
  signal arrives. \<open>select\<close> itself does not end it: it goes on waiting after the handler of a signal. The end of the
  list is the end of what is looked at.
\<close>

fun loop :: "round_io list \<Rightarrow> reactor \<Rightarrow> reactor outcome option" where
  "loop [] r = Some (Returned r)"
| "loop (rio # rios) r =
     (if \<not> r_running r then Some (Returned r)
      else case loop_round rio r of
             Some (Returned r) \<Rightarrow> loop rios (if io_signal rio then stop r else r)
           | res \<Rightarrow> res)"

section \<open>Start and shutdown\<close>

text \<open>\<open>__init__\<close>. \<open>fd\<close> gives the descriptor of every socket, \<open>clock\<close> the readings of the clock.\<close>

definition initial_reactor :: "router \<Rightarrow> (nat \<Rightarrow> real) \<Rightarrow> (sock \<Rightarrow> int) \<Rightarrow> reactor" where
  "initial_reactor rt clock fd =
     \<lparr>r_world = \<lparr>w_router = rt, w_clock = clock, w_reads = 0, w_next_sock = 0, w_closed = {},
        w_wire = (\<lambda>s. []), w_log = []\<rparr>,
      r_objs = (\<lambda>cid. undefined), r_connections = [], r_conn_by_id = {}, r_deadlines = [],
      r_selector = \<lparr>sel_keys = [], sel_poll = []\<rparr>, r_server = None, r_running = False,
      r_conn = None, r_events = [], r_fd = fd\<rparr>"

text \<open>
  \<open>start\<close> up to the loop, with the flag set at its end. It raises when \<open>SO_REUSEPORT\<close> is needed and missing, and when the address
  cannot be bound; both before the \<open>try\<close>, so nothing is shut down then.
\<close>

definition listen :: "bool \<Rightarrow> bool \<Rightarrow> bool \<Rightarrow> reactor \<Rightarrow> reactor outcome" where
  "listen has_reuseport require_reuseport bind_ok r =
     (let (s, w) = new_socket (r_world r);
          r = r\<lparr>r_world := w, r_server := Some s\<rparr>
      in if \<not> has_reuseport \<and> require_reuseport then Raised r
         else if \<not> bind_ok then Raised r
         else case sel_register (r_sockets r) s EVENT_READ Accept (r_selector r) of
                Fine sel \<Rightarrow> Returned ((set_selector sel r)\<lparr>r_running := True\<rparr>)
              | Absent sel \<Rightarrow> Raised (set_selector sel r)
              | Broken sel \<Rightarrow> Raised (set_selector sel r))"

text \<open>The last step is \<open>_sel.close()\<close>.\<close>

definition shutdown :: "reactor \<Rightarrow> reactor" where
  "shutdown r =
     (let r = foldl (\<lambda>r (fd, cid). put_session cid (cleanup (session_of r cid)) r) r (r_connections r);
          r = r\<lparr>r_connections := [], r_conn_by_id := {}, r_deadlines := []\<rparr>;
          r = (case r_server r of
                 None \<Rightarrow> r
               | Some s \<Rightarrow>
                   let r = forget_socket s r
                   in r\<lparr>r_world := close_socket s (r_world r)\<rparr>)
      in set_selector \<lparr>sel_keys = [], sel_poll = []\<rparr> r)"

text \<open>
  \<open>start\<close>: the loop, and \<open>_shutdown\<close> however it ends. \<open>None\<close> while it has not ended. There is no
  \<open>KeyboardInterrupt\<close> to catch: the worker has its own handler of SIGINT by then.
\<close>

definition start :: "bool \<Rightarrow> bool \<Rightarrow> bool \<Rightarrow> round_io list \<Rightarrow> reactor \<Rightarrow> reactor outcome option" where
  "start has_reuseport require_reuseport bind_ok rios r =
     (case listen has_reuseport require_reuseport bind_ok r of
        Raised r \<Rightarrow> Some (Raised r)
      | Returned r \<Rightarrow>
          (case loop rios r of
             None \<Rightarrow> None
           | Some (Returned r) \<Rightarrow> if r_running r then None else Some (Returned (shutdown r))
           | Some (Raised r) \<Rightarrow> Some (Raised (shutdown r))))"

end
