(* ===== verification/ReactorInv.thy ===== *)
theory ReactorInv
  imports Confined Reactor
begin

text \<open>
  What the reactor's own bookkeeping leaves alone, and the induction over its loop: a predicate on
  the connection objects and the world that the handlers keep is kept by every round. The
  predicates are interpretations of the contract below.
\<close>

section \<open>Selector updates\<close>

lemma set_alist_update: "set (AList.update k v xs) \<subseteq> insert (k, v) (set xs)"
  by (induction xs) auto

lemma set_alist_delete: "set (AList.delete k xs) \<subseteq> set xs"
  by (auto simp: AList.delete_eq)

lemma key_refs_cong: "sel_keys sel' = sel_keys sel \<Longrightarrow> key_refs sel' = key_refs sel"
  by (simp add: key_refs_def)

lemma key_refs_mono:
  "set (sel_keys sel') \<subseteq> insert (fd, key) (set (sel_keys sel)) \<Longrightarrow> key_data key = Conn cid \<Longrightarrow>
    key_refs sel' \<subseteq> insert cid (key_refs sel)"
  unfolding key_refs_def by force

lemma key_refs_less: "set (sel_keys sel') \<subseteq> set (sel_keys sel) \<Longrightarrow> key_refs sel' \<subseteq> key_refs sel"
  unfolding key_refs_def by force

lemma refs_register: "key_refs (outcome_of (sel_register k s ev (Conn cid) sel)) \<subseteq> insert cid (key_refs sel)"
proof -
  have "key_refs (sel\<lparr>sel_keys := sel_keys sel @ [(fd, \<lparr>key_fileobj = s, key_events = ev, key_data = Conn cid\<rparr>)],
      sel_poll := p\<rparr>) \<subseteq> insert cid (key_refs sel)" for fd p
    by (rule key_refs_mono) auto
  then show ?thesis by (auto simp: sel_register_def split: option.splits)
qed

lemma refs_unregister: "key_refs (outcome_of (sel_unregister k s sel)) \<subseteq> key_refs sel"
proof -
  have "key_refs (sel\<lparr>sel_keys := AList.delete fd (sel_keys sel), sel_poll := p\<rparr>) \<subseteq> key_refs sel" for fd p
    by (rule key_refs_less) (simp add: set_alist_delete)
  then show ?thesis by (auto simp: sel_unregister_def split: option.splits)
qed

lemma refs_modify: "key_refs (outcome_of (sel_modify k s ev (Conn cid) sel)) \<subseteq> insert cid (key_refs sel)"
proof -
  have "key_refs (sel\<lparr>sel_keys := AList.update fd key (sel_keys sel)\<rparr>) \<subseteq> insert cid (key_refs sel)"
    "key_refs (sel\<lparr>sel_keys := AList.update fd key (sel_keys sel), sel_poll := p\<rparr>) \<subseteq> insert cid (key_refs sel)"
    if "key_data key = Conn cid" for fd key p
    using that by (rule key_refs_mono [where fd = fd, rotated], simp_all add: set_alist_update)+
  moreover have "key_refs (sel\<lparr>sel_keys := AList.delete fd (sel_keys sel)\<rparr>) \<subseteq> insert cid (key_refs sel)" for fd
    by (rule subset_insertI2, rule key_refs_less) (simp add: set_alist_delete)
  ultimately show ?thesis by (simp add: sel_modify_def Let_def subset_insertI split: option.split)
qed

text \<open>
  A selector update made for a connection changes nothing but the selector and, in that connection,
  the socket that waits to be unregistered.
\<close>

definition calm :: "cid \<Rightarrow> reactor \<Rightarrow> reactor \<Rightarrow> bool" where
  "calm cid r r' \<longleftrightarrow>
     r_world r' = r_world r \<and> r_connections r' = r_connections r \<and> r_conn_by_id r' = r_conn_by_id r \<and>
     r_deadlines r' = r_deadlines r \<and> r_server r' = r_server r \<and> r_fd r' = r_fd r \<and>
     r_running r' = r_running r \<and> r_conn r' = r_conn r \<and> r_events r' = r_events r \<and> key_refs (r_selector r') \<subseteq> insert cid (key_refs (r_selector r)) \<and>
     (r_objs r' = r_objs r \<or>
      r_objs r' = (r_objs r)(cid := (r_objs r cid)\<lparr>pending_backend_unregister := None\<rparr>))"

lemma calm_refl [simp]: "calm cid r r"
  by (auto simp: calm_def)

lemma calm_trans: "calm cid r s \<Longrightarrow> calm cid s t \<Longrightarrow> calm cid r t"
  unfolding calm_def by (elim conjE disjE) (simp_all, auto)

lemma calm_selector:
  "key_refs sel \<subseteq> insert cid (key_refs (r_selector r)) \<Longrightarrow> calm cid r (set_selector sel r)"
  by (simp add: calm_def set_selector_def)

lemma final_ignoring: "final (ignoring a r) = set_selector (outcome_of a) r"
  by (cases a) simp_all

lemma calm_ignoring:
  "key_refs (outcome_of a) \<subseteq> insert cid (key_refs (r_selector r)) \<Longrightarrow> calm cid r (final (ignoring a r))"
  by (simp add: final_ignoring calm_selector)

lemma calm_or_else:
  assumes "key_refs (outcome_of a) \<subseteq> insert cid (key_refs (r_selector r))"
    and "\<And>sel. key_refs (outcome_of (f sel)) \<subseteq> insert cid (key_refs sel)"
  shows "calm cid r (final (or_else a f r))"
  using assms by (cases a) (force intro!: calm_selector simp: final_ignoring)+

lemma calm_and_then:
  assumes "calm cid r (final x)" and "\<And>s. x = Returned s \<Longrightarrow> calm cid s (final (f s))"
  shows "calm cid r (final (and_then x f))"
  using assms by (cases x) (auto intro: calm_trans)

lemma calm_pending:
  "calm cid r (r\<lparr>r_objs := (r_objs r)(cid := (r_objs r cid)\<lparr>pending_backend_unregister := None\<rparr>)\<rparr>)"
  by (auto simp: calm_def)

lemmas calm_selector_ops = subset_insertI2 [OF refs_unregister] refs_register refs_modify

lemma calm_flush: "calm cid r (final (flush_pending_unregister cid r))"
proof (cases "pending_backend_unregister (r_objs r cid)")
  case (Some old)
  have tail: "calm cid s (final (case backend_sock (r_objs s cid) of
        Some b \<Rightarrow> if state (r_objs s cid) \<in> {CONNECTING_TO_BACKEND, FORWARDING_REQUEST}
          then or_else (sel_register (r_sockets s) b EVENT_WRITE (Conn cid) (r_selector s))
                 (sel_modify (r_sockets s) b EVENT_WRITE (Conn cid)) s
          else Returned s
      | None \<Rightarrow> Returned s))" for s
    by (auto intro!: calm_or_else calm_selector_ops split: option.splits)
  show ?thesis unfolding flush_pending_unregister_def Some option.case Let_def
    by (rule calm_and_then [OF calm_ignoring calm_trans [OF calm_pending tail]]) (rule calm_selector_ops)
qed (simp add: flush_pending_unregister_def)

lemma calm_transition: "calm cid r (final (transition cid prev r))"
proof -
  have unreg: "calm cid s (final (case ob of None \<Rightarrow> Returned s
      | Some b \<Rightarrow> ignoring (sel_unregister (r_sockets s) b (r_selector s)) s))" for s ob
    by (auto intro!: calm_ignoring calm_selector_ops split: option.splits)
  show ?thesis unfolding transition_def
  proof (rule calm_and_then)
    show "calm cid r (final (if pending_backend_unregister (r_objs r cid) \<noteq> None
        then flush_pending_unregister cid r else Returned r))"
      by (simp add: calm_flush)
  next
    fix s
    show "calm cid s (final (let conn = r_objs s cid; k = r_sockets s; sel = r_selector s
            in if state conn = prev then Returned s
               else case (state conn, backend_sock conn) of
                      (CONNECTING_TO_BACKEND, Some b) \<Rightarrow>
                        ignoring (sel_register k b EVENT_WRITE (Conn cid) sel) s
                    | (FORWARDING_REQUEST, Some b) \<Rightarrow>
                        or_else (sel_modify k b EVENT_WRITE (Conn cid) sel)
                          (sel_register k b EVENT_WRITE (Conn cid)) s
                    | (READING_RESPONSE, Some b) \<Rightarrow>
                        ignoring (sel_modify k b EVENT_READ (Conn cid) sel) s
                    | (FORWARDING_RESPONSE, ob) \<Rightarrow>
                        and_then (ignoring (sel_modify k (client_sock conn) EVENT_WRITE (Conn cid) sel) s)
                          (\<lambda>s. case ob of
                                 None \<Rightarrow> Returned s
                               | Some b \<Rightarrow> ignoring (sel_unregister (r_sockets s) b (r_selector s)) s)
                    | _ \<Rightarrow> Returned s))"
      unfolding Let_def
      by (cases "state (r_objs s cid)"; cases "backend_sock (r_objs s cid)"; cases "state (r_objs s cid) = prev")
        (auto intro!: calm_and_then calm_ignoring calm_or_else unreg calm_selector_ops)
  qed
qed

section \<open>References\<close>

text \<open>What the operations may come to refer to: the objects already referred to, and their own.\<close>

lemma references_calm: "calm cid r r' \<Longrightarrow> references r' \<subseteq> insert cid (references r)"
  by (auto simp: calm_def references_def)

lemma references_put [simp]: "references (put_session cid s r) = references r"
  by (simp add: references_def put_session_def)

lemma references_schedule: "references (schedule_deadline cid r) \<subseteq> insert cid (references r)"
  by (auto simp: references_def schedule_deadline_def Let_def)

lemma references_world [simp]: "references (r\<lparr>r_world := w\<rparr>) = references r"
  by (simp add: references_def)

lemma references_stop [simp]: "references (stop r) = references r"
  by (simp add: references_def stop_def)

lemma references_deadlines [simp]: "references (r\<lparr>r_deadlines := h\<rparr>) = references r"
  by (simp add: references_def)

lemma set_map_snd_update:
  "snd ` set (AList.update k v xs) \<subseteq> insert v (snd ` set xs)"
  using set_alist_update [of k v xs] by force

lemma references_accepted:
  "key_refs sel \<subseteq> insert cid (key_refs (r_selector r)) \<Longrightarrow>
    references (set_selector sel r\<lparr>r_connections := AList.update fd cid (r_connections r)\<rparr>)
      \<subseteq> insert cid (references r)"
  using set_map_snd_update [of fd cid "r_connections r"]
  by (auto simp: references_def set_selector_def)

lemma references_forget: "references (forget_socket s r) \<subseteq> references r"
  using refs_unregister [of "r_sockets r" s "r_selector r"]
  by (auto simp: references_def forget_socket_def set_selector_def)

lemma references_dropped:
  "references (r\<lparr>r_connections := AList.delete fd (r_connections r), r_conn_by_id := r_conn_by_id r - {cid}\<rparr>)
    \<subseteq> references r"
  using set_alist_delete [of fd "r_connections r"] by (auto simp: references_def)

lemma references_local:
  "references (r\<lparr>r_conn := oc\<rparr>) \<subseteq> references r \<union> set_option oc" "references (r\<lparr>r_events := cs\<rparr>) \<subseteq> references r \<union> set cs"
  by (auto simp: references_def)

text \<open>The health checker's marks change the router only.\<close>

lemma set_marks_fields [simp]:
  "r_objs (set_marks vs r) = r_objs r" "r_connections (set_marks vs r) = r_connections r"
  "r_conn_by_id (set_marks vs r) = r_conn_by_id r" "r_deadlines (set_marks vs r) = r_deadlines r"
  "r_selector (set_marks vs r) = r_selector r" "r_server (set_marks vs r) = r_server r"
  "r_running (set_marks vs r) = r_running r" "r_conn (set_marks vs r) = r_conn r" "r_events (set_marks vs r) = r_events r"
  "r_fd (set_marks vs r) = r_fd r" "w_clock (r_world (set_marks vs r)) = w_clock (r_world r)"
  "w_reads (r_world (set_marks vs r)) = w_reads (r_world r)" "w_next_sock (r_world (set_marks vs r)) = w_next_sock (r_world r)"
  "w_closed (r_world (set_marks vs r)) = w_closed (r_world r)" "w_wire (r_world (set_marks vs r)) = w_wire (r_world r)"
  "w_log (r_world (set_marks vs r)) = w_log (r_world r)" "references (set_marks vs r) = references r"
  by (simp_all add: set_marks_def)

lemma set_marks_Nil [simp]: "set_marks [] r = r"
  by (simp add: set_marks_def)

lemma set_marks_step:
  "set_marks ((b, healthy) # vs) r = set_marks vs (r\<lparr>r_world := (r_world r)\<lparr>w_router :=
     router_step (w_router (r_world r)) (if healthy then Mark_healthy b else Mark_unhealthy b)\<rparr>\<rparr>)"
  by (simp add: set_marks_def)

section \<open>Executions\<close>

text \<open>
  The process while it serves: rounds of the loop, signals, and marks of the health checker thread.
\<close>

inductive lb_step :: "reactor \<Rightarrow> reactor \<Rightarrow> bool" where
  lb_round: "r_running r \<Longrightarrow> loop_round rio r = Some (Returned r') \<Longrightarrow> lb_step r r'"
| lb_signal: "lb_step r (stop r)"
| lb_check: "op \<in> range Mark_healthy \<union> range Mark_unhealthy \<Longrightarrow>
    lb_step r (r\<lparr>r_world := (r_world r)\<lparr>w_router := router_step (w_router (r_world r)) op\<rparr>\<rparr>)"

definition serving :: "router \<Rightarrow> (nat \<Rightarrow> real) \<Rightarrow> (sock \<Rightarrow> int) \<Rightarrow> reactor \<Rightarrow> bool" where
  "serving rt clock fd r \<longleftrightarrow>
     (\<exists>has_reuseport require_reuseport r0.
        listen has_reuseport require_reuseport True (initial_reactor rt clock fd) = Returned r0 \<and> lb_step\<^sup>*\<^sup>* r0 r)"

lemma loop_steps: "loop rios r = Some (Returned r') \<Longrightarrow> lb_step\<^sup>*\<^sup>* r r'"
proof (induction rios arbitrary: r)
  case (Cons rio rios)
  show ?case
  proof (cases "r_running r")
    case True
    with Cons.prems obtain t where t: "loop_round rio r = Some (Returned t)"
        "loop rios (if io_signal rio then stop t else t) = Some (Returned r')"
      by (auto split: option.splits outcome.splits)
    note rest = Cons.IH [OF t(2)]
    have "lb_step\<^sup>*\<^sup>* t r'"
      using rest converse_rtranclp_into_rtranclp [of lb_step, OF lb_signal, of t r'] by (cases "io_signal rio") simp_all
    from converse_rtranclp_into_rtranclp [of lb_step, OF lb_round [OF True t(1)] this] show ?thesis .
  qed (use Cons.prems in simp)
qed simp

section \<open>The contract\<close>

text \<open>
  A predicate \<open>I K r\<close> on the objects in \<open>K\<close> and the world of \<open>r\<close>. The assumptions are its steps: one
  handler, one exception, one accepted client, one reading of the clock, one closed socket.
\<close>

locale reactor_contract =
  fixes I :: "cid set \<Rightarrow> reactor \<Rightarrow> bool"
  assumes same: "I K r \<Longrightarrow> r_objs r' = r_objs r \<Longrightarrow> r_world r' = r_world r \<Longrightarrow> I K r'"
    and fewer: "I K r \<Longrightarrow> J \<subseteq> K \<Longrightarrow> I J r"
    and handled: "I K r \<Longrightarrow> cid \<in> K \<Longrightarrow> handle ev io (session_of r cid) = Some (Returned s) \<Longrightarrow>
      I K (put_session cid s r)"
    and raised: "I K r \<Longrightarrow> cid \<in> K \<Longrightarrow> handle ev io (session_of r cid) = Some (Raised s) \<Longrightarrow>
      I K (put_session cid (set_state DONE s) r)"
    and ended: "I K r \<Longrightarrow> cid \<in> K \<Longrightarrow> I K (put_session cid (set_state DONE (session_of r cid)) r)"
    and flushed: "I K r \<Longrightarrow> cid \<in> K \<Longrightarrow>
      I K (r\<lparr>r_objs := (r_objs r)(cid := (r_objs r cid)\<lparr>pending_backend_unregister := None\<rparr>)\<rparr>)"
    and clock: "I K r \<Longrightarrow> I K (r\<lparr>r_world := snd (monotonic (r_world r))\<rparr>)"
    and opened: "I K r \<Longrightarrow> I K (r\<lparr>r_world := snd (new_socket (r_world r))\<rparr>)"
    and arrived: "I K r \<Longrightarrow> new_socket (r_world r) = (client, w) \<Longrightarrow>
      I (insert cid K) (put_session cid (new_connection client addr w) r)"
    and cleaned: "I K r \<Longrightarrow> cid \<in> K \<Longrightarrow> I K (put_session cid (cleanup (session_of r cid)) r)"
    and checked: "I K r \<Longrightarrow> op \<in> range Mark_healthy \<union> range Mark_unhealthy \<Longrightarrow>
      I K (r\<lparr>r_world := (r_world r)\<lparr>w_router := router_step (w_router (r_world r)) op\<rparr>\<rparr>)"
begin

text \<open>The predicate for a set that has every object referred to.\<close>

definition over :: "cid set \<Rightarrow> reactor \<Rightarrow> bool" where
  "over K r \<longleftrightarrow> I K r \<and> references r \<subseteq> K"

text \<open>The same of an outcome: after an exception, for what is left once the connection is ended.\<close>

definition settled :: "cid set \<Rightarrow> cid \<Rightarrow> reactor outcome \<Rightarrow> bool" where
  "settled K cid res \<longleftrightarrow> references (final res) \<subseteq> K \<and>
     (case res of Returned r \<Rightarrow> I K r | Raised r \<Rightarrow> I K (put_session cid (set_state DONE (session_of r cid)) r))"

lemma calm_keeps: "I K r \<Longrightarrow> cid \<in> K \<Longrightarrow> calm cid r r' \<Longrightarrow> I K r'"
  unfolding calm_def by (elim conjE disjE) (auto intro: same flushed)

lemma calm_settled:
  assumes "over K r" and "cid \<in> K" and "calm cid r (final res)"
  shows "settled K cid res"
  using assms calm_keeps [of K r cid "final res"] references_calm [OF assms(3)] ended
  by (cases res) (auto simp: over_def settled_def)

lemma run_settled:
  assumes "over K r" and "cid \<in> K" and "run_handler ev io cid r = Some res"
  shows "settled K cid res"
proof (cases "handle ev io (session_of r cid)")
  case (Some out)
  show ?thesis
  proof (cases out)
    case (Returned s)
    with assms Some have "over K (put_session cid s r)" by (auto simp: over_def intro: handled)
    with assms Some Returned show ?thesis
      by (auto simp: run_handler_def intro: calm_settled calm_transition)
  next
    case (Raised s)
    have "put_session cid (set_state DONE (session_of (put_session cid s r) cid)) (put_session cid s r) =
        put_session cid (set_state DONE s) r"
      by (simp add: put_session_def session_of_def set_state_def)
    with assms Some Raised raised [of K r cid ev io s] show ?thesis
      by (auto simp: run_handler_def settled_def over_def)
  qed
qed (use assms in \<open>simp add: run_handler_def\<close>)

lemma run_settled_option:
  "over K r \<Longrightarrow> cid \<in> K \<Longrightarrow> pred_option (settled K cid) (run_handler ev io cid r)"
  using run_settled by (cases "run_handler ev io cid r") auto

lemma when_settled:
  assumes "pred_option (settled K cid) x" and "\<And>r. over K r \<Longrightarrow> pred_option (settled K cid) (f r)"
  shows "pred_option (settled K cid) (and_when b f x)"
  using assms by (cases "(b, f, x)" rule: and_when.cases) (auto simp: settled_def over_def)

lemma scheduled: "over K r \<Longrightarrow> cid \<in> K \<Longrightarrow> over K (schedule_deadline cid r)"
  using references_schedule [of cid r]
  by (auto simp: over_def schedule_deadline_def Let_def intro: same)

lemma flush_schedule_settled:
  assumes "over K r" and "cid \<in> K"
  shows "settled K cid (and_then (flush_pending_unregister cid r) (\<lambda>r. Returned (schedule_deadline cid r)))"
proof -
  have s: "settled K cid (flush_pending_unregister cid r)" by (rule calm_settled [OF assms calm_flush])
  show ?thesis
  proof (cases "flush_pending_unregister cid r")
    case (Returned t)
    with s scheduled [of K t cid] assms(2) show ?thesis by (simp add: settled_def over_def)
  qed (use s in simp)
qed

lemma dispatch_settled:
  assumes "over K r" and "cid \<in> K" and "dispatch ios cid s ev_mask r = Some res"
  shows "settled K cid res"
proof -
  have "pred_option (settled K cid) (Some (Returned r))" using assms(1) by (simp add: settled_def over_def)
  then have "pred_option (settled K cid) (dispatch ios cid s ev_mask r)"
    unfolding dispatch_def Let_def using assms(2)
    by (intro when_settled run_settled_option) (simp_all add: flush_schedule_settled)
  with assms(3) show ?thesis by simp
qed

lemma dispatch_over:
  assumes "over K r" and "cid \<in> K" and "dispatch_guarded ios cid s ev_mask r = Some r'"
  shows "over K r'"
proof (cases "dispatch ios cid s ev_mask r")
  case (Some res)
  from dispatch_settled [OF assms(1,2) Some] Some assms(3) show ?thesis
    by (cases res) (auto simp: dispatch_guarded_def settled_def over_def)
qed (use assms in \<open>simp add: dispatch_guarded_def\<close>)

lemma accept_over:
  assumes "over K r"
  obtains J where "K \<subseteq> J" "over J (final (accept_one a r))"
proof -
  obtain addr hint where a: "a = (addr, hint)" by (cases a)
  define cid where "cid = new_identity hint r"
  obtain client w where s: "new_socket (r_world r) = (client, w)" by fastforce
  define r1 where "r1 = put_session cid (new_connection client addr w) r"
  define res where "res = sel_register (r_sockets r1) client EVENT_READ (Conn cid) (r_selector r1)"
  define r2 where "r2 = set_selector (outcome_of res) r1"
  have I1: "I (insert cid K) r1" unfolding r1_def using assms s by (auto simp: over_def intro: arrived)
  have refs: "key_refs (outcome_of res) \<subseteq> insert cid (key_refs (r_selector r1))"
    unfolding res_def by (rule refs_register)
  have "references r1 \<subseteq> K" using assms by (simp add: r1_def over_def)
  with refs have 2: "over (insert cid K) r2"
    using same [OF I1, of r2] by (auto simp: over_def r2_def set_selector_def references_def)
  have "over (insert cid K) (r2\<lparr>r_connections := AList.update fd cid (r_connections r2)\<rparr>)" for fd
    using 2 same [of "insert cid K" r2] set_map_snd_update [of fd cid "r_connections r2"]
    by (force simp: over_def references_def)
  then have "over (insert cid K) (schedule_deadline cid (r2\<lparr>r_connections := AList.update fd cid (r_connections r2)\<rparr>))" for fd
    by (intro scheduled) simp_all
  with 2 s have "over (insert cid K) (final (accept_one a r))"
    by (cases res) (simp_all add: a accept_one_def Let_def cid_def [symmetric] r1_def [symmetric]
        case_prod_unfold res_def [symmetric] r2_def)
  then show thesis by (intro that) auto
qed

lemma accept_all_over:
  "over K r \<Longrightarrow> \<exists>J. K \<subseteq> J \<and> over J (final (accept_all as r))"
proof (induction as arbitrary: K r)
  case (Cons a as)
  obtain J where J: "K \<subseteq> J" "over J (final (accept_one a r))" by (rule accept_over [OF Cons.prems])
  show ?case
  proof (cases "accept_one a r")
    case (Returned t)
    with J Cons.IH [of J t] show ?thesis by auto
  qed (use J in auto)
qed auto

lemma marks_over: "over K r \<Longrightarrow> over K (set_marks vs r)"
proof (induction vs arbitrary: r)
  case (Cons v vs)
  obtain b healthy where v: "v = (b, healthy)" by (cases v)
  have "over K (r\<lparr>r_world := (r_world r)\<lparr>w_router :=
      router_step (w_router (r_world r)) (if healthy then Mark_healthy b else Mark_unhealthy b)\<rparr>\<rparr>)"
    using Cons.prems checked [of K r "if healthy then Mark_healthy b else Mark_unhealthy b"] by (simp add: over_def)
  from Cons.IH [OF this] show ?case by (simp add: v set_marks_step)
qed simp

lemma local_over:
  "over K r \<Longrightarrow> cid \<in> K \<Longrightarrow> over K (r\<lparr>r_conn := Some cid\<rparr>)" "over K r \<Longrightarrow> set cs \<subseteq> K \<Longrightarrow> over K (r\<lparr>r_events := cs\<rparr>)"
  using references_local(1) [where r = r and oc = "Some cid"] references_local(2) [where r = r and cs = cs]
  by (auto simp: over_def intro: same [of K r])

lemma expired_over:
  "over K r \<Longrightarrow> over K (expire_loop ios now n r)"
proof (induction n arbitrary: r)
  case (Suc n)
  show ?case
  proof (cases "heappop (r_deadlines r)")
    case (Some x)
    obtain d gen cid h where x: "x = ((d, gen, cid), h)" by (cases x) auto
    let ?r = "r\<lparr>r_deadlines := h\<rparr>"
    have over: "over K ?r" using Suc.prems by (auto simp: over_def intro: same)
    have "over K (put_session cid (handle_timeout (ios cid) (session_of ?r cid)) ?r)"
      if "\<not> stale_entry ?r (d, gen, cid)"
    proof -
      have "cid \<in> K" using that over by (auto simp: stale_entry_def over_def references_def)
      with over show ?thesis
        using handled [of K ?r cid Expired "ios cid" "handle_timeout (ios cid) (session_of ?r cid)"]
        by (simp add: over_def)
    qed
    with Suc x Some over show ?thesis by (simp add: Let_def)
  qed (use Suc.prems in simp)
qed simp

lemma clock_over: "over K r \<Longrightarrow> over K (r\<lparr>r_world := snd (monotonic (r_world r))\<rparr>)"
  using clock by (simp add: over_def)

lemma expire_timeouts_over: "over K r \<Longrightarrow> over K (expire_timeouts ios r)"
  using expired_over [OF clock_over] by (simp add: expire_timeouts_def case_prod_unfold Let_def)

lemma select_timeout_over: "over K r \<Longrightarrow> over K (snd (select_timeout r))"
proof -
  assume r: "over K r"
  have "over K (r\<lparr>r_world := snd (monotonic (r_world r)), r_deadlines := h\<rparr>)" for h
    using clock_over [OF r] by (auto simp: over_def references_def intro: same)
  then show ?thesis by (auto simp: select_timeout_def Let_def case_prod_unfold split: list.splits)
qed

lemma forget_over: "over K r \<Longrightarrow> over K (forget_socket s r)"
  using references_forget [of s r] by (auto simp: over_def forget_socket_def set_selector_def intro: same)

lemma reap_one_over:
  assumes "over K r"
  shows "over K (reap_one fd r)"
proof (cases "map_of (r_connections r) fd")
  case (Some cid)
  then have cid: "cid \<in> K" using assms map_of_SomeD [OF Some] by (force simp: over_def references_def)
  let ?r = "r\<lparr>r_connections := AList.delete fd (r_connections r), r_conn_by_id := r_conn_by_id r - {cid}\<rparr>"
  have "over K ?r" using assms references_dropped [where r = r and fd = fd and cid = cid] by (auto simp: over_def intro: same)
  then have "over K (forget_socket s ?r)" for s by (rule forget_over)
  then have "over K (case ob of None \<Rightarrow> forget_socket s ?r | Some b \<Rightarrow> forget_socket b (forget_socket s ?r))" for s ob
    by (auto intro: forget_over split: option.splits)
  from this cleaned [OF _ cid] show ?thesis
    by (simp add: Some reap_one_def Let_def over_def)
qed (use assms in \<open>simp add: reap_one_def\<close>)

lemma reap_over: "over K r \<Longrightarrow> over K (reap r)"
proof -
  have "over K (foldl (\<lambda>r fd. reap_one fd r) r fds)" if "over K r" for fds
    using that by (induction fds arbitrary: r) (auto intro: reap_one_over)
  then show "over K r \<Longrightarrow> over K (reap r)" by (simp add: reap_def)
qed

lemma events_over:
  assumes "over K r" and "\<And>key m cid. (key, m) \<in> set evs \<Longrightarrow> key_data key = Conn cid \<Longrightarrow> cid \<in> K"
    and "handle_events rio i evs r = Some res"
  shows "\<exists>J. K \<subseteq> J \<and> over J (final res)"
  using assms
proof (induction rio i evs r arbitrary: K rule: handle_events.induct)
  case (1 rio i r)
  then have "res = Returned (set_marks (concat (drop i (io_marks rio))) r)" by simp
  with marks_over [OF 1(1)] show ?case by auto
next
  case (2 rio i key ev_mask events r)
  let ?r = "set_marks (marks_before rio i) r"
  note r = marks_over [OF 2(3), of "marks_before rio i"]
  show ?case
  proof (cases "key_data key")
    case Accept
    obtain J where J: "K \<subseteq> J" "over J (final (accept_all (io_accepts rio i) ?r))"
      using accept_all_over [OF r] by blast
    show ?thesis
    proof (cases "accept_all (io_accepts rio i) ?r")
      case (Returned t)
      have "\<exists>J'. J \<subseteq> J' \<and> over J' (final res)"
        by (rule 2(1) [OF refl Accept Returned]) (use J Returned 2(4,5) Accept in \<open>auto\<close>)
      with J show ?thesis by blast
    next
      case (Raised t)
      with 2(5) Accept have "res = Raised t" by simp
      with J Raised show ?thesis by auto
    qed
  next
    case (Conn cid)
    with 2(5) obtain t where t:
      "dispatch_guarded (io_handlers rio i) cid (key_fileobj key) ev_mask (?r\<lparr>r_conn := Some cid\<rparr>) = Some t"
      by (auto simp: Let_def split: option.splits)
    have cid: "cid \<in> K" using 2(4) Conn by auto
    have "over K t" by (rule dispatch_over [OF local_over(1) [OF r cid] cid t])
    then show ?thesis
      by (rule 2(2) [OF refl Conn t]) (use t 2(4,5) Conn in auto)
  qed
qed

lemma events_conns_iff: "cid \<in> set (events_conns evs) \<longleftrightarrow> (\<exists>key m. (key, m) \<in> set evs \<and> key_data key = Conn cid)"
  by (force simp: events_conns_def List.map_filter_def split: key_data.splits)

lemma select_ready_refs:
  "(key, m) \<in> set (select_ready ready sel) \<Longrightarrow> key_data key = Conn cid \<Longrightarrow> cid \<in> key_refs sel"
proof -
  assume s: "(key, m) \<in> set (select_ready ready sel)" and key: "key_data key = Conn cid"
  then obtain fd where "map_of (sel_keys sel) fd = Some key"
    by (auto simp: select_ready_def List.map_filter_def)
  from map_of_SomeD [OF this] key show ?thesis by (force simp: key_refs_def)
qed

theorem round_over:
  assumes "over K r" and "loop_round rio r = Some res"
  shows "\<exists>J. K \<subseteq> J \<and> over J (final res)"
proof -
  let ?s = "snd (select_timeout r)"
  define evs where "evs = select_ready (io_ready rio) (r_selector ?s)"
  let ?r = "?s\<lparr>r_events := events_conns evs\<rparr>"
  obtain x where x: "handle_events rio 0 evs ?r = Some x"
    and res: "and_then x (\<lambda>r. Returned (reap (expire_timeouts (io_expired rio) r))) = res"
    using assms(2) unfolding loop_round_def Let_def map_option_eq_Some evs_def by (elim exE conjE)
  have s: "over K ?s" by (rule select_timeout_over [OF assms(1)])
  then have "key_refs (r_selector ?s) \<subseteq> K" by (simp add: over_def references_def)
  with select_ready_refs have refs: "(key, m) \<in> set evs \<Longrightarrow> key_data key = Conn cid \<Longrightarrow> cid \<in> K" for key m cid
    unfolding evs_def by (rule subsetD [rotated])
  then have "set (events_conns evs) \<subseteq> K" by (auto simp: events_conns_iff)
  then have r: "over K ?r" by (rule local_over(2) [OF s])
  obtain J where J: "K \<subseteq> J" "over J (final x)"
    using events_over [OF r _ x] refs by metis
  have "over J (final res)"
  proof (cases x)
    case (Returned t)
    with J(2) have "over J (reap (expire_timeouts (io_expired rio) t))"
      by (intro reap_over expire_timeouts_over) simp
    with Returned show ?thesis by (simp add: res [symmetric])
  qed (use J(2) in \<open>simp add: res [symmetric]\<close>)
  with J(1) show ?thesis by blast
qed

lemma step_over:
  assumes "lb_step r r'" and "over K r"
  shows "over (references r') r'"
  using assms(1)
proof cases
  case (lb_round rio)
  from round_over [OF assms(2) this(2)] obtain J where "over J r'" by auto
  then show ?thesis by (auto simp: over_def intro: fewer)
next
  case lb_signal
  have "over (references r) r" using assms(2) by (auto simp: over_def intro: fewer)
  moreover from this have "I (references r) (stop r)" by (auto simp: over_def stop_def intro: same)
  ultimately show ?thesis by (simp add: lb_signal over_def)
next
  case (lb_check op)
  have "over (references r) r" using assms(2) by (auto simp: over_def intro: fewer)
  with checked [OF _ lb_check(2), of "references r" r] show ?thesis by (simp add: over_def lb_check(1))
qed

lemma run_over: "lb_step\<^sup>*\<^sup>* r r' \<Longrightarrow> over (references r) r \<Longrightarrow> over (references r') r'"
  by (induction rule: rtranclp_induct) (auto intro: step_over)

theorem serving_over:
  assumes "I {} (initial_reactor rt clock fd)" and "serving rt clock fd r"
  shows "I (references r) r"
proof -
  let ?r0 = "initial_reactor rt clock fd"
  obtain h q r0 where r0: "listen h q True ?r0 = Returned r0" and run: "lb_step\<^sup>*\<^sup>* r0 r"
    using assms(2) by (auto simp: serving_def)
  have w: "r_world r0 = snd (new_socket (r_world ?r0))" "r_objs r0 = r_objs ?r0" and refs: "references r0 = {}"
    using r0 by (auto simp: listen_def Let_def sel_register_def fileobj_lookup_def initial_reactor_def
        references_def key_refs_def set_selector_def case_prod_unfold split: if_splits)
  have "I {} r0"
    by (rule same [OF opened [OF assms(1)]]) (simp_all add: w)
  then have "over (references r0) r0" by (simp add: over_def refs)
  from run_over [OF run this] show ?thesis by (simp add: over_def)
qed

end

end
