(* ===== verification/ReactorSessions.thy ===== *)
theory ReactorSessions
  imports ReactorInv
begin

text \<open>
  All connections of the reactor at once. Every object something refers to satisfies the invariant
  of a single connection, no two share a socket, and the router charges each backend with at least
  the slots the objects hold.
\<close>

declare split_paired_All [simp del] split_paired_Ex [simp del]

section \<open>Well-formed objects\<close>

definition sessions_ok :: "cid set \<Rightarrow> reactor \<Rightarrow> bool" where
  "sessions_ok K r \<longleftrightarrow> world_ok (r_world r) \<and>
     (\<forall>cid \<in> K. phase_ok (session_of r cid) \<and> owns (r_objs r cid) \<subseteq> {..<w_next_sock (r_world r)}) \<and>
     (\<forall>c \<in> K. \<forall>d \<in> K. c \<noteq> d \<longrightarrow> owns (r_objs r c) \<inter> owns (r_objs r d) = {})"

lemma put_objs [simp]:
  "r_objs (put_session cid s r) = (r_objs r)(cid := fst s)" "r_world (put_session cid s r) = snd s"
  "session_of (put_session cid s r) cid = s"
  by (simp_all add: put_session_def session_of_def)

lemma session_parts [simp]: "fst (session_of r cid) = r_objs r cid" "snd (session_of r cid) = r_world r"
  by (simp_all add: session_of_def)

lemma session_put_other: "d \<noteq> cid \<Longrightarrow> session_of (put_session cid s r) d = (r_objs r d, snd s)"
  by (simp add: session_of_def put_session_def)

lemma phase_world: "phase_ok s \<Longrightarrow> world_ok (snd s)"
  using phase_known by (simp add: client_known_def)

lemma confined_interferes:
  assumes "confined s t" and "phase_ok t" and "owns c \<subseteq> {..<w_next_sock (snd s)}" and "owns (fst s) \<inter> owns c = {}"
  shows "interferes (c, snd s) (snd t)"
proof -
  have "w_wire (snd t) x = w_wire (snd s) x" if "x \<in> owns c" for x
    using assms(1,3,4) that by (auto simp: confined_def)
  then show ?thesis using assms(1) phase_world [OF assms(2)]
    by (auto simp: interferes_def confined_def owns_def)
qed

lemma sessions_put:
  assumes "sessions_ok K r" and "cid \<in> K" and "confined (session_of r cid) t" and "phase_ok t"
  shows "sessions_ok K (put_session cid t r)"
proof -
  let ?s = "session_of r cid" let ?r = "put_session cid t r"
  have next_le: "w_next_sock (r_world r) \<le> w_next_sock (snd t)" using assms(3) by (simp add: confined_def)
  have own: "owns (fst t) \<subseteq> {..<w_next_sock (snd t)}" "owns (fst t) \<subseteq> owns (r_objs r cid) \<union> {w_next_sock (r_world r)..}"
    using assms(1-3) next_le by (force simp: confined_def sessions_ok_def)+
  have old: "phase_ok (session_of r d)" "owns (r_objs r d) \<subseteq> {..<w_next_sock (r_world r)}"
    "d \<noteq> cid \<Longrightarrow> owns (r_objs r cid) \<inter> owns (r_objs r d) = {}" if "d \<in> K" for d
    using assms(1,2) that by (auto simp: sessions_ok_def)
  have "phase_ok (session_of ?r d) \<and> owns (r_objs ?r d) \<subseteq> {..<w_next_sock (r_world ?r)}" if "d \<in> K" for d
  proof (cases "d = cid")
    case False
    with old [OF that] confined_interferes [OF assms(3,4), of "r_objs r d"]
    have "phase_ok (r_objs r d, snd t)"
      using phase_others [of "session_of r d" "snd t"] by (simp add: session_of_def)
    with False old(2) [OF that] next_le show ?thesis by (auto simp: session_put_other)
  qed (use own assms(4) in auto)
  moreover have "owns (r_objs ?r c) \<inter> owns (r_objs ?r d) = {}" if "c \<in> K" "d \<in> K" "c \<noteq> d" for c d
  proof -
    have new: "owns (fst t) \<inter> owns (r_objs r d) = {}" if "d \<in> K" "d \<noteq> cid" for d
      using own(2) old(2,3) [OF that(1)] that(2) by fastforce
    have "owns (r_objs r c) \<inter> owns (r_objs r d) = {}"
      using assms(1) that by (simp add: sessions_ok_def)
    with new [of c] new [of d] that show ?thesis by (cases "c = cid"; cases "d = cid") auto
  qed
  ultimately show ?thesis using phase_world [OF assms(4)] by (simp add: sessions_ok_def)
qed

text \<open>The world changes apart from the sockets.\<close>

lemma sessions_world:
  assumes "sessions_ok K r" and "router_ok (w_router w)" and "w_next_sock (r_world r) \<le> w_next_sock w"
    and "w_wire w = w_wire (r_world r)"
  shows "sessions_ok K (r\<lparr>r_world := w\<rparr>)"
proof -
  have w: "world_ok w" using assms by (auto simp: sessions_ok_def world_ok_def)
  have "phase_ok (r_objs r cid, w)" if "cid \<in> K" for cid
  proof -
    have "interferes (session_of r cid) w" using assms(3,4) w by (simp add: interferes_def)
    with assms(1) that phase_others [of "session_of r cid" w] show ?thesis by (simp add: sessions_ok_def)
  qed
  with assms w show ?thesis by (fastforce simp: sessions_ok_def session_of_def)
qed

lemma arrived_accepted:
  assumes "world_ok (r_world r)" and "new_socket (r_world r) = (s, w)"
  shows "accepted (new_connection s addr w)"
proof -
  have s: "s = w_next_sock (r_world r)" "w = (r_world r)\<lparr>w_next_sock := Suc s\<rparr>"
    using assms(2) by (auto simp: new_socket_def)
  then have "world_ok w" "w_wire w s = []" "s < w_next_sock w" using assms(1) by (auto simp: world_ok_def)
  then show ?thesis unfolding accepted_def by blast
qed

lemma sessions_arrived:
  assumes "sessions_ok K r" and "new_socket (r_world r) = (s, w)"
  shows "sessions_ok (insert cid K) (put_session cid (new_connection s addr w) r)"
proof -
  let ?t = "new_connection s addr w"
  have s: "s = w_next_sock (r_world r)" "w = (r_world r)\<lparr>w_next_sock := Suc s\<rparr>"
    using assms(2) by (auto simp: new_socket_def)
  have world: "world_ok (r_world r)" using assms(1) by (simp add: sessions_ok_def)
  then have t: "phase_ok ?t" by (rule phase_accepted [OF arrived_accepted [OF _ assms(2)]])
  have frame: "w_next_sock (snd ?t) = Suc s" "w_wire (snd ?t) = w_wire (r_world r)" "owns (fst ?t) = {s}"
    by (simp_all add: new_connection_fields s(2))
  have "interferes (session_of r d) (snd ?t)" for d
    using frame phase_world [OF t] s by (simp add: interferes_def)
  then have old: "phase_ok (r_objs r d, snd ?t)" "owns (r_objs r d) \<subseteq> {..<s}" if "d \<in> K" for d
    using assms(1) phase_others [of "session_of r d" "snd ?t"] that by (auto simp: sessions_ok_def s(1))
  have "phase_ok (session_of (put_session cid ?t r) d) \<and>
      owns (r_objs (put_session cid ?t r) d) \<subseteq> {..<w_next_sock (snd ?t)}" if "d \<in> insert cid K" for d
    using that old [of d] t frame by (cases "d = cid") (auto simp: session_put_other)
  moreover have "owns (r_objs (put_session cid ?t r) c) \<inter> owns (r_objs (put_session cid ?t r) d) = {}"
    if "c \<in> insert cid K" "d \<in> insert cid K" "c \<noteq> d" for c d
  proof -
    have "owns (r_objs r c) \<inter> owns (r_objs r d) = {}" if "c \<in> K" "d \<in> K"
      using assms(1) that \<open>c \<noteq> d\<close> by (simp add: sessions_ok_def)
    with that old(2) [of c] old(2) [of d] frame(3) show ?thesis
      by (cases "c = cid"; cases "d = cid") auto
  qed
  ultimately show ?thesis using phase_world [OF t] by (simp add: sessions_ok_def)
qed

lemma sessions_flushed:
  assumes "sessions_ok K r"
  shows "sessions_ok K (r\<lparr>r_objs := (r_objs r)(cid := (r_objs r cid)\<lparr>pending_backend_unregister := None\<rparr>)\<rparr>)"
proof -
  have sub: "owns ((r_objs r c)\<lparr>pending_backend_unregister := None\<rparr>) \<subseteq> owns (r_objs r c)" for c
    by (auto simp: owns_def)
  show ?thesis
    using assms sub [of cid] by (fastforce simp: sessions_ok_def session_of_def phase_pending)
qed

interpretation sessions: reactor_contract sessions_ok
proof unfold_locales
  fix K J :: "cid set" and r r' :: reactor and cid ev io s client w addr op
  assume ok: "sessions_ok K r"
  show "sessions_ok K r'" if "r_objs r' = r_objs r" "r_world r' = r_world r"
    using ok that by (simp add: sessions_ok_def session_of_def)
  show "sessions_ok J r" if "J \<subseteq> K" using ok that unfolding sessions_ok_def by (meson subsetD)
  have phase: "phase_ok (session_of r cid)" if "cid \<in> K" using ok that by (simp add: sessions_ok_def)
  show "sessions_ok K (put_session cid s r)" if "cid \<in> K" "handle ev io (session_of r cid) = Some (Returned s)"
    using sessions_put [OF ok that(1)] confined_handle [OF that(2)] phase_handle [OF phase [OF that(1)] that(2)]
    by simp
  show "sessions_ok K (put_session cid (set_state DONE s) r)"
    if "cid \<in> K" "handle ev io (session_of r cid) = Some (Raised s)"
    using sessions_put [OF ok that(1) confined_trans [OF confined_handle [OF that(2)] confined_state]]
      phase_step [OF phase [OF that(1)] step_raised [OF that(2)]] by simp
  show "sessions_ok K (put_session cid (set_state DONE (session_of r cid)) r)" if "cid \<in> K"
    by (rule sessions_put [OF ok that confined_state phase_set_done [OF phase [OF that]]])
  show "sessions_ok K (r\<lparr>r_objs := (r_objs r)(cid := (r_objs r cid)\<lparr>pending_backend_unregister := None\<rparr>)\<rparr>)"
    by (rule sessions_flushed [OF ok])
  have router: "router_ok (w_router (r_world r))" using ok by (simp add: sessions_ok_def world_ok_def)
  show "sessions_ok K (r\<lparr>r_world := snd (monotonic (r_world r))\<rparr>)"
    "sessions_ok K (r\<lparr>r_world := snd (new_socket (r_world r))\<rparr>)"
    using router by (auto intro!: sessions_world [OF ok] simp: monotonic_def new_socket_def)
  show "sessions_ok (insert cid K) (put_session cid (new_connection client addr w) r)"
    if "new_socket (r_world r) = (client, w)"
    by (rule sessions_arrived [OF ok that])
  show "sessions_ok K (put_session cid (cleanup (session_of r cid)) r)" if "cid \<in> K"
  proof (rule sessions_put [OF ok that confined_cleanup])
    have "interferes (session_of r cid) (snd (cleanup (session_of r cid)))" "fst (cleanup (session_of r cid)) = r_objs r cid"
      using phase_world [OF phase [OF that]]
      by (auto simp: session_of_def interferes_def close_socket_def world_ok_def Let_def split: option.splits)
    with phase_others [OF phase [OF that]] show "phase_ok (cleanup (session_of r cid))" by (metis prod.collapse session_parts(1))
  qed
  show "sessions_ok K (r\<lparr>r_world := (r_world r)\<lparr>w_router := router_step (w_router (r_world r)) op\<rparr>\<rparr>)"
    using router_step_ok [OF router] by (auto intro!: sessions_world [OF ok])
qed

section \<open>Every object has a run of its own\<close>

text \<open>
  What the reactor does to its objects is, for each of them, a run of the connection from the state in which it
  was accepted, in which all the others are the interference.
\<close>

definition traced :: "cid set \<Rightarrow> reactor \<Rightarrow> bool" where
  "traced K r \<longleftrightarrow> sessions_ok K r \<and> (\<forall>cid \<in> K. \<exists>s. accepted s \<and> session_step\<^sup>*\<^sup>* s (session_of r cid))"

lemma tracedI:
  assumes "traced K r" and "sessions_ok K r'"
    and "\<And>cid. cid \<in> K \<Longrightarrow> session_step\<^sup>*\<^sup>* (session_of r cid) (session_of r' cid)"
  shows "traced K r'"
  using assms unfolding traced_def by (meson rtranclp_trans)

lemma traced_put:
  assumes "traced K r" and "cid \<in> K" and "sessions_ok K (put_session cid t r)"
    and "confined (session_of r cid) t" and "session_step (session_of r cid) t"
  shows "traced K (put_session cid t r)"
proof (rule tracedI [OF assms(1,3)])
  fix d assume d: "d \<in> K"
  have old: "sessions_ok K r" using assms(1) by (simp add: traced_def)
  have t: "phase_ok t" using assms(2,3) by (force simp: sessions_ok_def)
  show "session_step\<^sup>*\<^sup>* (session_of r d) (session_of (put_session cid t r) d)"
  proof (cases "d = cid")
    case False
    have "interferes (session_of r d) (snd t)"
      using confined_interferes [OF assms(4) t, of "r_objs r d"] old d assms(2) False
      by (simp add: sessions_ok_def session_of_def)
    from step_others [OF this] False show ?thesis by (simp add: session_put_other)
  qed (use assms(5) in auto)
qed

lemma traced_world:
  assumes "traced K r" and "sessions_ok K (r\<lparr>r_world := w\<rparr>)" and "w_next_sock (r_world r) \<le> w_next_sock w"
    and "w_wire w = w_wire (r_world r)"
  shows "traced K (r\<lparr>r_world := w\<rparr>)"
proof (rule tracedI [OF assms(1,2)])
  fix cid
  have "world_ok w" using assms(2) by (simp add: sessions_ok_def)
  with assms(3,4) have "interferes (session_of r cid) w" by (simp add: interferes_def)
  from step_others [OF this] show "session_step\<^sup>*\<^sup>* (session_of r cid) (session_of (r\<lparr>r_world := w\<rparr>) cid)"
    by (simp add: session_of_def)
qed

interpretation traces: reactor_contract traced
proof unfold_locales
  fix K J :: "cid set" and r r' :: reactor and cid ev io s client w addr op
  assume ok: "traced K r"
  then have sessions: "sessions_ok K r" by (simp add: traced_def)
  show "traced K r'" if "r_objs r' = r_objs r" "r_world r' = r_world r"
    using ok sessions.same [OF sessions that] that by (simp add: traced_def session_of_def)
  show "traced J r" if "J \<subseteq> K" using ok sessions.fewer [OF sessions that] that by (auto simp: traced_def)
  show "traced K (put_session cid s r)" if "cid \<in> K" "handle ev io (session_of r cid) = Some (Returned s)"
    using traced_put [OF ok that(1) sessions.handled [OF sessions that] _ step_returned [OF that(2)]]
      confined_handle [OF that(2)] by simp
  show "traced K (put_session cid (set_state DONE s) r)"
    if "cid \<in> K" "handle ev io (session_of r cid) = Some (Raised s)"
    using traced_put [OF ok that(1) sessions.raised [OF sessions that] _ step_raised [OF that(2)]]
      confined_trans [OF confined_handle [OF that(2)] confined_state] by simp
  show "traced K (put_session cid (set_state DONE (session_of r cid)) r)" if "cid \<in> K"
    by (rule traced_put [OF ok that sessions.ended [OF sessions that] confined_state step_ended])
  show "traced K (r\<lparr>r_objs := (r_objs r)(cid := (r_objs r cid)\<lparr>pending_backend_unregister := None\<rparr>)\<rparr>)" if "cid \<in> K"
  proof (rule tracedI [OF ok sessions.flushed [OF sessions that]])
    fix d
    let ?r = "r\<lparr>r_objs := (r_objs r)(cid := (r_objs r cid)\<lparr>pending_backend_unregister := None\<rparr>)\<rparr>"
    show "session_step\<^sup>*\<^sup>* (session_of r d) (session_of ?r d)"
      using step_flushed [of "session_of r cid"] by (cases "d = cid") (auto simp: session_of_def)
  qed
  show "traced K (r\<lparr>r_world := snd (monotonic (r_world r))\<rparr>)"
    by (rule traced_world [OF ok sessions.clock [OF sessions]]) (simp_all add: monotonic_def)
  show "traced K (r\<lparr>r_world := snd (new_socket (r_world r))\<rparr>)"
    by (rule traced_world [OF ok sessions.opened [OF sessions]]) (simp_all add: new_socket_def)
  show "traced K (r\<lparr>r_world := (r_world r)\<lparr>w_router := router_step (w_router (r_world r)) op\<rparr>\<rparr>)"
    if "op \<in> range Mark_healthy \<union> range Mark_unhealthy"
    by (rule traced_world [OF ok sessions.checked [OF sessions that]]) simp_all
  show "traced K (put_session cid (cleanup (session_of r cid)) r)" if "cid \<in> K"
  proof (rule traced_put [OF ok that sessions.cleaned [OF sessions that] confined_cleanup])
    have "phase_ok (session_of r cid)" using sessions that by (simp add: sessions_ok_def)
    from phase_world [OF this] have "interferes (session_of r cid) (snd (cleanup (session_of r cid)))"
        "fst (cleanup (session_of r cid)) = r_objs r cid"
      by (auto simp: session_of_def interferes_def close_socket_def world_ok_def Let_def split: option.splits)
    with step_others [of "session_of r cid" "snd (cleanup (session_of r cid))"]
    show "session_step (session_of r cid) (cleanup (session_of r cid))" by (metis prod.collapse session_parts(1))
  qed
  show "traced (insert cid K) (put_session cid (new_connection client addr w) r)"
    if new: "new_socket (r_world r) = (client, w)"
  proof -
    let ?t = "new_connection client addr w" let ?r = "put_session cid ?t r"
    have world: "world_ok (r_world r)" using sessions by (simp add: sessions_ok_def)
    note arrived = sessions.arrived [OF sessions new, of cid addr]
    have "\<exists>s. accepted s \<and> session_step\<^sup>*\<^sup>* s (session_of ?r d)" if "d \<in> insert cid K" for d
    proof (cases "d = cid")
      case True
      with arrived_accepted [OF world new, of addr] show ?thesis by auto
    next
      case False
      have "world_ok (snd ?t)" using arrived by (simp add: sessions_ok_def)
      with new have "interferes (session_of r d) (snd ?t)"
        by (auto simp: interferes_def new_connection_fields new_socket_def)
      from step_others [OF this] have "session_step (session_of r d) (session_of ?r d)"
        using False by (simp add: session_put_other)
      with ok that False show ?thesis unfolding traced_def by (meson insertE rtranclp.rtrancl_into_rtrancl)
    qed
    with arrived show ?thesis by (simp add: traced_def)
  qed
qed

section \<open>The router's books\<close>

definition books :: "cid set \<Rightarrow> reactor \<Rightarrow> bool" where
  "books K r \<longleftrightarrow> sessions_ok K r \<and> finite K \<and> is_lc (w_router (r_world r)) \<and>
     (\<forall>b. (\<Sum>cid \<in> K. held (r_objs r cid) b) \<le> router_load (w_router (r_world r)) b)"

lemma held_nonneg [simp]: "0 \<le> held c b"
  by (simp add: held_def)

text \<open>The slots a router charges beside those of one connection.\<close>

definition others :: "reactor \<Rightarrow> cid \<Rightarrow> backend \<Rightarrow> int" where
  "others r cid b = router_load (w_router (r_world r)) b - held (r_objs r cid) b"

lemma books_slots:
  assumes "books K r" and "cid \<in> K"
  shows "slots_ok (others r cid) (session_of r cid)"
proof -
  have "held (r_objs r cid) b \<le> (\<Sum>c \<in> K. held (r_objs r c) b)" for b
    using assms by (intro member_le_sum) (auto simp: books_def)
  moreover have "(\<Sum>c \<in> K. held (r_objs r c) b) \<le> router_load (w_router (r_world r)) b" for b
    using assms(1) by (simp add: books_def)
  ultimately have "held (r_objs r cid) b \<le> router_load (w_router (r_world r)) b" for b
    by (rule order_trans)
  with assms show ?thesis
    by (auto simp: slots_ok_def others_def books_def sessions_ok_def world_ok_def)
qed

lemma books_put:
  assumes "books K r" and "cid \<in> K" and "sessions_ok K (put_session cid t r)" and "slots_ok (others r cid) t"
  shows "books K (put_session cid t r)"
proof -
  have "(\<Sum>c \<in> K. held (((r_objs r)(cid := fst t)) c) b) =
      (\<Sum>c \<in> K. held (r_objs r c) b) - held (r_objs r cid) b + held (fst t) b" for b
    using assms(1,2) by (simp add: books_def sum.remove [of K cid])
  with assms show ?thesis by (auto simp: books_def slots_ok_def others_def)
qed

lemma books_same:
  assumes "books K r" and "sessions_ok K r'" and "is_lc (w_router (r_world r'))"
    and "\<And>cid b. cid \<in> K \<Longrightarrow> held (r_objs r' cid) b = held (r_objs r cid) b"
    and "router_load (w_router (r_world r')) = router_load (w_router (r_world r))"
  shows "books K r'"
  using assms by (simp add: books_def cong: sum.cong)

lemma load_mark:
  "op \<in> range Mark_healthy \<union> range Mark_unhealthy \<Longrightarrow> router_load (router_step rt op) = router_load rt \<and>
    is_lc (router_step rt op) = is_lc rt"
  by (cases rt) (auto simp: fun_eq_iff)

interpretation books: reactor_contract books
proof unfold_locales
  fix K J :: "cid set" and r r' :: reactor and cid ev io s client w addr op
  assume ok: "books K r"
  then have sessions: "sessions_ok K r" and lc: "is_lc (w_router (r_world r))" by (simp_all add: books_def)
  show "books K r'" if "r_objs r' = r_objs r" "r_world r' = r_world r"
    by (rule books_same [OF ok sessions.same [OF sessions that]]) (simp_all add: lc that)
  show "books J r" if "J \<subseteq> K"
  proof -
    have "(\<Sum>cid \<in> J. held (r_objs r cid) b) \<le> (\<Sum>cid \<in> K. held (r_objs r cid) b)" for b
      using ok that by (intro sum_mono2) (auto simp: books_def)
    from order_trans [OF this] ok that sessions.fewer [OF sessions that] show ?thesis
      by (auto simp: books_def intro: finite_subset)
  qed
  have phase: "phase_ok (session_of r cid)" if "cid \<in> K" using sessions that by (simp add: sessions_ok_def)
  show "books K (put_session cid s r)" if "cid \<in> K" "handle ev io (session_of r cid) = Some (Returned s)"
    using books_put [OF ok that(1) sessions.handled [OF sessions that]]
      slots_handle [OF phase [OF that(1)] books_slots [OF ok that(1)] that(2)] by simp
  have ended: "slots_ok f (set_state DONE x)" if "slots_ok f x" for f x
    using that by (rule slots_same) simp_all
  show "books K (put_session cid (set_state DONE s) r)"
    if "cid \<in> K" "handle ev io (session_of r cid) = Some (Raised s)"
    using books_put [OF ok that(1) sessions.raised [OF sessions that]] ended
      slots_handle [OF phase [OF that(1)] books_slots [OF ok that(1)] that(2)] by simp
  show "books K (put_session cid (set_state DONE (session_of r cid)) r)" if "cid \<in> K"
    by (rule books_put [OF ok that sessions.ended [OF sessions that] ended [OF books_slots [OF ok that]]])
  show "books K (r\<lparr>r_objs := (r_objs r)(cid := (r_objs r cid)\<lparr>pending_backend_unregister := None\<rparr>)\<rparr>)" if "cid \<in> K"
    by (rule books_same [OF ok sessions.flushed [OF sessions that]]) (simp_all add: lc held_def)
  show "books K (r\<lparr>r_world := snd (monotonic (r_world r))\<rparr>)"
    by (rule books_same [OF ok sessions.clock [OF sessions]]) (use lc in \<open>simp_all add: monotonic_def\<close>)
  show "books K (r\<lparr>r_world := snd (new_socket (r_world r))\<rparr>)"
    by (rule books_same [OF ok sessions.opened [OF sessions]]) (use lc in \<open>simp_all add: new_socket_def\<close>)
  show "books (insert cid K) (put_session cid (new_connection client addr w) r)"
    if "new_socket (r_world r) = (client, w)"
  proof -
    let ?t = "new_connection client addr w"
    have t: "backend_addr (fst ?t) = None" "w_router (snd ?t) = w_router (r_world r)"
      using that by (auto simp: new_connection_fields new_socket_def)
    have "(\<Sum>c \<in> insert cid K. held (((r_objs r)(cid := fst ?t)) c) b) \<le> (\<Sum>c \<in> K. held (r_objs r c) b)" for b
    proof -
      have "(\<Sum>c \<in> insert cid K. held (((r_objs r)(cid := fst ?t)) c) b) = (\<Sum>c \<in> K - {cid}. held (r_objs r c) b)"
        using ok t by (simp add: books_def sum.insert_remove held_def)
      also have "\<dots> \<le> (\<Sum>c \<in> K. held (r_objs r c) b)"
        using ok by (intro sum_mono2) (auto simp: books_def)
      finally show ?thesis .
    qed
    from order_trans [OF this] ok lc t sessions.arrived [OF sessions that] show ?thesis
      by (auto simp: books_def)
  qed
  show "books K (put_session cid (cleanup (session_of r cid)) r)" if "cid \<in> K"
  proof (rule books_put [OF ok that sessions.cleaned [OF sessions that]])
    show "slots_ok (others r cid) (cleanup (session_of r cid))"
      using books_slots [OF ok that] by (rule slots_same) (auto simp: session_of_def close_socket_def Let_def split: option.splits)
  qed
  show "books K (r\<lparr>r_world := (r_world r)\<lparr>w_router := router_step (w_router (r_world r)) op\<rparr>\<rparr>)"
    if "op \<in> range Mark_healthy \<union> range Mark_unhealthy"
    by (rule books_same [OF ok sessions.checked [OF sessions that]]) (use lc load_mark [OF that] in simp_all)
qed

section \<open>The start\<close>

lemma sessions_initial: "router_ok rt \<Longrightarrow> sessions_ok {} (initial_reactor rt clock fd)"
  by (simp add: sessions_ok_def initial_reactor_def world_ok_def)

lemma traced_initial: "router_ok rt \<Longrightarrow> traced {} (initial_reactor rt clock fd)"
  using sessions_initial by (simp add: traced_def)

lemma books_initial: "router_ok rt \<Longrightarrow> is_lc rt \<Longrightarrow> books {} (initial_reactor rt clock fd)"
  using router_load_nonneg [of rt] sessions_initial [of rt clock fd] by (simp add: books_def initial_reactor_def)

end
