(* ===== verification/ReactorTimers.thy ===== *)
theory ReactorTimers
  imports ReactorSessions
begin

text \<open>
  The deadline heap. Every connection of the table that is not done has an entry with its current
  deadline and generation, whatever stale entries lie around; so the wait never passes a deadline,
  and a round leaves no connection overdue.
\<close>

section \<open>The invariant\<close>

definition timed :: "reactor \<Rightarrow> cid \<Rightarrow> bool" where
  "timed r cid \<longleftrightarrow> state (r_objs r cid) = DONE \<or>
     (cid \<in> r_conn_by_id r \<and>
      (deadline (r_objs r cid), deadline_gen (r_objs r cid), cid) \<in> set (r_deadlines r))"

definition timers_but :: "cid set \<Rightarrow> reactor \<Rightarrow> bool" where
  "timers_but X r \<longleftrightarrow> is_heap (r_deadlines r) \<and> finite (r_conn_by_id r) \<and>
     distinct (map fst (r_connections r)) \<and> distinct (map snd (r_connections r)) \<and>
     (\<forall>cid \<in> snd ` set (r_connections r) - X. timed r cid)"

abbreviation timers_ok :: "reactor \<Rightarrow> bool" where
  "timers_ok \<equiv> timers_but {}"

lemma timers_initial: "timers_ok (initial_reactor rt clock fd)"
  by (simp add: timers_but_def initial_reactor_def is_heap_def)

lemma timersD:
  assumes "timers_ok r" and "(fd, cid) \<in> set (r_connections r)"
  shows "timed r cid"
  using assms by (force simp: timers_but_def)

text \<open>Only the selector and the world change, or objects that are not in the table.\<close>

lemma timers_same:
  assumes "timers_but X r" and "r_deadlines r' = r_deadlines r" and "r_conn_by_id r' = r_conn_by_id r"
    and "r_connections r' = r_connections r"
    and "\<And>cid. cid \<in> snd ` set (r_connections r) - Y \<Longrightarrow>
      r_objs r' cid = r_objs r cid \<or> state (r_objs r' cid) = DONE" and "X \<subseteq> Y"
  shows "timers_but Y r'"
  using assms unfolding timers_but_def timed_def by (metis (no_types, lifting) DiffD1 DiffD2 DiffI subsetD)

section \<open>Dispatch\<close>

text \<open>What happens to a connection between two schedulings of its deadline.\<close>

definition touches :: "cid \<Rightarrow> reactor \<Rightarrow> reactor \<Rightarrow> bool" where
  "touches cid r r' \<longleftrightarrow> r_connections r' = r_connections r \<and> r_conn_by_id r' = r_conn_by_id r \<and>
     r_deadlines r' = r_deadlines r \<and> r_running r' = r_running r \<and> r_fd r' = r_fd r \<and> (\<forall>d. d \<noteq> cid \<longrightarrow> r_objs r' d = r_objs r d)"

lemma touches_refl [simp]: "touches cid r r"
  by (simp add: touches_def)

lemma touches_trans: "touches cid r s \<Longrightarrow> touches cid s t \<Longrightarrow> touches cid r t"
  by (simp add: touches_def)

lemma touches_calm: "calm cid r r' \<Longrightarrow> touches cid r r'"
  by (auto simp: calm_def touches_def)

lemma touches_put: "touches cid r (put_session cid s r)"
  by (simp add: touches_def put_session_def)

lemma touches_run: "run_handler ev io cid r = Some res \<Longrightarrow> touches cid r (final res)"
  by (auto simp: run_handler_def touches_put split: option.splits outcome.splits
      intro: touches_trans [OF touches_put touches_calm [OF calm_transition]])

lemma touches_when:
  assumes "pred_option (\<lambda>x. touches cid r (final x)) x"
  shows "pred_option (\<lambda>x. touches cid r (final x)) (and_when b (run_handler ev io cid) x)"
proof (cases "(b, run_handler ev io cid, x)" rule: and_when.cases)
  case (1 f s)
  with assms touches_run [of ev io cid s] show ?thesis
    by (cases "run_handler ev io cid s") (auto intro: touches_trans)
qed (use assms in auto)

lemma dispatch_touches:
  assumes "dispatch_guarded ios cid s ev_mask r = Some r'"
  obtains t where "touches cid r t" "r' = schedule_deadline cid t"
  | "touches cid r r'" "state (r_objs r' cid) = DONE"
proof -
  define x where "x = and_when (Some s = backend_sock (r_objs r cid) \<and> ev_mask AND EVENT_WRITE \<noteq> 0)
      (run_handler Backend_writable (ios Backend_writable) cid)
    (and_when (Some s = backend_sock (r_objs r cid) \<and> ev_mask AND EVENT_READ \<noteq> 0)
      (run_handler Backend_readable (ios Backend_readable) cid)
    (and_when (s = client_sock (r_objs r cid) \<and> ev_mask AND EVENT_WRITE \<noteq> 0)
      (run_handler Client_writable (ios Client_writable) cid)
    (and_when (s = client_sock (r_objs r cid) \<and> ev_mask AND EVENT_READ \<noteq> 0)
      (run_handler Client_readable (ios Client_readable) cid) (Some (Returned r)))))"
  have x: "pred_option (\<lambda>x. touches cid r (final x)) x"
    unfolding x_def by (intro touches_when) simp
  have d: "dispatch ios cid s ev_mask r = and_when True
      (\<lambda>r. Some (and_then (flush_pending_unregister cid r) (\<lambda>r. Returned (schedule_deadline cid r)))) x"
    by (simp add: dispatch_def Let_def x_def)
  show thesis
  proof (cases x)
    case (Some y)
    show thesis
    proof (cases y)
      case (Returned t)
      with x Some have t: "touches cid r t" by simp
      have fl: "touches cid r (final (flush_pending_unregister cid t))"
        by (rule touches_trans [OF t touches_calm [OF calm_flush]])
      show thesis
      proof (cases "flush_pending_unregister cid t")
        case (Returned u)
        with fl have "touches cid r u" by simp
        moreover have "r' = schedule_deadline cid u"
          using assms Some \<open>y = Returned t\<close> Returned by (simp add: dispatch_guarded_def d)
        ultimately show thesis by (rule that(1))
      next
        case (Raised u)
        with assms Some \<open>y = Returned t\<close>
        have "r' = put_session cid (set_state DONE (session_of u cid)) u" by (simp add: dispatch_guarded_def d)
        with fl Raised touches_trans [OF _ touches_put] show thesis by (intro that(2)) auto
      qed
    next
      case (Raised u)
      with assms Some have "r' = put_session cid (set_state DONE (session_of u cid)) u"
        by (simp add: dispatch_guarded_def d)
      with x Some Raised touches_trans [OF _ touches_put] show thesis by (intro that(2)) auto
    qed
  qed (use assms in \<open>simp add: dispatch_guarded_def d\<close>)
qed

lemma timers_schedule:
  assumes "timers_but {cid} r"
  shows "timers_ok (schedule_deadline cid r)"
proof (cases "state (r_objs r cid) = DONE")
  case True
  with assms show ?thesis by (auto simp: timers_but_def schedule_deadline_def timed_def)
next
  case False
  with assms heappush_heap show ?thesis
    by (auto simp: timers_but_def schedule_deadline_def Let_def timed_def)
qed

lemma timers_dispatch:
  assumes "timers_ok r" and "dispatch_guarded ios cid s ev_mask r = Some r'"
  shows "timers_ok r'"
  using assms(2)
proof (cases rule: dispatch_touches)
  case (1 t)
  then have "timers_but {cid} t" using assms(1)
    by (intro timers_same [of "{}" r t]) (auto simp: touches_def)
  with 1 timers_schedule show ?thesis by simp
next
  case 2
  then show ?thesis using assms(1) by (intro timers_same [of "{}" r r']) (auto simp: touches_def)
qed

section \<open>Accepting\<close>

lemma new_identity_fresh:
  assumes "finite (references r)"
  shows "new_identity hint r \<notin> references r"
proof -
  have "x \<le> Max (references r)" if "x \<in> references r" for x using assms that by simp
  from this [of "Suc (Max (references r))"] show ?thesis by (auto simp: new_identity_def)
qed

lemma finite_key_refs [simp]: "finite (key_refs sel)"
  by (simp add: key_refs_code)

lemma distinct_snd_update:
  "distinct (map snd xs) \<Longrightarrow> v \<notin> snd ` set xs \<Longrightarrow> distinct (map snd (AList.update k v xs))"
proof (induction xs)
  case (Cons x xs)
  with set_map_snd_update [of k v xs] show ?case by (cases x) (auto simp: image_iff)
qed simp

lemma timers_accept_one:
  assumes "timers_ok r"
  shows "timers_ok (final (accept_one a r))"
proof -
  obtain addr hint where a: "a = (addr, hint)" by (cases a)
  define cid where "cid = new_identity hint r"
  obtain client w where s: "new_socket (r_world r) = (client, w)" by fastforce
  define r1 where "r1 = put_session cid (new_connection client addr w) r"
  define res where "res = sel_register (r_sockets r1) client EVENT_READ (Conn cid) (r_selector r1)"
  define r2 where "r2 = set_selector (outcome_of res) r1"
  have "finite (references r)" using assms by (simp add: references_def timers_but_def)
  from new_identity_fresh [OF this] have new: "cid \<notin> snd ` set (r_connections r)"
    by (simp add: cid_def references_def)
  have tables: "r_deadlines r2 = r_deadlines r" "r_conn_by_id r2 = r_conn_by_id r" "r_connections r2 = r_connections r"
    "d \<noteq> cid \<Longrightarrow> r_objs r2 d = r_objs r d" for d
    by (simp_all add: r2_def r1_def set_selector_def put_session_def)
  have 2: "timers_ok r2"
    by (rule timers_same [OF assms tables(1-3)]) (use new tables(4) in \<open>metis DiffD1, simp\<close>)
  have "timers_but {cid} (r2\<lparr>r_connections := AList.update fd cid (r_connections r2)\<rparr>)" for fd
  proof -
    have same: "timed (r2\<lparr>r_connections := c\<rparr>) d = timed r2 d" for c d by (simp add: timed_def)
    have "snd ` set (AList.update fd cid (r_connections r)) - {cid} \<subseteq> snd ` set (r_connections r)"
      using set_map_snd_update [of fd cid "r_connections r"] by blast
    moreover have "\<forall>d \<in> snd ` set (r_connections r). timed r2 d" using 2 by (simp add: timers_but_def tables)
    ultimately have "\<forall>d \<in> snd ` set (AList.update fd cid (r_connections r)) - {cid}. timed r2 d" by blast
    then show ?thesis
      using 2 new AList.distinct_update [of "r_connections r" fd cid] distinct_snd_update [of "r_connections r" cid fd]
      unfolding timers_but_def same by (simp add: tables(1-3))
  qed
  from timers_schedule [OF this] 2 s show ?thesis
    by (cases res) (simp_all add: a accept_one_def Let_def cid_def [symmetric] r1_def [symmetric]
        case_prod_unfold res_def [symmetric] r2_def)
qed

lemma timers_accept_all: "timers_ok r \<Longrightarrow> timers_ok (final (accept_all as r))"
proof (induction as arbitrary: r)
  case (Cons a as)
  from Cons.IH timers_accept_one [OF Cons.prems, of a] show ?case
    by (cases "accept_one a r") auto
qed simp

section \<open>Expiry\<close>

lemma timeout_done [simp]: "state (fst (handle_timeout io s)) = DONE"
  by (simp add: handle_timeout_def)

lemma timers_popped:
  assumes "timers_ok r" and "heappop (r_deadlines r) = Some (e, h)" and "stale_entry r e"
  shows "timers_ok (r\<lparr>r_deadlines := h\<rparr>)"
proof -
  have "timed (r\<lparr>r_deadlines := h\<rparr>) cid" if "timed r cid" for cid
    using that assms(3) set_heappop [OF assms(2)] by (auto simp: timed_def stale_entry_def)
  then show ?thesis using assms(1) heappop_heap [OF _ assms(2)] by (auto simp: timers_but_def)
qed

lemma timers_expired:
  assumes "timers_ok r" and "heappop (r_deadlines r) = Some ((d, gen, cid), h)" and "state (fst s) = DONE"
  shows "timers_ok (put_session cid s (r\<lparr>r_deadlines := h\<rparr>))"
proof -
  have "timed (put_session cid s (r\<lparr>r_deadlines := h\<rparr>)) x" if "timed r x" for x
    using that assms(3) set_heappop [OF assms(2)]
    by (cases "x = cid") (auto simp: timed_def put_session_def)
  then show ?thesis using assms(1) heappop_heap [OF _ assms(2)] by (auto simp: timers_but_def put_session_def)
qed

text \<open>What expiry does to the table and its objects.\<close>

definition only_ends :: "reactor \<Rightarrow> reactor \<Rightarrow> bool" where
  "only_ends r r' \<longleftrightarrow> r_connections r' = r_connections r \<and> w_clock (r_world r') = w_clock (r_world r) \<and>
     w_reads (r_world r) \<le> w_reads (r_world r') \<and> w_closed (r_world r) \<subseteq> w_closed (r_world r') \<and>
     (\<forall>cid. r_objs r' cid = r_objs r cid \<or> state (r_objs r' cid) = DONE) \<and>
     (\<forall>cid. owns (r_objs r' cid) = owns (r_objs r cid))"

lemma only_ends_refl [simp]: "only_ends r r"
  by (simp add: only_ends_def)

lemma only_ends_trans: "only_ends r s \<Longrightarrow> only_ends s t \<Longrightarrow> only_ends r t"
  unfolding only_ends_def by (metis order_trans)

lemma timeout_closed: "w_closed (snd (handle_timeout io s)) = w_closed (snd s)"
proof -
  have "w_closed (snd (notify_disconnect t)) = w_closed (snd t)" "w_closed (snd (log_request t)) = w_closed (snd t)"
    "w_closed (snd (send_page io page t)) = w_closed (snd t)" for t page
    by (cases t; simp add: router_release_def monotonic_def access_log_def transmit_def split: option.splits)+
  then show ?thesis by (simp add: handle_timeout_def send_error_def finish_def)
qed

lemma timeout_owns: "owns (fst (handle_timeout io s)) = owns (fst s)"
proof -
  have "owns (fst (notify_disconnect t)) = owns (fst t)" "owns (fst (send_page io page t)) = owns (fst t)" for t page
    by (cases t; simp add: owns_def split: option.splits)+
  moreover have "owns (c\<lparr>state := st\<rparr>) = owns c" "owns (c\<lparr>response_status := x\<rparr>) = owns c" for c st x
    by (simp_all add: owns_def)
  ultimately show ?thesis by (simp add: handle_timeout_def send_error_def finish_def)
qed

lemma only_ends_timeout:
  "only_ends r (put_session cid (handle_timeout io (session_of r cid)) (r\<lparr>r_deadlines := h\<rparr>))"
  using confined_timeout [of "session_of r cid" io] timeout_closed [of io "session_of r cid"]
    timeout_owns [of io "session_of r cid"]
  by (auto simp: only_ends_def confined_def put_session_def)

lemma stale_deadlines [simp]: "stale_entry (r\<lparr>r_deadlines := h\<rparr>) e = stale_entry r e"
  by (simp add: stale_entry_def)

lemma session_deadlines [simp]: "session_of (r\<lparr>r_deadlines := h\<rparr>) cid = session_of r cid"
  by (simp add: session_of_def)

text \<open>No connection that is left is overdue.\<close>

definition in_time :: "real \<Rightarrow> reactor \<Rightarrow> bool" where
  "in_time now r \<longleftrightarrow> (\<forall>cid \<in> snd ` set (r_connections r).
     state (r_objs r cid) = DONE \<or> now < deadline (r_objs r cid))"

lemma heap_top_in_time:
  assumes "timers_ok r" and "heappop (r_deadlines r) = Some ((d, gen, cid), h)" and "now < d"
  shows "in_time now r"
  unfolding in_time_def
proof
  fix x assume "x \<in> snd ` set (r_connections r)"
  with assms(1) have "timed r x" by (auto simp: timers_but_def)
  moreover have "d \<le> deadline (r_objs r x)"
    if "(deadline (r_objs r x), deadline_gen (r_objs r x), x) \<in> set (r_deadlines r)"
    using heappop_least [OF _ assms(2) that] assms(1) by (auto simp: timers_but_def less_eq_prod_def)
  ultimately show "state (r_objs r x) = DONE \<or> now < deadline (r_objs r x)"
    using assms(3) by (force simp: timed_def)
qed

lemma expire_loop_spec:
  assumes "timers_ok r" and "length (r_deadlines r) \<le> n"
  shows "timers_ok (expire_loop ios now n r) \<and> in_time now (expire_loop ios now n r) \<and>
    only_ends r (expire_loop ios now n r)"
  using assms
proof (induction n arbitrary: r)
  case 0
  then show ?case by (auto simp: in_time_def timers_but_def timed_def)
next
  case (Suc n)
  show ?case
  proof (cases "heappop (r_deadlines r)")
    case None
    with Suc.prems show ?thesis by (auto simp: in_time_def timers_but_def timed_def)
  next
    case (Some x)
    obtain d gen cid h where x: "x = ((d, gen, cid), h)" by (cases x) auto
    note pop = Some [unfolded x]
    have len: "length h \<le> n" using heappop_length [OF pop] Suc.prems(2) by simp
    let ?r = "r\<lparr>r_deadlines := h\<rparr>"
    consider "now < d" | "\<not> now < d" "stale_entry r (d, gen, cid)" | "\<not> now < d" "\<not> stale_entry r (d, gen, cid)"
      by blast
    then show ?thesis
    proof cases
      case 1
      with pop heap_top_in_time [OF Suc.prems(1) pop 1] Suc.prems(1) show ?thesis by simp
    next
      case 2
      have "only_ends r ?r" by (simp add: only_ends_def)
      with pop 2 Suc.IH [OF timers_popped [OF Suc.prems(1) pop 2(2)]] len show ?thesis
        by (auto simp: Let_def intro: only_ends_trans)
    next
      case 3
      let ?t = "put_session cid (handle_timeout (ios cid) (session_of r cid)) ?r"
      have "timers_ok ?t" by (rule timers_expired [OF Suc.prems(1) pop]) simp
      moreover have "length (r_deadlines ?t) \<le> n" using len by (simp add: put_session_def)
      ultimately show ?thesis
        using Suc.IH [of ?t] pop 3 only_ends_trans [OF only_ends_timeout [of r cid "ios cid" h]]
        by (simp add: Let_def)
    qed
  qed
qed

lemma expire_spec:
  assumes "timers_ok r"
  shows "timers_ok (expire_timeouts ios r) \<and>
    in_time (w_clock (r_world r) (w_reads (r_world r))) (expire_timeouts ios r) \<and>
    only_ends r (expire_timeouts ios r) \<and> w_reads (r_world r) < w_reads (r_world (expire_timeouts ios r))"
proof -
  let ?r = "r\<lparr>r_world := snd (monotonic (r_world r))\<rparr>"
  have "timers_ok ?r" using assms by (rule timers_same) auto
  from expire_loop_spec [OF this, of "length (r_deadlines r)"] have
    e: "timers_ok (expire_timeouts ios r)" "in_time (w_clock (r_world r) (w_reads (r_world r))) (expire_timeouts ios r)"
      "only_ends ?r (expire_timeouts ios r)"
    by (simp_all add: expire_timeouts_def Let_def monotonic_def)
  have "only_ends r ?r" "w_reads (r_world ?r) = Suc (w_reads (r_world r))"
    by (simp_all add: only_ends_def monotonic_def)
  with e show ?thesis by (auto intro: only_ends_trans) (auto simp: only_ends_def)
qed

section \<open>Waiting\<close>

lemma drop_stale_spec:
  "is_heap h \<Longrightarrow> is_heap (drop_stale r h) \<and> (\<forall>e \<in> set h. stale_entry r e \<or> e \<in> set (drop_stale r h)) \<and>
     (\<forall>e h'. drop_stale r h = e # h' \<longrightarrow> \<not> stale_entry r e)"
proof (induction r h rule: drop_stale.induct)
  case (1 r h)
  show ?case
  proof (cases h)
    case (Cons e es)
    show ?thesis
    proof (cases "stale_entry r e")
      case True
      obtain x h' where pop: "heappop h = Some (x, h')" using Cons by (cases "heappop h") auto
      then have "x = e" using heappop_hd [OF pop] Cons by simp
      with 1(1) [OF Cons True pop refl] heappop_heap [OF 1(2) pop] set_heappop [OF pop] True pop Cons
      show ?thesis by (subst (1 2 3) drop_stale.simps) auto
    qed (use 1(2) Cons in \<open>subst (1 2 3) drop_stale.simps, simp\<close>)
  qed (use 1(2) in \<open>subst (1 2 3) drop_stale.simps, simp\<close>)
qed

declare drop_stale.simps [simp del]

lemma timers_select:
  assumes "timers_ok r"
  shows "timers_ok (snd (select_timeout r))"
proof -
  let ?h = "drop_stale r (r_deadlines r)"
  note spec = drop_stale_spec [of "r_deadlines r" r]
  have "timed (r\<lparr>r_world := w, r_deadlines := ?h\<rparr>) cid" if "timed r cid" for cid w
    using that assms spec by (auto simp: timed_def timers_but_def stale_entry_def)
  then have "timers_ok (r\<lparr>r_world := w, r_deadlines := ?h\<rparr>)" for w
    using assms spec by (simp add: timers_but_def)
  then show ?thesis by (auto simp: select_timeout_def Let_def case_prod_unfold split: list.splits)
qed

lemma select_wait:
  assumes "timers_ok r" and "cid \<in> snd ` set (r_connections r)" and "state (r_objs r cid) \<noteq> DONE"
  shows "fst (select_timeout r) \<le> max 0 (deadline (r_objs r cid) - w_clock (r_world r) (w_reads (r_world r)))"
proof -
  let ?h = "drop_stale r (r_deadlines r)" let ?e = "(deadline (r_objs r cid), deadline_gen (r_objs r cid), cid)"
  have "timed r cid" using assms(1,2) by (auto simp: timers_but_def)
  with assms(3) have e: "?e \<in> set (r_deadlines r)" "\<not> stale_entry r ?e" by (auto simp: timed_def stale_entry_def)
  note spec = drop_stale_spec [of "r_deadlines r" r]
  from e spec assms(1) have mem: "?e \<in> set ?h" and heap: "is_heap ?h" by (auto simp: timers_but_def)
  then obtain d gen c h' where h: "?h = (d, gen, c) # h'" by (cases ?h) auto
  from mem obtain i where i: "i < length ?h" "?h ! i = ?e" by (auto simp: in_set_conv_nth)
  from heap_root [OF heap i(1)] have "(d, gen, c) \<le> ?e" by (simp add: h i(2) [unfolded h])
  then have "d \<le> deadline (r_objs r cid)" by (auto simp: less_eq_prod_def)
  then show ?thesis
    using h by (simp add: select_timeout_def monotonic_def Let_def)
qed

lemma select_bounds: "0 \<le> fst (select_timeout r) \<and> fst (select_timeout r) \<le> 1"
  by (auto simp: select_timeout_def Let_def case_prod_unfold split: list.splits)

section \<open>Reaping\<close>

lemma forget_fields [simp]:
  "r_connections (forget_socket s r) = r_connections r" "r_conn_by_id (forget_socket s r) = r_conn_by_id r"
  "r_deadlines (forget_socket s r) = r_deadlines r" "r_objs (forget_socket s r) = r_objs r"
  "r_world (forget_socket s r) = r_world r"
  by (simp_all add: forget_socket_def set_selector_def)

lemma cleanup_fields:
  "fst (cleanup s) = fst s" "w_clock (snd (cleanup s)) = w_clock (snd s)" "w_reads (snd (cleanup s)) = w_reads (snd s)"
  "w_closed (snd (cleanup s)) = w_closed (snd s) \<union> owns (fst s)"
  by (cases s; auto simp: close_socket_def Let_def owns_def split: option.splits)+

lemma reap_one_spec:
  assumes "map_of (r_connections r) fd = Some cid"
  shows "r_connections (reap_one fd r) = AList.delete fd (r_connections r)"
    "r_objs (reap_one fd r) = r_objs r" "r_deadlines (reap_one fd r) = r_deadlines r"
    "r_conn_by_id (reap_one fd r) = r_conn_by_id r - {cid}"
    "w_clock (r_world (reap_one fd r)) = w_clock (r_world r)"
    "w_reads (r_world (reap_one fd r)) = w_reads (r_world r)"
    "w_closed (r_world (reap_one fd r)) = w_closed (r_world r) \<union> owns (r_objs r cid)"
  using assms
  by (simp_all add: reap_one_def Let_def put_session_def session_of_def cleanup_fields
      del: cleanup.simps split: option.split)

definition reaped :: "int set \<Rightarrow> reactor \<Rightarrow> reactor \<Rightarrow> bool" where
  "reaped fds r r' \<longleftrightarrow>
     r_connections r' = filter (\<lambda>(fd, cid). fd \<notin> fds) (r_connections r) \<and>
     r_objs r' = r_objs r \<and> r_deadlines r' = r_deadlines r \<and>
     r_conn_by_id r' = r_conn_by_id r - {cid. \<exists>fd \<in> fds. map_of (r_connections r) fd = Some cid} \<and>
     w_clock (r_world r') = w_clock (r_world r) \<and> w_reads (r_world r') = w_reads (r_world r) \<and>
     w_closed (r_world r') = w_closed (r_world r) \<union>
       (\<Union>fd \<in> fds. \<Union>cid \<in> set_option (map_of (r_connections r) fd). owns (r_objs r cid))"

lemma reap_fds:
  assumes "distinct fds" and "set fds \<subseteq> fst ` set (r_connections r)"
  shows "reaped (set fds) r (foldl (\<lambda>r fd. reap_one fd r) r fds)"
  using assms
proof (induction fds arbitrary: r)
  case Nil
  then show ?case by (simp add: reaped_def)
next
  case (Cons fd fds)
  obtain cid where cid: "map_of (r_connections r) fd = Some cid"
    using Cons.prems(2) by (cases "map_of (r_connections r) fd") (auto simp: map_of_eq_None_iff)
  let ?r = "reap_one fd r"
  note one = reap_one_spec [OF cid]
  have "fst ` set (r_connections ?r) = fst ` set (r_connections r) - {fd}"
    unfolding one by (metis AList.delete_keys list.set_map set_removeAll)
  then have "set fds \<subseteq> fst ` set (r_connections ?r)" using Cons.prems by auto
  then have r: "reaped (set fds) ?r (foldl (\<lambda>r fd. reap_one fd r) ?r fds)" by (intro Cons.IH) (use Cons.prems in simp_all)
  have same: "map_of (r_connections ?r) x = map_of (r_connections r) x" if "x \<in> set fds" for x
    using Cons.prems(1) that by (auto simp: one AList.delete_conv')
  have "filter (\<lambda>(x, cid). x \<notin> set fds) (r_connections ?r) = filter (\<lambda>(x, cid). x \<notin> set (fd # fds)) (r_connections r)"
    by (auto simp: one AList.delete_eq case_prod_unfold intro!: filter_cong)
  with r cid same show ?case by (auto simp: reaped_def one)
qed

lemma dead_iff:
  assumes "distinct (map fst (r_connections r))"
  shows "fd \<in> set (dead_fds r) \<longleftrightarrow> (\<exists>cid. map_of (r_connections r) fd = Some cid \<and> state (r_objs r cid) = DONE)"
  using assms by (force simp: dead_fds_def)

lemma reap_spec:
  assumes "distinct (map fst (r_connections r))"
  shows "reaped (set (dead_fds r)) r (reap r)"
    and "r_connections (reap r) = filter (\<lambda>(fd, cid). state (r_objs r cid) \<noteq> DONE) (r_connections r)"
proof -
  have "distinct (dead_fds r)" using assms by (simp add: dead_fds_def distinct_map_filter)
  moreover have "set (dead_fds r) \<subseteq> fst ` set (r_connections r)" by (auto simp: dead_fds_def)
  ultimately show r: "reaped (set (dead_fds r)) r (reap r)" unfolding reap_def by (rule reap_fds)
  have "fd \<in> set (dead_fds r) \<longleftrightarrow> state (r_objs r cid) = DONE" if "(fd, cid) \<in> set (r_connections r)" for fd cid
    using that assms by (simp add: dead_iff)
  with r show "r_connections (reap r) = filter (\<lambda>(fd, cid). state (r_objs r cid) \<noteq> DONE) (r_connections r)"
    by (auto simp: reaped_def intro!: filter_cong)
qed

lemma timers_reap:
  assumes "timers_ok r"
  shows "timers_ok (reap r)"
proof -
  have d: "distinct (map fst (r_connections r))" "distinct (map snd (r_connections r))"
    using assms by (simp_all add: timers_but_def)
  note spec = reap_spec [OF d(1)]
  have "timed (reap r) cid" if "(fd, cid) \<in> set (r_connections (reap r))" for fd cid
  proof -
    from that have c: "(fd, cid) \<in> set (r_connections r)" "state (r_objs r cid) \<noteq> DONE"
      by (auto simp: spec(2))
    then have "\<not> (\<exists>fd \<in> set (dead_fds r). map_of (r_connections r) fd = Some cid)"
      by (auto simp: dead_iff [OF d(1)])
    with timersD [OF assms c(1)] c(2) spec(1) show ?thesis by (auto simp: reaped_def timed_def)
  qed
  moreover have "distinct (map fst (r_connections (reap r)))" "distinct (map snd (r_connections (reap r)))"
    using d by (simp_all add: spec(2) distinct_map_filter)
  ultimately show ?thesis using assms spec(1) by (auto simp: timers_but_def reaped_def)
qed

section \<open>Rounds\<close>

lemma timers_marks: "timers_ok r \<Longrightarrow> timers_ok (set_marks vs r)"
  by (simp add: timers_but_def timed_def)

lemma timers_local: "timers_ok r \<Longrightarrow> timers_ok (r\<lparr>r_conn := oc\<rparr>)" "timers_ok r \<Longrightarrow> timers_ok (r\<lparr>r_events := cs\<rparr>)"
  by (simp_all add: timers_but_def timed_def)

lemma timers_events:
  "timers_ok r \<Longrightarrow> handle_events rio i evs r = Some res \<Longrightarrow> timers_ok (final res)"
proof (induction rio i evs r rule: handle_events.induct)
  case (1 rio i r)
  then show ?case using timers_marks by auto
next
  case (2 rio i key ev_mask events r)
  let ?r = "set_marks (marks_before rio i) r"
  note r = timers_marks [OF 2(3), of "marks_before rio i"]
  show ?case
  proof (cases "key_data key")
    case Accept
    have a: "timers_ok (final (accept_all (io_accepts rio i) ?r))" by (rule timers_accept_all [OF r])
    show ?thesis
    proof (cases "accept_all (io_accepts rio i) ?r")
      case (Returned t)
      show ?thesis
        by (rule 2(1) [OF refl Accept Returned]) (use a 2(4) Accept Returned in simp_all)
    next
      case (Raised t)
      with 2(4) Accept have "res = Raised t" by simp
      with a Raised show ?thesis by simp
    qed
  next
    case (Conn cid)
    with 2(4) obtain t where t:
      "dispatch_guarded (io_handlers rio i) cid (key_fileobj key) ev_mask (?r\<lparr>r_conn := Some cid\<rparr>) = Some t"
      by (auto simp: Let_def split: option.splits)
    show ?thesis
      by (rule 2(2) [OF refl Conn t timers_dispatch [OF timers_local(1) [OF r] t]]) (use t 2(4) Conn in simp)
  qed
qed

text \<open>The state in which the events of a round are handled.\<close>

definition round_start :: "round_io \<Rightarrow> reactor \<Rightarrow> reactor" where
  "round_start rio r =
     (let r = snd (select_timeout r) in r\<lparr>r_events := events_conns (select_ready (io_ready rio) (r_selector r))\<rparr>)"

lemma round_start_fields [simp]:
  "r_objs (round_start rio r) = r_objs r" "r_connections (round_start rio r) = r_connections r"
  "r_conn_by_id (round_start rio r) = r_conn_by_id r" "r_selector (round_start rio r) = r_selector r"
  "r_server (round_start rio r) = r_server r" "r_running (round_start rio r) = r_running r" "r_fd (round_start rio r) = r_fd r"
  "r_world (round_start rio r) = snd (monotonic (r_world r))" "r_deadlines (round_start rio r) = drop_stale r (r_deadlines r)"
  "r_conn (round_start rio r) = r_conn r" "r_events (round_start rio r) = events_conns (select_ready (io_ready rio) (r_selector r))"
  by (simp_all add: round_start_def select_timeout_def Let_def case_prod_unfold del: drop_stale.simps split: list.split)

lemma loop_round_eq:
  "loop_round rio r = map_option (\<lambda>res. and_then res (\<lambda>r. Returned (reap (expire_timeouts (io_expired rio) r))))
     (handle_events rio 0 (select_ready (io_ready rio) (r_selector r)) (round_start rio r))"
proof -
  have "r_selector (snd (select_timeout r)) = r_selector r"
    by (simp add: select_timeout_def Let_def case_prod_unfold split: list.split)
  then show ?thesis by (simp add: loop_round_def round_start_def Let_def)
qed

lemma timers_start: "timers_ok r \<Longrightarrow> timers_ok (round_start rio r)"
  using timers_local(2) [OF timers_select] by (simp add: round_start_def Let_def)

lemma round_cases:
  assumes "loop_round rio r = Some (Returned r')"
  obtains t where
    "handle_events rio 0 (select_ready (io_ready rio) (r_selector r)) (round_start rio r) = Some (Returned t)"
    "r' = reap (expire_timeouts (io_expired rio) t)"
proof -
  obtain x where x: "handle_events rio 0 (select_ready (io_ready rio) (r_selector r)) (round_start rio r) = Some x"
    and res: "and_then x (\<lambda>r. Returned (reap (expire_timeouts (io_expired rio) r))) = Returned r'"
    using assms unfolding loop_round_eq map_option_eq_Some by (elim exE conjE)
  from res obtain t where "x = Returned t" "r' = reap (expire_timeouts (io_expired rio) t)" by (cases x) auto
  with x that show thesis by simp
qed

lemma timers_round:
  assumes "timers_ok r" and "loop_round rio r = Some (Returned r')"
  shows "timers_ok r'"
  using assms(2)
proof (cases rule: round_cases)
  case (1 t)
  from timers_events [OF timers_start [OF assms(1)] 1(1)] have "timers_ok t" by simp
  with 1(2) show ?thesis by (simp add: timers_reap expire_spec)
qed

lemma timers_step:
  assumes "timers_ok r" and "lb_step r r'"
  shows "timers_ok r'"
  using assms(2)
proof cases
  case lb_signal
  show ?thesis unfolding lb_signal by (rule timers_same [OF assms(1)]) (auto simp: stop_def)
next
  case (lb_check op)
  show ?thesis unfolding lb_check(1) by (rule timers_same [OF assms(1)]) auto
qed (use assms(1) timers_round in blast)

lemma timers_serving: "serving rt clock fd r \<Longrightarrow> timers_ok r"
proof -
  assume "serving rt clock fd r"
  then obtain h q r0 where r0: "listen h q True (initial_reactor rt clock fd) = Returned r0" and run: "lb_step\<^sup>*\<^sup>* r0 r"
    by (auto simp: serving_def)
  have "timers_ok r0"
    by (rule timers_same [OF timers_initial [of rt clock fd]])
      (use r0 in \<open>auto simp: listen_def Let_def set_selector_def case_prod_unfold split: if_splits attempt.splits\<close>)
  with run show ?thesis by (induction rule: rtranclp_induct) (auto intro: timers_step)
qed

section \<open>Draining\<close>

interpretation clocks: reactor_contract "\<lambda>K r. w_clock (r_world r) = clock \<and> N \<le> w_reads (r_world r)" for clock N
proof unfold_locales
  fix r r' :: reactor and cid ev io s client w addr op
  assume c: "w_clock (r_world r) = clock \<and> N \<le> w_reads (r_world r)"
  have in_reach: "w_clock (snd t) = clock \<and> N \<le> w_reads (snd t)" if "confined (session_of r cid) t" for t
    using c that by (simp add: confined_def)
  show "w_clock (r_world (put_session cid s r)) = clock \<and> N \<le> w_reads (r_world (put_session cid s r))"
    if "handle ev io (session_of r cid) = Some (Returned s)"
    using in_reach confined_handle [OF that] by simp
  show "w_clock (r_world (put_session cid (set_state DONE s) r)) = clock \<and>
      N \<le> w_reads (r_world (put_session cid (set_state DONE s) r))"
    if "handle ev io (session_of r cid) = Some (Raised s)"
    using in_reach confined_handle [OF that] by simp
  show "w_clock (r_world (put_session cid (cleanup (session_of r cid)) r)) = clock \<and>
      N \<le> w_reads (r_world (put_session cid (cleanup (session_of r cid)) r))"
    using in_reach [OF confined_cleanup] by simp
  show "w_clock (r_world (put_session cid (new_connection client addr w) r)) = clock \<and>
      N \<le> w_reads (r_world (put_session cid (new_connection client addr w) r))"
    if "new_socket (r_world r) = (client, w)"
    using c that by (auto simp: new_connection_fields new_socket_def)
qed (auto simp: monotonic_def new_socket_def)

text \<open>The flag is the signal handler's alone, and sockets keep their descriptors.\<close>

lemma running_put [simp]: "r_running (put_session cid s r) = r_running r" "r_fd (put_session cid s r) = r_fd r"
  by (simp_all add: put_session_def)

lemma running_quiet [simp]:
  "r_running (snd (select_timeout r)) = r_running r" "r_running (reap_one fd r) = r_running r" "r_fd (reap_one fd r) = r_fd r"
  by (auto simp: select_timeout_def reap_one_def forget_socket_def set_selector_def Let_def case_prod_unfold
      split: list.splits option.splits)

lemma running_expired [simp]:
  "r_running (expire_loop ios now n r) = r_running r" "r_fd (expire_loop ios now n r) = r_fd r"
proof -
  have "r_running (expire_loop ios now n r) = r_running r \<and> r_fd (expire_loop ios now n r) = r_fd r"
  proof (induction n arbitrary: r)
    case (Suc n)
    show ?case
    proof (cases "heappop (r_deadlines r)")
      case (Some x)
      obtain d gen cid h where x: "x = ((d, gen, cid), h)" by (cases x) auto
      with Some Suc [of "r\<lparr>r_deadlines := h\<rparr>"]
        Suc [of "put_session cid (handle_timeout (ios cid) (session_of (r\<lparr>r_deadlines := h\<rparr>) cid)) (r\<lparr>r_deadlines := h\<rparr>)"]
      show ?thesis by (simp add: Let_def)
    qed simp
  qed simp
  then show "r_running (expire_loop ios now n r) = r_running r" "r_fd (expire_loop ios now n r) = r_fd r" by simp_all
qed

lemma running_reaped [simp]:
  "r_running (reap (expire_timeouts ios r)) = r_running r" "r_fd (reap (expire_timeouts ios r)) = r_fd r"
proof -
  have "r_running (foldl (\<lambda>r fd. reap_one fd r) r fds) = r_running r \<and> r_fd (foldl (\<lambda>r fd. reap_one fd r) r fds) = r_fd r" for fds r
    by (induction fds arbitrary: r) simp_all
  then show "r_running (reap (expire_timeouts ios r)) = r_running r" "r_fd (reap (expire_timeouts ios r)) = r_fd r"
    by (simp_all add: reap_def expire_timeouts_def case_prod_unfold Let_def)
qed

lemma running_dispatch:
  assumes "dispatch_guarded ios cid s m r = Some r'"
  shows "r_running r' = r_running r" "r_fd r' = r_fd r"
proof -
  have "r_running r' = r_running r \<and> r_fd r' = r_fd r"
    using assms by (rule dispatch_touches) (auto simp: touches_def schedule_deadline_def Let_def)
  then show "r_running r' = r_running r" "r_fd r' = r_fd r" by simp_all
qed

lemma running_accept [simp]:
  "r_running (final (accept_all as r)) = r_running r" "r_fd (final (accept_all as r)) = r_fd r"
proof -
  have one: "r_running (final (accept_one a r)) = r_running r" "r_fd (final (accept_one a r)) = r_fd r" for a r
    by (simp_all add: accept_one_def Let_def case_prod_unfold schedule_deadline_def set_selector_def split: attempt.split)
  have "r_running (final (accept_all as r)) = r_running r \<and> r_fd (final (accept_all as r)) = r_fd r"
  proof (induction as arbitrary: r)
    case (Cons a as)
    show ?case
    proof (cases "accept_one a r")
      case (Returned t)
      with one [of a r] Cons.IH [of t] show ?thesis by simp
    qed (use one [of a r] in simp)
  qed simp
  then show "r_running (final (accept_all as r)) = r_running r" "r_fd (final (accept_all as r)) = r_fd r" by simp_all
qed

lemma running_events:
  "handle_events rio i evs r = Some res \<Longrightarrow> r_running (final res) = r_running r \<and> r_fd (final res) = r_fd r"
proof (induction rio i evs r rule: handle_events.induct)
  case (2 rio i key m events r)
  let ?r = "set_marks (marks_before rio i) r"
  show ?case
  proof (cases "key_data key")
    case Accept
    with 2 running_accept [of "io_accepts rio i" ?r] show ?thesis
      by (cases "accept_all (io_accepts rio i) ?r") (auto simp: Let_def)
  next
    case (Conn cid)
    with 2 running_dispatch [of "io_handlers rio i" cid "key_fileobj key" m "?r\<lparr>r_conn := Some cid\<rparr>"] show ?thesis
      by (auto simp: Let_def split: option.splits)
  qed
qed auto

lemma running_round:
  assumes "loop_round rio r = Some (Returned r')"
  shows "r_running r' = r_running r" "r_fd r' = r_fd r"
proof -
  obtain t where
    t: "handle_events rio 0 (select_ready (io_ready rio) (r_selector r)) (round_start rio r) =
        Some (Returned t)" "r' = reap (expire_timeouts (io_expired rio) t)"
    by (rule round_cases [OF assms])
  from running_events [OF t(1)] t(2) show "r_running r' = r_running r" "r_fd r' = r_fd r" by simp_all
qed

lemma loop_keeps_fd: "loop rios r = Some (Returned r') \<Longrightarrow> r_fd r' = r_fd r"
proof (induction rios arbitrary: r)
  case (Cons rio rios)
  show ?case
  proof (cases "r_running r")
    case True
    with Cons.prems obtain t where t: "loop_round rio r = Some (Returned t)"
        "loop rios (if io_signal rio then stop t else t) = Some (Returned r')"
      by (auto split: option.splits outcome.splits)
    from Cons.IH [OF t(2)] running_round(2) [OF t(1)] show ?thesis by (simp add: stop_def)
  qed (use Cons.prems in simp)
qed simp

text \<open>A round in which nothing arrives: what is left of the table, and later readings of the clock.\<close>

definition survivors :: "reactor \<Rightarrow> reactor \<Rightarrow> bool" where
  "survivors r r' \<longleftrightarrow> (\<forall>(fd, cid) \<in> set (r_connections r'). (fd, cid) \<in> set (r_connections r) \<and>
     r_objs r' cid = r_objs r cid \<and> w_clock (r_world r) (Suc (w_reads (r_world r))) < deadline (r_objs r cid))"

lemma quiet_round:
  assumes "timers_ok r" and "io_ready rio = []"
  shows "\<exists>r'. loop_round rio r = Some (Returned r') \<and> timers_ok r' \<and> survivors r r' \<and>
    w_clock (r_world r') = w_clock (r_world r) \<and> w_reads (r_world r) < w_reads (r_world r') \<and>
    r_running r' = r_running r"
proof -
  let ?s = "set_marks (concat (io_marks rio)) (round_start rio r)" let ?e = "expire_timeouts (io_expired rio) ?s"
  have s: "r_objs ?s = r_objs r" "r_connections ?s = r_connections r" "w_clock (r_world ?s) = w_clock (r_world r)"
    "w_reads (r_world ?s) = Suc (w_reads (r_world r))" "r_running ?s = r_running r"
    by (simp_all add: monotonic_def)
  have ok: "timers_ok ?s" by (rule timers_marks [OF timers_start [OF assms(1)]])
  have e: "timers_ok ?e" "in_time (w_clock (r_world r) (Suc (w_reads (r_world r)))) ?e" "only_ends ?s ?e"
    "Suc (w_reads (r_world r)) < w_reads (r_world ?e)"
    using expire_spec [OF ok, of "io_expired rio"] by (simp_all only: s)
  then have d: "distinct (map fst (r_connections ?e))" by (simp add: timers_but_def)
  note r = reap_spec [OF d]
  have run: "loop_round rio r = Some (Returned (reap ?e))"
    using assms(2) by (simp add: loop_round_eq select_ready_def List.map_filter_def)
  have left: "(fd, cid) \<in> set (r_connections r) \<and> r_objs (reap ?e) cid = r_objs r cid \<and>
      w_clock (r_world r) (Suc (w_reads (r_world r))) < deadline (r_objs r cid)"
    if "(fd, cid) \<in> set (r_connections (reap ?e))" for fd cid
  proof -
    from that r(2) have c: "(fd, cid) \<in> set (r_connections ?e)" "state (r_objs ?e cid) \<noteq> DONE" by simp_all
    from c(2) e(3) have o: "r_objs ?e cid = r_objs r cid" by (auto simp: only_ends_def s)
    have "r_objs (reap ?e) = r_objs ?e" using r(1) by (simp add: reaped_def)
    moreover have "(fd, cid) \<in> set (r_connections r)" using c(1) e(3) by (simp add: only_ends_def s)
    moreover have "w_clock (r_world r) (Suc (w_reads (r_world r))) < deadline (r_objs ?e cid)"
      using e(2) c by (force simp: in_time_def)
    ultimately show ?thesis using o by simp
  qed
  then have "survivors r (reap ?e)" by (auto simp: survivors_def)
  moreover have "w_clock (r_world (reap ?e)) = w_clock (r_world r)" "w_reads (r_world r) < w_reads (r_world (reap ?e))"
    using e(3,4) r(1) s by (simp_all add: only_ends_def reaped_def)
  moreover have "r_running (reap ?e) = r_running r" using s(5) by simp
  ultimately show ?thesis using run timers_reap [OF e(1)] by blast
qed

lemma quiet_rounds:
  assumes "timers_ok r" and "r_running r" and "\<forall>rio \<in> set rios. io_ready rio = [] \<and> \<not> io_signal rio"
    and "\<forall>m \<ge> n. \<forall>(fd, cid) \<in> set (r_connections r). deadline (r_objs r cid) \<le> w_clock (r_world r) m"
    and "n < length rios + w_reads (r_world r)"
  shows "\<exists>r'. loop rios r = Some (Returned r') \<and> (rios \<noteq> [] \<longrightarrow> r_connections r' = [])"
  using assms
proof (induction rios arbitrary: r)
  case (Cons rio rios)
  note prems = Cons.prems and IH = Cons.IH
  have "io_ready rio = []" and no_signal: "\<not> io_signal rio" using Cons.prems(3) by simp_all
  from quiet_round [OF Cons.prems(1) this(1)] obtain t where
    t: "loop_round rio r = Some (Returned t)" "timers_ok t" "survivors r t"
      "w_clock (r_world t) = w_clock (r_world r)" "w_reads (r_world r) < w_reads (r_world t)" "r_running t = r_running r"
    by blast
  have late: "\<forall>m \<ge> n. \<forall>(fd, cid) \<in> set (r_connections t). deadline (r_objs t cid) \<le> w_clock (r_world t) m"
    using Cons.prems(4) t(3,4) by (fastforce simp: survivors_def)
  show ?case
  proof (cases rios)
    case Nil
    then have n: "n \<le> Suc (w_reads (r_world r))" using Cons.prems(5) by simp
    have "(fd, cid) \<notin> set (r_connections t)" for fd cid
      using late n t(3,4) by (force simp: survivors_def)
    then have "r_connections t = []" by (cases "r_connections t") auto
    with Nil t(1) prems(2) no_signal show ?thesis by (cases "r_running t") simp_all
  next
    case (Cons x xs)
    have "r_running t" "\<forall>rio \<in> set rios. io_ready rio = [] \<and> \<not> io_signal rio" "n < length rios + w_reads (r_world t)"
      using prems t(5,6) by auto
    from IH [OF t(2) this(1,2) late this(3)] t(1) Cons prems(2) no_signal show ?thesis by simp
  qed
qed simp

end
