(* ===== verification/ReactorTheorems.thy ===== *)
theory ReactorTheorems
  imports ReactorTimers ConnectionTheorems
begin

text \<open>
  The properties of \<open>reactor.py\<close> and of the process it drives: what holds of all connections at once
  in every execution, what the deadline heap guarantees, what reaping does, and the executions in
  which the bookkeeping goes wrong.
\<close>

section \<open>Executions to look at\<close>

text \<open>
  A reactor with descriptor 3 for the listening socket. The first socket is on 4, all later ones on
  5, as the kernel would number sockets that are opened one after the other was closed.
\<close>

definition demo_fd :: "sock \<Rightarrow> int" where
  "demo_fd s = (if s = 0 then 3 else if s = 1 then 4 else 5)"

definition demo_reactor :: "(nat \<Rightarrow> real) \<Rightarrow> reactor" where
  "demo_reactor clock =
     final (listen True False True
       (initial_reactor (LC (lc_init [(''b'', 1), (''c'', 2), (''d'', 3)])) clock demo_fd))"

definition quiet :: round_io where
  "quiet = \<lparr>io_ready = [], io_handlers = (\<lambda>i ev. demo_io), io_accepts = (\<lambda>i. []), io_expired = (\<lambda>cid. demo_io),
     io_signal = False, io_marks = []\<rparr>"

definition arriving :: "((string \<times> int) \<times> cid) list \<Rightarrow> round_io" where
  "arriving as = quiet\<lparr>io_ready := [(3, EVENT_READ)], io_accepts := (\<lambda>i. as)\<rparr>"

definition asking_on :: "int \<Rightarrow> round_io" where
  "asking_on fd = quiet\<lparr>io_ready := [(fd, EVENT_READ)],
     io_handlers := (\<lambda>i ev. demo_io\<lparr>io_recv := Received demo_request\<rparr>)\<rparr>"

definition closing_on :: "int \<Rightarrow> round_io" where
  "closing_on fd = quiet\<lparr>io_ready := [(fd, EVENT_READ)],
     io_handlers := (\<lambda>i ev. demo_io\<lparr>io_recv := Received []\<rparr>)\<rparr>"

text \<open>The backend on 5 refuses late; the attempts in \<open>refused\<close> are refused at once.\<close>

definition refusing_on_5 :: "int set \<Rightarrow> (int \<times> int) list \<Rightarrow> ((string \<times> int) \<times> cid) list \<Rightarrow> round_io" where
  "refusing_on_5 refused more_ready as = quiet\<lparr>io_ready := (5, EVENT_WRITE) # more_ready,
     io_handlers := (\<lambda>i ev. demo_io\<lparr>io_sockopt := Some 111,
       io_connect := (\<lambda>n. Connect_errno (if n \<in> refused then 111 else 115))\<rparr>),
     io_accepts := (\<lambda>i. as)\<rparr>"

lemma demo_listening:
  "listen True False True (initial_reactor (LC (lc_init [(''b'', 1), (''c'', 2), (''d'', 3)])) clock demo_fd) =
     Returned (demo_reactor clock)"
  by (simp add: demo_reactor_def listen_def new_socket_def initial_reactor_def sel_register_def
      fileobj_lookup_def fileno_def r_sockets_def demo_fd_def Let_def)

lemma demo_serving:
  "loop rios (demo_reactor clock) = Some (Returned r) \<Longrightarrow>
    serving (LC (lc_init [(''b'', 1), (''c'', 2), (''d'', 3)])) clock demo_fd r"
  unfolding serving_def using demo_listening loop_steps by blast

lemma demo_router: "create_router ''least_connections'' [(''b'', 1), (''c'', 2), (''d'', 3)] =
    Inr (LC (lc_init [(''b'', 1), (''c'', 2), (''d'', 3)]))"
  by (simp add: create_router_def)

lemma returned_case:
  "(case x of Some (Returned r) \<Rightarrow> P r | _ \<Rightarrow> False) \<longleftrightarrow> (\<exists>r. x = Some (Returned r) \<and> P r)"
  "(case x of None \<Rightarrow> False | Some (Returned r) \<Rightarrow> P r | Some (Raised r) \<Rightarrow> False) \<longleftrightarrow> (\<exists>r. x = Some (Returned r) \<and> P r)"
  by (auto split: option.splits outcome.splits)

definition demo_waiting :: "round_io list" where
  "demo_waiting = [arriving [((''10.0.0.5'', 4000), 7)], asking_on 4]"

lemma demo_waits:
  "case loop demo_waiting (demo_reactor real) of
     Some (Returned r) \<Rightarrow> r_connections r = [(4, 7)] \<and> state (r_objs r 7) = CONNECTING_TO_BACKEND \<and>
       backend_sock (r_objs r 7) = Some 2 \<and> pending_backend_unregister (r_objs r 7) = None \<and>
       client_sock (r_objs r 7) = 1 \<and> 7 \<in> references r \<and> held (r_objs r 7) (''b'', 1) = 1 \<and>
       7 \<in> r_conn_by_id r \<and> map fst (r_connections r) = [4] \<and> r_running r
   | _ \<Rightarrow> False"
  by code_simp

lemma demo_waitsE:
  obtains r where "loop demo_waiting (demo_reactor real) = Some (Returned r)"
    "serving (LC (lc_init [(''b'', 1), (''c'', 2), (''d'', 3)])) real demo_fd r"
    "r_connections r = [(4, 7)]" "state (r_objs r 7) = CONNECTING_TO_BACKEND" "backend_sock (r_objs r 7) = Some 2"
    "pending_backend_unregister (r_objs r 7) = None" "client_sock (r_objs r 7) = 1" "7 \<in> references r"
    "held (r_objs r 7) (''b'', 1) = 1" "r_running r"
  using demo_waits demo_serving [of demo_waiting real] by (auto split: option.splits outcome.splits)

section \<open>All connections at once\<close>

lemma serving_sessions:
  assumes "create_router algorithm backends = Inr rt" and "distinct backends" and "serving rt clock fd r"
  shows "sessions_ok (references r) r"
  using sessions.serving_over [OF sessions_initial assms(3)] create_router_ok [OF assms(2,1)] by blast

text \<open>C7: The reactor refines its connections: in every execution, each object it can reach stands at the end
  of a run of the connection alone, from the state in which it was accepted, with the reactor's other doings as
  interference. What is shown of every run of a connection therefore holds in the reactor.\<close>

theorem reactor_refines_connections:
  assumes "create_router algorithm backends = Inr rt" and "distinct backends" and "serving rt clock fd r"
    and "cid \<in> references r"
  shows "\<exists>s. accepted s \<and> session_step\<^sup>*\<^sup>* s (session_of r cid)"
  using traces.serving_over [OF traced_initial assms(3)] create_router_ok [OF assms(2,1)] assms(4)
  by (auto simp: traced_def)

theorem reactor_refines_connections_witness:
  "\<exists>r s. loop demo_waiting (demo_reactor real) = Some (Returned r) \<and> accepted s \<and>
     session_step\<^sup>*\<^sup>* s (session_of r 7)"
proof -
  obtain r where r: "loop demo_waiting (demo_reactor real) = Some (Returned r)"
      "serving (LC (lc_init [(''b'', 1), (''c'', 2), (''d'', 3)])) real demo_fd r" "7 \<in> references r"
    by (rule demo_waitsE)
  have "distinct [(''b'', 1 :: int), (''c'', 2), (''d'', 3)]" by simp
  from reactor_refines_connections [OF demo_router this r(2,3)] r(1) show ?thesis by blast
qed

text \<open>C8: In every execution, whatever the clients, the backends, the kernel and the health checker do,
  each object the reactor can reach is well formed for its state: the fields of its state are set, its
  client has been sent a part of one answer, the wire of its backend agrees with its offset, and no two
  objects share a socket.\<close>

theorem reactor_well_formed:
  assumes "create_router algorithm backends = Inr rt" and "distinct backends" and "serving rt clock fd r"
    and "cid \<in> references r"
  shows "phase_ok (session_of r cid) \<and> answered (session_of r cid) \<and>
    (\<forall>other \<in> references r. other \<noteq> cid \<longrightarrow> owns (r_objs r cid) \<inter> owns (r_objs r other) = {})"
  using serving_sessions [OF assms(1-3)] assms(4) phase_answered by (simp add: sessions_ok_def)

theorem reactor_well_formed_witness:
  "\<exists>r. loop demo_waiting (demo_reactor real) = Some (Returned r) \<and> phase_ok (session_of r 7) \<and>
     (\<forall>other \<in> references r. other \<noteq> 7 \<longrightarrow> owns (r_objs r 7) \<inter> owns (r_objs r other) = {})"
proof -
  obtain r where r: "loop demo_waiting (demo_reactor real) = Some (Returned r)"
      "serving (LC (lc_init [(''b'', 1), (''c'', 2), (''d'', 3)])) real demo_fd r" "7 \<in> references r"
    by (rule demo_waitsE)
  have "distinct [(''b'', 1 :: int), (''c'', 2), (''d'', 3)]" by simp
  from reactor_well_formed [OF demo_router this r(2,3)] r(1) show ?thesis by blast
qed

text \<open>C15: In every execution of a least-connections balancer, the router charges each backend with at
  least the slots that the reachable connections hold on it: a busy backend never looks idle.\<close>

theorem slots_never_undercounted:
  assumes "create_router ''least_connections'' backends = Inr rt" and "distinct backends"
    and "serving rt clock fd r"
  shows "(\<Sum>cid \<in> references r. held (r_objs r cid) b) \<le> router_load (w_router (r_world r)) b"
proof -
  have "is_lc rt" using assms(1) by (auto simp: create_router_def split: if_splits)
  with books.serving_over [OF books_initial assms(3)] create_router_ok [OF assms(2,1)] show ?thesis
    by (auto simp: books_def)
qed

theorem slots_never_undercounted_witness:
  "\<exists>r. loop demo_waiting (demo_reactor real) = Some (Returned r) \<and> 1 \<le> router_load (w_router (r_world r)) (''b'', 1)"
proof -
  obtain r where r: "loop demo_waiting (demo_reactor real) = Some (Returned r)"
      "serving (LC (lc_init [(''b'', 1), (''c'', 2), (''d'', 3)])) real demo_fd r" "7 \<in> references r"
      "held (r_objs r 7) (''b'', 1) = 1"
    by (rule demo_waitsE)
  have d: "distinct [(''b'', 1 :: int), (''c'', 2), (''d'', 3)]" by simp
  have "finite (references r)"
    using timers_serving [OF r(2)] by (simp add: references_def timers_but_def)
  with r(3) have "held (r_objs r 7) (''b'', 1) \<le> (\<Sum>cid \<in> references r. held (r_objs r cid) (''b'', 1))"
    by (intro member_le_sum) simp_all
  with slots_never_undercounted [OF demo_router d r(2), of "(''b'', 1)"] r(1,4) show ?thesis by auto
qed

section \<open>Deadlines\<close>

text \<open>C14: In every execution the deadline heap is a heap, and every connection of the table that is not
  done is scheduled: it is found by its identity and its current deadline is in the heap, whatever stale
  entries are there beside it.\<close>

theorem deadlines_are_scheduled:
  assumes "serving rt clock fd r" and "(sockfd, cid) \<in> set (r_connections r)" and "state (r_objs r cid) \<noteq> DONE"
  shows "is_heap (r_deadlines r) \<and> cid \<in> r_conn_by_id r \<and>
    (deadline (r_objs r cid), deadline_gen (r_objs r cid), cid) \<in> set (r_deadlines r)"
  using timersD [OF timers_serving [OF assms(1)] assms(2)] timers_serving [OF assms(1)] assms(3)
  by (simp add: timed_def timers_but_def)

theorem deadlines_are_scheduled_witness:
  "\<exists>r. loop demo_waiting (demo_reactor real) = Some (Returned r) \<and>
     (deadline (r_objs r 7), deadline_gen (r_objs r 7), 7) \<in> set (r_deadlines r)"
proof -
  obtain r where r: "loop demo_waiting (demo_reactor real) = Some (Returned r)"
      "serving (LC (lc_init [(''b'', 1), (''c'', 2), (''d'', 3)])) real demo_fd r"
      "r_connections r = [(4, 7)]" "state (r_objs r 7) = CONNECTING_TO_BACKEND"
    by (rule demo_waitsE)
  with deadlines_are_scheduled [OF r(2), of 4 7] show ?thesis by auto
qed

text \<open>The wait for events is between zero and one second, and never lasts beyond the deadline of a
  live connection.\<close>

theorem wait_respects_deadlines:
  assumes "serving rt clock fd r" and "(sockfd, cid) \<in> set (r_connections r)" and "state (r_objs r cid) \<noteq> DONE"
  shows "0 \<le> fst (select_timeout r) \<and> fst (select_timeout r) \<le> 1 \<and>
    fst (select_timeout r) \<le> max 0 (deadline (r_objs r cid) - w_clock (r_world r) (w_reads (r_world r)))"
  using select_bounds [of r] select_wait [OF timers_serving [OF assms(1)] _ assms(3)] assms(2) by force

theorem wait_respects_deadlines_witness:
  "\<exists>r. loop demo_waiting (demo_reactor real) = Some (Returned r) \<and> fst (select_timeout r) \<le> 1"
proof -
  obtain r where r: "loop demo_waiting (demo_reactor real) = Some (Returned r)"
      "serving (LC (lc_init [(''b'', 1), (''c'', 2), (''d'', 3)])) real demo_fd r"
      "r_connections r = [(4, 7)]" "state (r_objs r 7) = CONNECTING_TO_BACKEND"
    by (rule demo_waitsE)
  with wait_respects_deadlines [OF r(2), of 4 7] show ?thesis by auto
qed

lemma serving_clock: "serving rt clock fd r \<Longrightarrow> w_clock (r_world r) = clock"
  using clocks.serving_over [where clock = clock and N = 0 and rt = rt and fd = fd and r = r]
  by (simp add: initial_reactor_def)

text \<open>C13: After a round of the loop no connection of the table is done, and none is overdue: all their
  deadlines are later than a reading of the clock that was taken in this round.\<close>

theorem no_connection_overdue:
  assumes "serving rt clock fd r" and "loop_round rio r = Some (Returned r')"
  shows "\<exists>n. w_reads (r_world r) < n \<and> n < w_reads (r_world r') \<and>
    (\<forall>(sockfd, cid) \<in> set (r_connections r'). state (r_objs r' cid) \<noteq> DONE \<and> clock n < deadline (r_objs r' cid))"
proof -
  let ?s = "round_start rio r"
  obtain t where t: "handle_events rio 0 (select_ready (io_ready rio) (r_selector r)) ?s = Some (Returned t)"
      "r' = reap (expire_timeouts (io_expired rio) t)"
    by (rule round_cases [OF assms(2)])
  have s: "w_clock (r_world ?s) = clock" "w_reads (r_world ?s) = Suc (w_reads (r_world r))"
    using serving_clock [OF assms(1)] by (simp_all add: monotonic_def)
  have "clocks.over clock (Suc (w_reads (r_world r))) UNIV ?s" using s by (simp add: clocks.over_def)
  from clocks.events_over [OF this _ t(1)]
  have w: "w_clock (r_world t) = clock" "w_reads (r_world r) < w_reads (r_world t)"
    by (auto simp: clocks.over_def)
  have "timers_ok t" using timers_events [OF timers_start [OF timers_serving [OF assms(1)]] t(1)] by simp
  from expire_spec [OF this, of "io_expired rio"] w(1) obtain e where
    e: "e = expire_timeouts (io_expired rio) t" "timers_ok e" "in_time (clock (w_reads (r_world t))) e"
      "w_reads (r_world t) < w_reads (r_world e)" by blast
  then have "distinct (map fst (r_connections e))" by (simp add: timers_but_def)
  note r = reap_spec [OF this]
  have reads: "w_reads (r_world t) < w_reads (r_world r')" and objs: "r_objs r' = r_objs e"
    using e r(1) by (simp_all add: t(2) reaped_def)
  have "state (r_objs r' cid) \<noteq> DONE \<and> clock (w_reads (r_world t)) < deadline (r_objs r' cid)"
    if "(x, cid) \<in> set (r_connections r')" for x cid
    using that e(3) r(2) unfolding objs by (force simp: t(2) e(1) in_time_def)
  with w(2) reads show ?thesis by blast
qed

theorem no_connection_overdue_witness:
  "\<exists>r r' n. loop demo_waiting (demo_reactor real) = Some (Returned r) \<and> loop_round quiet r = Some (Returned r') \<and>
     (\<forall>(sockfd, cid) \<in> set (r_connections r'). real n < deadline (r_objs r' cid))"
proof -
  obtain r where r: "loop demo_waiting (demo_reactor real) = Some (Returned r)"
      "serving (LC (lc_init [(''b'', 1), (''c'', 2), (''d'', 3)])) real demo_fd r"
    by (rule demo_waitsE)
  obtain r' where r': "loop_round quiet r = Some (Returned r')"
    using quiet_round [OF timers_serving [OF r(2)], of quiet] by (auto simp: quiet_def)
  from no_connection_overdue [OF r(2) r'] r(1) r' show ?thesis by fast
qed

lemma eventually_past:
  assumes "\<And>t. \<exists>n. \<forall>m \<ge> n. t < (clock :: nat \<Rightarrow> real) m"
  shows "\<exists>n. \<forall>m \<ge> n. \<forall>x \<in> set xs. f x \<le> clock m"
proof (induction xs)
  case (Cons x xs)
  then obtain n where n: "\<forall>m \<ge> n. \<forall>x \<in> set xs. f x \<le> clock m" by blast
  obtain k where "\<forall>m \<ge> k. f x < clock m" using assms by blast
  with n have "\<forall>m \<ge> max n k. \<forall>x \<in> set (x # xs). f x \<le> clock m" by fastforce
  then show ?case by blast
qed simp

text \<open>C12: When time passes and nothing arrives, the balancer drains: there is a number of rounds after
  which the table is empty, every connection having been answered or closed by its timeout.\<close>

theorem quiet_reactor_drains:
  assumes "serving rt clock fd r" and "r_running r" and "\<And>t. \<exists>n. \<forall>m \<ge> n. t < clock m"
  shows "\<exists>k. \<forall>rios. k \<le> length rios \<and> (\<forall>rio \<in> set rios. io_ready rio = [] \<and> \<not> io_signal rio) \<longrightarrow>
    (\<exists>r'. loop rios r = Some (Returned r') \<and> r_connections r' = [])"
proof -
  obtain n where n: "\<forall>m \<ge> n. \<forall>x \<in> set (r_connections r). deadline (r_objs r (snd x)) \<le> clock m"
    using eventually_past [OF assms(3), of "r_connections r" "\<lambda>x. deadline (r_objs r (snd x))"] by blast
  have ok: "timers_ok r" by (rule timers_serving [OF assms(1)])
  have late: "\<forall>m \<ge> n. \<forall>(sockfd, cid) \<in> set (r_connections r). deadline (r_objs r cid) \<le> w_clock (r_world r) m"
    using n by (fastforce simp: serving_clock [OF assms(1)])
  have "\<exists>r'. loop rios r = Some (Returned r') \<and> r_connections r' = []"
    if "Suc n \<le> length rios" "\<forall>rio \<in> set rios. io_ready rio = [] \<and> \<not> io_signal rio" for rios
    using quiet_rounds [OF ok assms(2) that(2) late] that(1) by (cases rios) auto
  then show ?thesis by blast
qed

theorem quiet_reactor_drains_witness:
  "\<exists>r k. loop demo_waiting (demo_reactor real) = Some (Returned r) \<and> r_connections r = [(4, 7)] \<and>
     (\<exists>r'. loop (replicate k quiet) r = Some (Returned r') \<and> r_connections r' = [])"
proof -
  obtain r where r: "loop demo_waiting (demo_reactor real) = Some (Returned r)"
      "serving (LC (lc_init [(''b'', 1), (''c'', 2), (''d'', 3)])) real demo_fd r" "r_connections r = [(4, 7)]"
      and running: "r_running r"
    by (rule demo_waitsE)
  have "\<exists>n. \<forall>m \<ge> n. t < real m" for t
    using reals_Archimedean2 [of t] by (meson less_le_trans of_nat_le_iff)
  from quiet_reactor_drains [OF r(2) running this] obtain k where
    "\<forall>rios. k \<le> length rios \<and> (\<forall>rio \<in> set rios. io_ready rio = [] \<and> \<not> io_signal rio) \<longrightarrow>
      (\<exists>r'. loop rios r = Some (Returned r') \<and> r_connections r' = [])" by blast
  from this [rule_format, of "replicate k quiet"] r(1,3) show ?thesis by (auto simp: quiet_def)
qed

section \<open>Reaping\<close>

text \<open>Reaping takes exactly the connections that are done out of the table, and closes their sockets
  and no others: a connection that stays keeps all of its sockets as they were.\<close>

theorem reap_takes_the_done:
  assumes "timers_ok r" and "sessions_ok (references r) r"
  shows "r_connections (reap r) = filter (\<lambda>(sockfd, cid). state (r_objs r cid) \<noteq> DONE) (r_connections r) \<and>
    (\<forall>(sockfd, cid) \<in> set (r_connections r).
       if state (r_objs r cid) = DONE then owns (r_objs r cid) \<subseteq> w_closed (r_world (reap r))
       else owns (r_objs r cid) \<inter> w_closed (r_world (reap r)) = owns (r_objs r cid) \<inter> w_closed (r_world r))"
proof -
  have d: "distinct (map fst (r_connections r))" using assms(1) by (simp add: timers_but_def)
  note spec = reap_spec [OF d] and dead = dead_iff [OF d]
  have closed: "w_closed (r_world (reap r)) = w_closed (r_world r) \<union>
      (\<Union>fd \<in> set (dead_fds r). \<Union>cid \<in> set_option (map_of (r_connections r) fd). owns (r_objs r cid))"
    using spec(1) by (simp add: reaped_def)
  have "owns (r_objs r cid) \<subseteq> w_closed (r_world (reap r))"
    if "(fd, cid) \<in> set (r_connections r)" "state (r_objs r cid) = DONE" for fd cid
  proof -
    have "map_of (r_connections r) fd = Some cid" using that(1) d by simp
    with that(2) dead [of fd] show ?thesis unfolding closed by fastforce
  qed
  moreover have "owns (r_objs r cid) \<inter> w_closed (r_world (reap r)) = owns (r_objs r cid) \<inter> w_closed (r_world r)"
    if "(fd, cid) \<in> set (r_connections r)" "state (r_objs r cid) \<noteq> DONE" for fd cid
  proof -
    have "owns (r_objs r cid) \<inter> owns (r_objs r x) = {}"
      if "map_of (r_connections r) y = Some x" "state (r_objs r x) = DONE" for x y
    proof -
      have "cid \<in> references r" "x \<in> references r" "x \<noteq> cid"
        using \<open>(fd, cid) \<in> set (r_connections r)\<close> \<open>state (r_objs r cid) \<noteq> DONE\<close> that map_of_SomeD [OF that(1)]
        by (force simp: references_def)+
      with assms(2) show ?thesis by (auto simp: sessions_ok_def)
    qed
    then show ?thesis unfolding closed using dead by fastforce
  qed
  ultimately show ?thesis using spec(2) by (auto simp only: split_beta split: prod.split if_split) force+
qed

theorem reap_takes_the_done_witness:
  "\<exists>r. loop demo_waiting (demo_reactor real) = Some (Returned r) \<and> r_connections (reap r) = [(4, 7)]"
proof -
  obtain r where r: "loop demo_waiting (demo_reactor real) = Some (Returned r)"
      "serving (LC (lc_init [(''b'', 1), (''c'', 2), (''d'', 3)])) real demo_fd r"
      "r_connections r = [(4, 7)]" "state (r_objs r 7) = CONNECTING_TO_BACKEND"
    by (rule demo_waitsE)
  have d: "distinct [(''b'', 1 :: int), (''c'', 2), (''d'', 3)]" by simp
  from reap_takes_the_done [OF timers_serving [OF r(2)] serving_sessions [OF demo_router d r(2)]] r(1,3,4)
  show ?thesis by auto
qed

section \<open>Where the bookkeeping goes wrong\<close>

text \<open>A client that sends more, or closes, while its request is being served makes its socket
  readable, and the reactor still watches it: the event changes nothing but the deadline heap, which gets
  another copy of the same entry, and the socket is readable again in the next round.\<close>

theorem ignored_event_costs_an_entry:
  assumes "state (r_objs r cid) \<notin> {READING_REQUEST, DONE}"
    and "backend_sock (r_objs r cid) \<noteq> Some (client_sock (r_objs r cid))"
    and "pending_backend_unregister (r_objs r cid) = None"
  shows "\<exists>r'. dispatch_guarded ios cid (client_sock (r_objs r cid)) EVENT_READ r = Some r' \<and>
    r_world r' = r_world r \<and> r_objs r' = r_objs r \<and> r_selector r' = r_selector r \<and>
    mset (r_deadlines r') =
      add_mset (deadline (r_objs r cid), deadline_gen (r_objs r cid), cid) (mset (r_deadlines r))"
proof -
  have h: "handle Client_readable io (session_of r cid) = Some (Returned (session_of r cid))" for io
    using assms(1) by (simp add: session_of_def)
  have put: "put_session cid (session_of r cid) r = r"
    by (simp add: put_session_def session_of_def)
  have run: "run_handler Client_readable io cid r = Some (Returned r)" for io
    unfolding run_handler_def h using assms(3) by (simp add: put transition_def)
  have "EVENT_READ AND EVENT_READ \<noteq> 0" "EVENT_READ AND EVENT_WRITE = 0"
    by (simp_all add: EVENT_READ_def EVENT_WRITE_def)
  with run assms(3) have "dispatch ios cid (client_sock (r_objs r cid)) EVENT_READ r =
      Some (Returned (schedule_deadline cid r))"
    by (simp add: dispatch_def flush_pending_unregister_def assms(2) [symmetric])
  then show ?thesis using assms(1) by (simp add: dispatch_guarded_def schedule_deadline_def Let_def)
qed

theorem ignored_event_costs_an_entry_witness:
  "\<exists>r r'. loop demo_waiting (demo_reactor real) = Some (Returned r) \<and>
     dispatch_guarded (\<lambda>ev. demo_io) 7 1 EVENT_READ r = Some r' \<and> r_objs r' = r_objs r \<and>
     size (mset (r_deadlines r')) = Suc (size (mset (r_deadlines r)))"
proof -
  obtain r where r: "loop demo_waiting (demo_reactor real) = Some (Returned r)"
      "state (r_objs r 7) = CONNECTING_TO_BACKEND" "backend_sock (r_objs r 7) = Some 2"
      "pending_backend_unregister (r_objs r 7) = None" "client_sock (r_objs r 7) = 1"
    by (rule demo_waitsE)
  with ignored_event_costs_an_entry [of r 7 "\<lambda>ev. demo_io"] show ?thesis by fastforce
qed

text \<open>When a backend fails late, the retry fails at once and a second retry is under way, the new
  socket is on the descriptor of the first one: its registration is taken for the new one, the kernel is
  never asked to watch the new socket, and the connection can only time out.\<close>

theorem second_retry_is_not_watched:
  "case loop [arriving [((''10.0.0.5'', 4000), 7)], asking_on 4, refusing_on_5 {2} [] []] (demo_reactor real) of
     Some (Returned r) \<Rightarrow> state (r_objs r 7) = CONNECTING_TO_BACKEND \<and> backend_attempts (r_objs r 7) = 3 \<and>
       backend_sock (r_objs r 7) = Some 4 \<and> 4 \<notin> w_closed (r_world r) \<and>
       watched (r_sockets r) (r_selector r) 4 = None
   | _ \<Rightarrow> False"
  by code_simp

end
