(* ===== verification/ReusedIdentity.thy ===== *)
theory ReusedIdentity
  imports ReactorTheorems
begin

text \<open>
  What an identity that is given to a second object costs: the entries of the first one are still in the deadline
  heap, and their generation is that of a new object.
\<close>

section \<open>The heap, entry by entry\<close>

lemma drop_stale_later:
  "is_heap h \<Longrightarrow> x \<in> set h \<Longrightarrow> \<not> stale_entry r x \<Longrightarrow> e \<in> set h \<Longrightarrow> x < e \<Longrightarrow> e \<in> set (drop_stale r h)"
proof (induction r h rule: drop_stale.induct)
  case (1 r h)
  show ?case
  proof (cases h)
    case (Cons y ys)
    show ?thesis
    proof (cases "stale_entry r y")
      case True
      obtain z h' where pop: "heappop h = Some (z, h')" using Cons by (cases "heappop h") auto
      then have z: "z = y" using heappop_hd [OF pop] Cons by simp
      have x: "x \<in> set h'" using 1(3,4) set_heappop [OF pop] True z by auto
      have "z \<le> x" using heappop_least [OF 1(2) pop 1(3)] .
      with 1(5,6) set_heappop [OF pop] have "e \<in> set h'" by auto
      with 1(1) [OF Cons True pop refl heappop_heap [OF 1(2) pop] x 1(4) _ 1(6)] show ?thesis
        using Cons True pop by (subst drop_stale.simps) simp
    qed (use 1(5) Cons in \<open>subst drop_stale.simps, simp\<close>)
  qed (use 1(5) in simp)
qed

lemma drop_stale_subset: "set (drop_stale r h) \<subseteq> set h"
proof (induction r h rule: drop_stale.induct)
  case (1 r h)
  show ?case
  proof (cases h)
    case (Cons y ys)
    then obtain z h' where "heappop h = Some (z, h')" by (cases "heappop h") auto
    with 1 [OF Cons _ this refl] set_heappop [OF this] Cons show ?thesis by (subst drop_stale.simps) auto
  qed (simp add: drop_stale.simps)
qed

text \<open>Expiry pops no entry that is later than its reading, and leaves an object alone that has no other.\<close>

lemma expire_keeps_later:
  assumes "now < fst e"
  shows "e \<in> set (r_deadlines r) \<Longrightarrow> e \<in> set (r_deadlines (expire_loop ios now n r))"
proof (induction n arbitrary: r)
  case (Suc n)
  show ?case
  proof (cases "heappop (r_deadlines r)")
    case (Some x)
    obtain d gen cid h where x: "x = ((d, gen, cid), h)" by (cases x) auto
    note pop = Some [unfolded x]
    have e: "e \<in> set h" if "\<not> now < d" using set_heappop [OF pop] Suc.prems assms that by auto
    show ?thesis
      using pop Suc e Suc.IH [of "r\<lparr>r_deadlines := h\<rparr>"]
        Suc.IH [of "put_session cid (handle_timeout (ios cid) (session_of r cid)) (r\<lparr>r_deadlines := h\<rparr>)"]
      by (simp add: Let_def put_session_def)
  qed (use Suc.prems in simp)
qed simp

lemma expire_leaves:
  "\<forall>(d, gen, c) \<in> set (r_deadlines r). c = cid \<longrightarrow> now < d \<Longrightarrow> r_objs (expire_loop ios now n r) cid = r_objs r cid"
proof (induction n arbitrary: r)
  case (Suc n)
  show ?case
  proof (cases "heappop (r_deadlines r)")
    case (Some x)
    obtain d gen c h where x: "x = ((d, gen, c), h)" by (cases x) auto
    note pop = Some [unfolded x]
    have h: "\<forall>(d, gen, c) \<in> set h. c = cid \<longrightarrow> now < d" and c: "\<not> now < d \<Longrightarrow> c \<noteq> cid"
      using set_heappop [OF pop] Suc.prems by auto
    show ?thesis
      using pop c h Suc.IH [of "r\<lparr>r_deadlines := h\<rparr>"]
        Suc.IH [of "put_session c (handle_timeout (ios c) (session_of r c)) (r\<lparr>r_deadlines := h\<rparr>)"]
      by (auto simp: Let_def put_session_def)
  qed simp
qed simp

text \<open>An object that is done stays as it is, and one with a due entry of its generation is timed out.\<close>

lemma expire_done: "state (r_objs r cid) = DONE \<Longrightarrow> r_objs (expire_loop ios now n r) cid = r_objs r cid"
proof (induction n arbitrary: r)
  case (Suc n)
  show ?case
  proof (cases "heappop (r_deadlines r)")
    case (Some x)
    obtain d gen c h where x: "x = ((d, gen, c), h)" by (cases x) auto
    note pop = Some [unfolded x]
    have "stale_entry r (d, gen, c)" if "c = cid" using Suc.prems that by (simp add: stale_entry_def)
    then show ?thesis
      using pop Suc.prems Suc.IH [of "r\<lparr>r_deadlines := h\<rparr>"]
        Suc.IH [of "put_session c (handle_timeout (ios c) (session_of r c)) (r\<lparr>r_deadlines := h\<rparr>)"]
      by (auto simp: Let_def put_session_def)
  qed simp
qed simp

lemma stale_elsewhere:
  "c \<noteq> cid \<Longrightarrow> stale_entry (put_session c s r) (d, gen, cid) = stale_entry r (d, gen, cid)"
  by (simp add: stale_entry_def put_session_def)

lemma expire_due:
  assumes "d \<le> now"
  shows "is_heap (r_deadlines r) \<Longrightarrow> (d, gen, cid) \<in> set (r_deadlines r) \<Longrightarrow> \<not> stale_entry r (d, gen, cid) \<Longrightarrow>
    length (r_deadlines r) \<le> n \<Longrightarrow>
    \<exists>w. r_objs (expire_loop ios now n r) cid = fst (handle_timeout (ios cid) (r_objs r cid, w))"
proof (induction n arbitrary: r)
  case (Suc n)
  obtain d' gen' c h where pop: "heappop (r_deadlines r) = Some ((d', gen', c), h)"
    using Suc.prems(2) by (cases "heappop (r_deadlines r)") auto
  have due: "\<not> now < d'"
    using heappop_least [OF Suc.prems(1) pop Suc.prems(2)] assms by (auto simp: less_eq_prod_def)
  have heap: "is_heap h" "length h \<le> n"
    using heappop_heap [OF Suc.prems(1) pop] heappop_length [OF pop] Suc.prems(4) by simp_all
  let ?r = "r\<lparr>r_deadlines := h\<rparr>" let ?t = "put_session c (handle_timeout (ios c) (session_of r c)) ?r"
  have mem: "(d', gen', c) \<noteq> (d, gen, cid) \<Longrightarrow> (d, gen, cid) \<in> set h" using set_heappop [OF pop] Suc.prems(2) by auto
  show ?case
  proof (cases "stale_entry r (d', gen', c)")
    case True
    then have "(d, gen, cid) \<in> set h" using mem Suc.prems(3) by auto
    with Suc.IH [of ?r] Suc.prems(3) heap pop due True show ?thesis by (simp add: Let_def)
  next
    case False
    have run: "expire_loop ios now (Suc n) r = expire_loop ios now n ?t" using pop due False by (simp add: Let_def)
    show ?thesis
    proof (cases "c = cid")
      case True
      have "r_objs ?t cid = fst (handle_timeout (ios cid) (r_objs r cid, r_world r))"
        by (simp add: True put_session_def session_of_def)
      with expire_done [of ?t cid ios now n] show ?thesis unfolding run by auto
    next
      case False
      then have "(d, gen, cid) \<in> set h" using mem by auto
      with Suc.IH [of ?t] Suc.prems(3) heap stale_elsewhere [OF False, of _ ?r] False show ?thesis
        unfolding run by (auto simp: put_session_def)
    qed
  qed
qed simp

section \<open>The round that reuses an identity\<close>

lemma accept_one_fields:
  assumes "accept_one (addr, hint) r = Returned t" and "hint \<notin> references r"
  shows "r_objs t hint = fst (new_connection (w_next_sock (r_world r)) addr (snd (new_socket (r_world r))))"
    and "\<exists>fd. (fd, hint) \<in> set (r_connections t)"
    and "set (r_deadlines t) = insert (deadline (r_objs t hint), 1, hint) (set (r_deadlines r))"
    and "w_clock (r_world t) = w_clock (r_world r)" and "w_reads (r_world t) = w_reads (r_world r) + 2"
proof -
  obtain fd sel where t: "t = schedule_deadline hint ((set_selector sel (put_session hint (new_connection
      (w_next_sock (r_world r)) addr (snd (new_socket (r_world r)))) r))\<lparr>r_connections := AList.update fd hint (r_connections r)\<rparr>)"
    using assms by (auto simp: accept_one_def new_identity_def Let_def case_prod_unfold put_session_def set_selector_def
        new_socket_def split: attempt.splits)
  have "(fd, hint) \<in> set (AList.update fd hint (r_connections r))"
    by (rule map_of_SomeD) (simp add: AList.update_conv')
  then show "r_objs t hint = fst (new_connection (w_next_sock (r_world r)) addr (snd (new_socket (r_world r))))"
    "\<exists>fd. (fd, hint) \<in> set (r_connections t)"
    "set (r_deadlines t) = insert (deadline (r_objs t hint), 1, hint) (set (r_deadlines r))"
    "w_clock (r_world t) = w_clock (r_world r)" "w_reads (r_world t) = w_reads (r_world r) + 2"
    by (auto simp: t schedule_deadline_def Let_def put_session_def set_selector_def new_connection_fields new_socket_def)
qed

lemma new_connection_addr: "client_addr (fst (new_connection s addr w)) = addr"
  by (auto simp: new_connection_def monotonic_def refresh_deadline.simps Let_def split: option.splits)

lemma reap_fields:
  assumes "distinct (map fst (r_connections r))"
  shows "r_objs (reap r) = r_objs r" "r_deadlines (reap r) = r_deadlines r"
    "w_clock (r_world (reap r)) = w_clock (r_world r)"
  using reap_spec(1) [OF assms] by (simp_all add: reaped_def)

text \<open>A client accepted alone in a round, on the identity of an object that is gone.\<close>

lemma reused_round:
  assumes "timers_ok r" and "select_ready (io_ready rio) (r_selector r) = [(key, m)]" and "key_data key = Accept"
    and "io_accepts rio 0 = [(addr, cid)]" and "loop_round rio r = Some (Returned r')" and "cid \<notin> references r"
    and entry: "(d, 1, cid) \<in> set (r_deadlines r)" "\<forall>(d', gen, c) \<in> set (r_deadlines r). c = cid \<longrightarrow> d \<le> d'"
    and other: "x \<in> set (r_deadlines r)" "\<not> stale_entry r x" "x < (d, 1, cid)"
    and early: "w_clock (r_world r) (w_reads (r_world r) + 3) < d"
      "d \<le> w_clock (r_world r) (w_reads (r_world r) + 2) + CLIENT_IDLE_TIMEOUT"
  shows "timers_ok r' \<and> w_clock (r_world r') = w_clock (r_world r) \<and> (d, 1, cid) \<in> set (r_deadlines r') \<and>
    (\<exists>fd. (fd, cid) \<in> set (r_connections r')) \<and> client_addr (r_objs r' cid) = addr \<and>
    state (r_objs r' cid) = READING_REQUEST \<and> deadline_gen (r_objs r' cid) = 1 \<and>
    deadline (r_objs r' cid) = w_clock (r_world r) (w_reads (r_world r) + 2) + CLIENT_IDLE_TIMEOUT"
proof -
  let ?s = "set_marks (marks_before rio 0) (round_start rio r)"
  have s: "w_clock (r_world ?s) = w_clock (r_world r)" "w_reads (r_world ?s) = Suc (w_reads (r_world r))"
      "r_deadlines ?s = drop_stale r (r_deadlines r)"
    by (simp_all add: monotonic_def)
  have "events_conns [(key, m)] = []" using assms(3) by (simp add: events_conns_def List.map_filter_def)
  then have "references ?s \<subseteq> references r" using assms(2) by (auto simp: references_def)
  with assms(6) have fresh: "cid \<notin> references ?s" by blast
  obtain t where t: "handle_events rio 0 [(key, m)] (round_start rio r) = Some (Returned t)"
      "r' = reap (expire_timeouts (io_expired rio) t)"
    using round_cases [OF assms(5)] assms(2) by metis
  then obtain u where u: "accept_one (addr, cid) ?s = Returned u" "t = set_marks (concat (drop 1 (io_marks rio))) u"
    using assms(3,4) by (cases "accept_one (addr, cid) ?s") auto
  note acc = accept_one_fields [OF u(1) fresh]
  have "timers_ok t" using timers_events [OF timers_start [OF assms(1)] t(1)] by simp
  define e where "e = expire_loop (io_expired rio) (w_clock (r_world t) (w_reads (r_world t))) (length (r_deadlines t))
    (t\<lparr>r_world := snd (monotonic (r_world t))\<rparr>)"
  have exp: "expire_timeouts (io_expired rio) t = e" by (simp add: expire_timeouts_def e_def Let_def monotonic_def)
  note spec = expire_spec [OF \<open>timers_ok t\<close>, of "io_expired rio", unfolded exp]
  have now: "w_clock (r_world t) (w_reads (r_world t)) = w_clock (r_world r) (w_reads (r_world r) + 3)"
    using acc s u(2) by (simp add: numeral_3_eq_3)
  have "(d, 1, cid) \<in> set (drop_stale r (r_deadlines r))"
    by (rule drop_stale_later [OF _ other(1,2) entry(1) other(3)]) (use assms(1) in \<open>simp add: timers_but_def\<close>)
  then have "(d, 1, cid) \<in> set (r_deadlines t)" using acc(3) u(2) s(3) by simp
  then have kept: "(d, 1, cid) \<in> set (r_deadlines e)"
    unfolding e_def by (intro expire_keeps_later) (use now early in simp_all)
  have own: "deadline (r_objs u cid) = w_clock (r_world r) (w_reads (r_world r) + 2) + CLIENT_IDLE_TIMEOUT"
    using s unfolding acc(1) by (simp add: new_connection_fields new_socket_def monotonic_def)
  have "set (drop_stale r (r_deadlines r)) \<subseteq> set (r_deadlines r)" by (rule drop_stale_subset)
  then have "\<forall>(d', gen, c) \<in> set (r_deadlines t). c = cid \<longrightarrow> w_clock (r_world r) (w_reads (r_world r) + 3) < d'"
    using entry(2) early acc(3) u(2) s(3) own by force
  then have obj: "r_objs e cid = r_objs u cid"
    unfolding e_def using u(2) now by (subst expire_leaves) simp_all
  have d: "distinct (map fst (r_connections e))" using spec by (simp add: timers_but_def)
  note reap = reap_fields [OF d] reap_spec(2) [OF d]
  have "w_clock (r_world e) = w_clock (r_world r)" "r_connections e = r_connections u"
    using spec acc(4) s(1) u(2) by (simp_all add: only_ends_def)
  moreover have "client_addr (r_objs u cid) = addr" "state (r_objs u cid) = READING_REQUEST" "deadline_gen (r_objs u cid) = 1"
    unfolding acc(1) by (simp_all add: new_connection_fields new_connection_addr)
  ultimately show ?thesis
    using timers_reap [of e] spec kept obj own acc(2) reap unfolding t(2) exp by fastforce
qed

text \<open>A round in which nothing arrives, once the entry of the old object is due.\<close>

lemma reused_expires:
  assumes "timers_ok r" and "io_ready rio = []" and "loop_round rio r = Some (Returned r')"
    and "(d, 1, cid) \<in> set (r_deadlines r)" and "(fd, cid) \<in> set (r_connections r)"
    and "state (r_objs r cid) = READING_REQUEST" and "deadline_gen (r_objs r cid) = 1"
    and due: "d \<le> w_clock (r_world r) (Suc (w_reads (r_world r)))"
  shows "\<exists>io w. r_objs r' cid = fst (handle_timeout io (r_objs r cid, w)) \<and> cid \<notin> snd ` set (r_connections r')"
proof -
  let ?t = "set_marks (concat (io_marks rio)) (round_start rio r)"
  have t: "timers_ok ?t" by (rule timers_marks [OF timers_start [OF assms(1)]])
  have r': "r' = reap (expire_timeouts (io_expired rio) ?t)"
    using assms(2,3) by (simp add: loop_round_eq select_ready_def List.map_filter_def)
  define e where "e = expire_timeouts (io_expired rio) ?t"
  have live: "\<not> stale_entry r (d, 1, cid)"
    using timersD [OF assms(1,5)] assms(6,7) by (simp add: timed_def stale_entry_def)
  then have "(d, 1, cid) \<in> set (r_deadlines ?t)"
    using drop_stale_spec [of "r_deadlines r" r] assms(1,4) by (auto simp: timers_but_def)
  moreover have "\<not> stale_entry ?t (d, 1, cid)" using live by (simp add: stale_entry_def)
  moreover have "d \<le> w_clock (r_world ?t) (w_reads (r_world ?t))" using due by (simp add: monotonic_def)
  ultimately have "\<exists>w. r_objs e cid = fst (handle_timeout (io_expired rio cid) (r_objs ?t cid, w))"
    using expire_due [of d _ "?t\<lparr>r_world := snd (monotonic (r_world ?t))\<rparr>" 1 cid "length (r_deadlines ?t)"
        "io_expired rio"] t
    by (simp add: e_def expire_timeouts_def Let_def monotonic_def timers_but_def stale_entry_def)
  then obtain w where w: "r_objs e cid = fst (handle_timeout (io_expired rio cid) (r_objs r cid, w))" by auto
  then have ended: "state (r_objs e cid) = DONE" by simp
  have d: "distinct (map fst (r_connections e))" using expire_spec [OF t] by (simp add: timers_but_def e_def)
  have "cid \<notin> snd ` set (r_connections r')" using ended by (auto simp: r' e_def [symmetric] reap_spec(2) [OF d])
  with w reap_fields(1) [OF d] show ?thesis unfolding r' e_def [symmetric] by metis
qed

lemma timeout_of_reader:
  assumes "state c = READING_REQUEST"
  shows "client_addr (fst (handle_timeout io (c, w))) = client_addr c"
    "deadline (fst (handle_timeout io (c, w))) = deadline c"
    "response_status (fst (handle_timeout io (c, w))) = Some 408" "state (fst (handle_timeout io (c, w))) = DONE"
proof -
  have same: "client_addr (fst (notify_disconnect s)) = client_addr (fst s)"
      "deadline (fst (notify_disconnect s)) = deadline (fst s)"
      "response_status (fst (notify_disconnect s)) = response_status (fst s)"
      "fst (log_request s) = fst s" "client_addr (fst (send_page io page s)) = client_addr (fst s)"
      "deadline (fst (send_page io page s)) = deadline (fst s)" for s page
    by (cases s; cases "backend_addr (fst s)"; cases "io_sendall io"; simp add: Let_def case_prod_unfold)+
  show "client_addr (fst (handle_timeout io (c, w))) = client_addr c"
    "deadline (fst (handle_timeout io (c, w))) = deadline c"
    "response_status (fst (handle_timeout io (c, w))) = Some 408" "state (fst (handle_timeout io (c, w))) = DONE"
    using assms by (simp_all add: handle_timeout_def send_error_def finish_def same del: send_page.simps)
qed


text \<open>Two clients, of which the second leaves; the request of the first one then takes the loop's variable.\<close>

definition reuse_clock :: "nat \<Rightarrow> real" where
  "reuse_clock n = (if n < 12 then 0 else if n < 16 then 4 else 30)"

definition reuse_reactor :: reactor where
  "reuse_reactor = final (listen True False True
     (initial_reactor (LC (lc_init [(''b'', 1), (''c'', 2), (''d'', 3)])) reuse_clock (\<lambda>s. int s + 3)))"

definition reuse_rounds :: "round_io list" where
  "reuse_rounds = [arriving [((''10.0.0.5'', 4000), 6), ((''10.0.0.5'', 4001), 7)], closing_on 5, asking_on 4]"

lemma reuse_serving:
  assumes "loop reuse_rounds reuse_reactor = Some (Returned r)"
  shows "serving (LC (lc_init [(''b'', 1), (''c'', 2), (''d'', 3)])) reuse_clock (\<lambda>s. int s + 3) r"
proof -
  have "listen True False True (initial_reactor (LC (lc_init [(''b'', 1), (''c'', 2), (''d'', 3)])) reuse_clock (\<lambda>s. int s + 3)) =
      Returned reuse_reactor"
    by (simp add: reuse_reactor_def listen_def new_socket_def initial_reactor_def sel_register_def
        fileobj_lookup_def fileno_def r_sockets_def Let_def)
  with assms show ?thesis unfolding serving_def using loop_steps by blast
qed

lemma reuse_run:
  "case loop reuse_rounds reuse_reactor of
     Some (Returned r) \<Rightarrow> w_reads (r_world r) = 12 \<and> r_connections r = [(4, 6)] \<and>
       r_deadlines r = [(5, 3, 6), (30, 1, 7), (30, 1, 6)] \<and> 7 \<notin> references r \<and> state (r_objs r 6) \<noteq> DONE \<and>
       deadline (r_objs r 6) = 5 \<and>
       select_ready [(3, EVENT_READ)] (r_selector r) = [(\<lparr>key_fileobj = 0, key_events = EVENT_READ, key_data = Accept\<rparr>, EVENT_READ)] \<and>
       (case loop_round (arriving [((''10.0.0.6'', 5000), 7)]) r of
          Some (Returned r) \<Rightarrow> w_reads (r_world r) = 16 \<and> (case loop_round quiet r of Some (Returned r) \<Rightarrow> True | _ \<Rightarrow> False)
        | _ \<Rightarrow> False)
   | _ \<Rightarrow> False"
  by code_simp


end
