(* ===== verification/SelectorTable.thy ===== *)
theory SelectorTable
  imports Selector
begin

text \<open>
  The selector when nothing is stale: every registration is of an open socket, under that socket's
  descriptor, and the kernel's interest list is the table. Then the selector is a map from sockets to
  events and data, and its operations are updates of this map.
\<close>

section \<open>The table as a map from sockets\<close>

definition registered :: "'d selector \<Rightarrow> (nat \<times> int \<times> 'd) list" where
  "registered sel = map (\<lambda>(fd, key). (key_fileobj key, key_events key, key_data key)) (sel_keys sel)"

definition regs :: "'d selector \<Rightarrow> nat \<Rightarrow> (int \<times> 'd) option" where
  "regs sel = map_of (registered sel)"

definition key_entry :: "sockets \<Rightarrow> nat \<times> int \<times> 'd \<Rightarrow> int \<times> 'd sel_key" where
  "key_entry k x = (sock_fd k (fst x), \<lparr>key_fileobj = fst x, key_events = fst (snd x), key_data = snd (snd x)\<rparr>)"

definition poll_entry :: "nat \<times> int \<times> 'd \<Rightarrow> nat \<times> int" where
  "poll_entry x = (fst x, fst (snd x))"

text \<open>The kernel gives the sockets in \<open>A\<close>, which are open, descriptors of their own.\<close>

definition descriptors :: "sockets \<Rightarrow> nat set \<Rightarrow> bool" where
  "descriptors k A \<longleftrightarrow> A \<inter> sock_closed k = {} \<and> inj_on (sock_fd k) A \<and> (\<forall>s \<in> A. 0 \<le> sock_fd k s)"

definition tidy :: "sockets \<Rightarrow> nat set \<Rightarrow> 'd selector \<Rightarrow> bool" where
  "tidy k A sel \<longleftrightarrow> distinct (map fst (registered sel)) \<and> fst ` set (registered sel) \<subseteq> A \<and>
     sel_keys sel = map (key_entry k) (registered sel) \<and>
     filter (\<lambda>p. fst p \<notin> sock_closed k) (sel_poll sel) = map poll_entry (registered sel)"

lemma tidyI:
  assumes "sel_keys sel = map (key_entry k) L" and "distinct (map fst L)" and "fst ` set L \<subseteq> A"
    and "filter (\<lambda>p. fst p \<notin> sock_closed k) (sel_poll sel) = map poll_entry L"
  shows "tidy k A sel" "regs sel = map_of L"
proof -
  have "registered sel = L"
    by (simp add: registered_def assms(1) key_entry_def case_prod_unfold comp_def)
  with assms show "tidy k A sel" "regs sel = map_of L" by (simp_all add: tidy_def regs_def)
qed

lemma tidy_mono: "tidy k A sel \<Longrightarrow> A \<subseteq> B \<Longrightarrow> tidy k B sel"
  by (auto simp: tidy_def)

lemma regs_in: "tidy k A sel \<Longrightarrow> regs sel s = Some x \<Longrightarrow> s \<in> A"
  unfolding tidy_def regs_def by (auto dest!: map_of_SomeD intro: rev_image_eqI)

lemma regs_None: "regs sel s = None \<longleftrightarrow> s \<notin> fst ` set (registered sel)"
  by (simp add: regs_def map_of_eq_None_iff)

text \<open>Looking up an open socket.\<close>

lemma map_of_entries:
  assumes "inj_on (sock_fd k) (insert s (fst ` set L))"
  shows "map_of (map (key_entry k) L) (sock_fd k s) =
    map_option (\<lambda>(ev, d). \<lparr>key_fileobj = s, key_events = ev, key_data = d\<rparr>) (map_of L s)"
  using assms
proof (induction L)
  case (Cons x L)
  obtain t ev d where x: "x = (t, ev, d)" by (cases x) auto
  have "sock_fd k t = sock_fd k s \<longleftrightarrow> t = s" using inj_on_eq_iff [OF Cons.prems, of t s] by (simp add: x)
  moreover have "inj_on (sock_fd k) (insert s (fst ` set L))" using Cons.prems by (rule inj_on_subset) auto
  ultimately show ?case using Cons.IH by (auto simp: x key_entry_def)
qed simp

lemma open_lookup:
  assumes "descriptors k A" and "s \<in> A"
  shows "fileobj_lookup k sel s = Some (sock_fd k s)" "fileno k s = sock_fd k s"
  using assms by (auto simp: fileobj_lookup_def fileno_def descriptors_def)

lemma open_key:
  assumes fds: "descriptors k A" and "tidy k A sel" and "s \<in> A"
  shows "map_of (sel_keys sel) (sock_fd k s) =
    map_option (\<lambda>(ev, d). \<lparr>key_fileobj = s, key_events = ev, key_data = d\<rparr>) (regs sel s)"
proof -
  have "inj_on (sock_fd k) (insert s (fst ` set (registered sel)))"
    by (rule inj_on_subset [of _ A]) (use fds assms in \<open>auto simp: descriptors_def tidy_def\<close>)
  from map_of_entries [OF this] assms(2) show ?thesis by (simp add: regs_def tidy_def)
qed

lemma open_polled:
  assumes fds: "descriptors k A" and "tidy k A sel" and "s \<in> A" and "p \<in> set (sel_poll sel)"
  shows "polls_fd k (sock_fd k s) p \<longleftrightarrow> fst p = s"
proof (cases "fst p \<in> sock_closed k")
  case True
  have "0 \<le> sock_fd k s" "s \<notin> sock_closed k" using fds assms(3) by (auto simp: descriptors_def)
  with True show ?thesis by (auto simp: polls_fd_def fileno_def)
next
  case False
  with assms(4) have "p \<in> set (filter (\<lambda>p. fst p \<notin> sock_closed k) (sel_poll sel))" by simp
  then have "p \<in> set (map poll_entry (registered sel))" using assms(2) by (simp only: tidy_def)
  then have "fst p \<in> A" using assms(2) by (auto simp: tidy_def poll_entry_def)
  with fds assms(3) show ?thesis by (auto simp: polls_fd_def fileno_def descriptors_def dest: inj_onD)
qed

lemma polled_registered:
  assumes fds: "descriptors k A" and "tidy k A sel" and "s \<in> A"
  shows "(\<exists>p \<in> set (sel_poll sel). polls_fd k (sock_fd k s) p) \<longleftrightarrow> regs sel s \<noteq> None"
proof -
  have "s \<notin> sock_closed k" using fds assms(3) by (auto simp: descriptors_def)
  then have "(\<exists>p \<in> set (sel_poll sel). fst p = s) \<longleftrightarrow>
      (\<exists>p \<in> set (filter (\<lambda>p. fst p \<notin> sock_closed k) (sel_poll sel)). fst p = s)" by force
  also have "... \<longleftrightarrow> regs sel s \<noteq> None"
    using assms(2) unfolding regs_None by (force simp: tidy_def poll_entry_def)
  finally show ?thesis using open_polled [OF assms] by blast
qed

section \<open>The operations\<close>

lemma register_fresh:
  assumes fds: "descriptors k A" and "tidy k A sel" and "s \<in> A" and "regs sel s = None"
  shows "\<exists>sel'. sel_register k s ev d sel = Fine sel' \<and> tidy k A sel' \<and> regs sel' = (regs sel)(s \<mapsto> (ev, d))"
proof -
  let ?L = "registered sel" and ?x = "(s, ev, d)"
  let ?sel = "sel\<lparr>sel_keys := sel_keys sel @ [key_entry k ?x], sel_poll := sel_poll sel @ [(s, ev)]\<rparr>"
  have s: "0 \<le> sock_fd k s" "s \<notin> sock_closed k" using fds assms(3) by (auto simp: descriptors_def)
  have "sel_register k s ev d sel = Fine ?sel"
    using open_key [OF assms(1-3)] polled_registered [OF assms(1-3)] assms(4) s
    by (simp add: sel_register_def open_lookup [OF assms(1,3)] key_entry_def)
  moreover have "sel_keys ?sel = map (key_entry k) (?L @ [?x])" "distinct (map fst (?L @ [?x]))"
    "fst ` set (?L @ [?x]) \<subseteq> A" "filter (\<lambda>p. fst p \<notin> sock_closed k) (sel_poll ?sel) = map poll_entry (?L @ [?x])"
    using assms s by (auto simp: tidy_def regs_None poll_entry_def)
  note tidyI [OF this]
  moreover have "map_of (?L @ [?x]) = (map_of ?L)(s \<mapsto> (ev, d))"
    using assms(4) by (auto simp: fun_eq_iff map_add_def regs_def split: option.splits)
  ultimately show ?thesis by (auto simp: regs_def)
qed

lemma register_again: "descriptors k A \<Longrightarrow> tidy k A sel \<Longrightarrow> s \<in> A \<Longrightarrow> regs sel s \<noteq> None \<Longrightarrow> sel_register k s ev d sel = Absent sel"
  by (auto simp: sel_register_def open_lookup open_key)

lemma update_entries:
  assumes "inj_on (sock_fd k) (insert s (fst ` set L))"
  shows "AList.update (sock_fd k s) \<lparr>key_fileobj = s, key_events = ev, key_data = d\<rparr> (map (key_entry k) L) =
    map (key_entry k) (AList.update s (ev, d) L)"
  using assms
proof (induction L)
  case (Cons x L)
  have "sock_fd k (fst x) = sock_fd k s \<longleftrightarrow> fst x = s" using inj_on_eq_iff [OF Cons.prems, of "fst x" s] by simp
  moreover have "inj_on (sock_fd k) (insert s (fst ` set L))" using Cons.prems by (rule inj_on_subset) auto
  ultimately show ?case using Cons.IH by (cases x) (auto simp: key_entry_def)
qed (simp add: key_entry_def)

lemma poll_updated:
  "distinct (map fst L) \<Longrightarrow> s \<in> fst ` set L \<Longrightarrow>
    map (\<lambda>p. if fst p = s then (fst p, ev) else p) (map poll_entry L) = map poll_entry (AList.update s (ev, d) L)"
proof (induction L)
  case (Cons x L)
  show ?case
  proof (cases "fst x = s")
    case True
    with Cons.prems(1) have "s \<notin> fst ` set L" by simp
    then have "\<forall>y \<in> set L. fst y \<noteq> s" by blast
    with True show ?thesis by (cases x) (auto simp: poll_entry_def)
  qed (use Cons in \<open>cases x; auto simp: poll_entry_def\<close>)
qed simp

lemma update_keeps:
  "distinct (map fst (AList.update s v L)) = distinct (map fst L)"
  "s \<in> fst ` set L \<Longrightarrow> fst ` set (AList.update s v L) = fst ` set L"
  by (induction L) (auto simp: dom_update)

lemma modify_known:
  assumes fds: "descriptors k A" and "tidy k A sel" and "regs sel s \<noteq> None"
  shows "\<exists>sel'. sel_modify k s ev d sel = Fine sel' \<and> tidy k A sel' \<and> regs sel' = (regs sel)(s \<mapsto> (ev, d))"
proof -
  let ?L = "registered sel"
  obtain ev0 d0 where r: "regs sel s = Some (ev0, d0)" using assms(3) by auto
  have s: "s \<in> A" by (rule regs_in [OF assms(2) r])
  have mem: "s \<in> fst ` set ?L" using assms(3) by (simp add: regs_None)
  define L where "L = AList.update s (ev, d) ?L"
  define keys where "keys = AList.update (sock_fd k s) \<lparr>key_fileobj = s, key_events = ev, key_data = d\<rparr> (sel_keys sel)"
  define poll where "poll = (if ev = ev0 then sel_poll sel
    else map (\<lambda>p. if polls_fd k (sock_fd k s) p then (fst p, ev) else p) (sel_poll sel))"
  have "inj_on (sock_fd k) (insert s (fst ` set ?L))"
    by (rule inj_on_subset [of _ A]) (use fds assms(2) s in \<open>auto simp: descriptors_def tidy_def\<close>)
  from update_entries [OF this] have keys: "keys = map (key_entry k) L"
    using assms(2) by (simp add: keys_def L_def tidy_def)
  have polled: "filter (\<lambda>p. fst p \<notin> sock_closed k) (sel_poll sel) = map poll_entry ?L"
    using assms(2) by (simp only: tidy_def)
  let ?set = "map (\<lambda>p. if fst p = s then (fst p, ev) else p)"
  have move: "filter (\<lambda>p. fst p \<notin> sock_closed k) (?set ps) = ?set (filter (\<lambda>p. fst p \<notin> sock_closed k) ps)" for ps
    by (induction ps) auto
  have "map (\<lambda>p. if polls_fd k (sock_fd k s) p then (fst p, ev) else p) (sel_poll sel) = ?set (sel_poll sel)"
    using open_polled [OF fds assms(2) s] by simp
  then have "filter (\<lambda>p. fst p \<notin> sock_closed k)
      (map (\<lambda>p. if polls_fd k (sock_fd k s) p then (fst p, ev) else p) (sel_poll sel)) = ?set (map poll_entry ?L)"
    by (simp only: move polled)
  also have "... = map poll_entry L"
    unfolding L_def by (rule poll_updated [OF _ mem]) (use assms(2) in \<open>simp add: tidy_def\<close>)
  finally have changed: "filter (\<lambda>p. fst p \<notin> sock_closed k)
      (map (\<lambda>p. if polls_fd k (sock_fd k s) p then (fst p, ev) else p) (sel_poll sel)) = map poll_entry L" .
  have same: "map poll_entry (AList.update s (ev0, d) xs) = map poll_entry xs" if "map_of xs s = Some (ev0, d0)" for xs
    using that by (induction xs) (auto simp: poll_entry_def split: if_splits)
  have poll: "filter (\<lambda>p. fst p \<notin> sock_closed k) poll = map poll_entry L"
    using changed same [of ?L] assms(2) r by (simp add: poll_def regs_def L_def tidy_def)
  have sel: "sel_modify k s ev d sel = Fine (sel\<lparr>sel_keys := keys, sel_poll := poll\<rparr>)"
    using open_key [OF fds assms(2) s] polled_registered [OF fds assms(2) s] r
    by (simp add: sel_modify_def open_lookup [OF fds s] keys_def poll_def)
  have "distinct (map fst L)" "fst ` set L \<subseteq> A"
    using assms(2) mem by (simp_all add: L_def update_keeps tidy_def)
  note L = tidyI [of "sel\<lparr>sel_keys := keys, sel_poll := poll\<rparr>" k L, OF _ this]
  have "map_of L = (regs sel)(s \<mapsto> (ev, d))" by (simp add: L_def update_conv' regs_def)
  with sel L keys poll show ?thesis by simp
qed

lemma unregister_unknown:
  assumes "descriptors k A" and "tidy k A sel" and "s \<in> A" and "regs sel s = None"
  shows "sel_unregister k s sel = Absent sel"
  using open_key [OF assms(1-3)] assms(4) by (simp add: sel_unregister_def open_lookup [OF assms(1,3)])

lemma delete_entries:
  assumes "inj_on (sock_fd k) (insert s (fst ` set L))"
  shows "AList.delete (sock_fd k s) (map (key_entry k) L) = map (key_entry k) (AList.delete s L)"
  using assms
proof (induction L)
  case (Cons x L)
  have "sock_fd k (fst x) = sock_fd k s \<longleftrightarrow> fst x = s" using inj_on_eq_iff [OF Cons.prems, of "fst x" s] by simp
  moreover have "inj_on (sock_fd k) (insert s (fst ` set L))" using Cons.prems by (rule inj_on_subset) auto
  ultimately show ?case using Cons.IH by (cases x) (simp add: key_entry_def)
qed simp

lemma find_entry:
  "s \<in> fst ` set L \<Longrightarrow>
    map_option fst (find (\<lambda>(fd, key). key_fileobj key = s) (map (key_entry k) L)) = Some (sock_fd k s)"
  by (induction L) (auto simp: key_entry_def)

lemma poll_deleted:
  "filter (\<lambda>p. fst p \<noteq> s) (map poll_entry L) = map poll_entry (AList.delete s L)"
proof (induction L)
  case (Cons x L)
  then show ?case by (cases x) (auto simp: poll_entry_def)
qed simp

lemma poll_others: "s \<notin> fst ` set L \<Longrightarrow> filter (\<lambda>p. fst p \<noteq> s) (map poll_entry L) = map poll_entry L"
  by (induction L) (auto simp: poll_entry_def)

lemma deleted_keeps:
  "distinct (map fst L) \<Longrightarrow> distinct (map fst (AList.delete s L))" "fst ` set (AList.delete s L) = fst ` set L - {s}"
  using distinct_delete [of L s] by (auto simp: AList.delete_eq intro!: image_eqI)

text \<open>
  Unregistering a socket that is in the table, whether it is still open or was closed just before: the
  table is tidy for the sockets that are left.
\<close>

lemma unregister_known:
  assumes fds: "descriptors k A" and "tidy k A sel" and "regs sel s \<noteq> None" and k': "k' = k \<or> k' = k\<lparr>sock_closed := insert s (sock_closed k)\<rparr>"
  shows "\<exists>sel'. sel_unregister k' s sel = Fine sel' \<and> tidy k' (A - {s}) sel' \<and> regs sel' = (regs sel)(s := None)"
proof -
  let ?L = "registered sel" let ?fd = "sock_fd k s"
  obtain ev0 d0 where r: "regs sel s = Some (ev0, d0)" using assms(3) by auto
  have s: "s \<in> A" by (rule regs_in [OF assms(2) r])
  then have open_s: "s \<notin> sock_closed k" "0 \<le> ?fd" using fds by (auto simp: descriptors_def)
  have inj: "inj_on (sock_fd k) (insert s (fst ` set ?L))"
    by (rule inj_on_subset [of _ A]) (use fds assms(2) s in \<open>auto simp: descriptors_def tidy_def\<close>)
  have fd': "sock_fd k' = sock_fd k" using k' by auto
  have key: "map_of (sel_keys sel) ?fd \<noteq> None" using open_key [OF fds assms(2) s] r by simp
  have lookup: "fileobj_lookup k' sel s = Some ?fd"
  proof (cases "k' = k")
    case False
    with k' have k': "fileno k' s = - 1" by (auto simp: fileno_def)
    have "s \<in> fst ` set ?L" using assms(3) by (simp add: regs_None)
    from find_entry [OF this, of k] k' assms(2) show ?thesis by (simp add: fileobj_lookup_def tidy_def)
  qed (use open_lookup [OF fds s] in simp)
  define poll where "poll = filter (\<lambda>p. \<not> polls_fd k' ?fd p) (sel_poll sel)"
  have keys: "AList.delete ?fd (sel_keys sel) = map (key_entry k) (AList.delete s ?L)"
    using delete_entries [OF inj] assms(2) by (simp add: tidy_def)
  have "polls_fd k' ?fd p \<and> fst p \<notin> sock_closed k' \<longleftrightarrow> fst p = s \<and> fst p \<notin> sock_closed k'" if "p \<in> set (sel_poll sel)" for p
    using open_polled [OF fds assms(2) s that] k' open_s by (auto simp: polls_fd_def fileno_def split: if_splits)
  then have "filter (\<lambda>p. fst p \<notin> sock_closed k') poll =
      filter (\<lambda>p. fst p \<noteq> s) (filter (\<lambda>p. fst p \<notin> sock_closed k') (sel_poll sel))"
    unfolding poll_def filter_filter by (intro filter_cong) auto
  also have "... = filter (\<lambda>p. fst p \<noteq> s) (filter (\<lambda>p. fst p \<notin> sock_closed k) (sel_poll sel))"
    using k' by (auto intro: filter_cong)
  also have "... = map poll_entry (AList.delete s ?L)"
    using assms(2) poll_deleted [of s ?L] by (simp add: tidy_def)
  finally have poll: "filter (\<lambda>p. fst p \<notin> sock_closed k') poll = map poll_entry (AList.delete s ?L)" .
  let ?sel = "sel\<lparr>sel_keys := AList.delete ?fd (sel_keys sel), sel_poll := poll\<rparr>"
  have "sel_keys ?sel = map (key_entry k') (AList.delete s ?L)" using keys fd' by (simp add: key_entry_def)
  moreover have "distinct (map fst (AList.delete s ?L))" "fst ` set (AList.delete s ?L) \<subseteq> A - {s}"
    using assms(2) by (auto simp: deleted_keeps tidy_def)
  ultimately have "tidy k' (A - {s}) ?sel" "regs ?sel = map_of (AList.delete s ?L)"
    using poll by (intro tidyI; simp)+
  moreover have "sel_unregister k' s sel = Fine ?sel"
    using key by (simp add: sel_unregister_def lookup poll_def)
  ultimately show ?thesis by (auto simp: delete_conv' regs_def)
qed

text \<open>Closing a socket that is not in the table.\<close>

lemma tidy_close:
  assumes "tidy k A sel" and "regs sel s = None"
  shows "tidy (k\<lparr>sock_closed := insert s (sock_closed k)\<rparr>) (A - {s}) sel"
proof -
  have out: "s \<notin> fst ` set (registered sel)" using assms(2) by (simp add: regs_None)
  have "filter (\<lambda>p. fst p \<notin> insert s (sock_closed k)) (sel_poll sel) =
      filter (\<lambda>p. fst p \<noteq> s) (filter (\<lambda>p. fst p \<notin> sock_closed k) (sel_poll sel))"
    by (auto intro: filter_cong)
  also have "... = filter (\<lambda>p. fst p \<noteq> s) (map poll_entry (registered sel))" using assms(1) by (simp only: tidy_def)
  also have "... = map poll_entry (registered sel)" by (rule poll_others [OF out])
  finally show ?thesis using assms(1) out by (auto simp: tidy_def key_entry_def)
qed

text \<open>What the kernel watches.\<close>

lemma tidy_watched:
  assumes "descriptors k A" and "tidy k A sel" and "s \<in> A"
  shows "watched k sel s = map_option fst (regs sel s)"
proof -
  have s: "s \<notin> sock_closed k" using assms(1,3) by (auto simp: descriptors_def)
  have "map_of ps s = map_of (filter (\<lambda>p. fst p \<notin> sock_closed k) ps) s" for ps :: "(nat \<times> int) list"
    using s by (induction ps) auto
  then have "map_of (sel_poll sel) s = map_of (map poll_entry (registered sel)) s"
    using assms(2) unfolding tidy_def by metis
  also have "... = map_option fst (map_of (registered sel) s)"
  proof -
    have "map_of (map poll_entry L) s = map_option fst (map_of L s)" for L :: "(nat \<times> int \<times> 'a) list"
      by (induction L) (auto simp: poll_entry_def)
    then show ?thesis .
  qed
  finally show ?thesis using s by (simp add: watched_def regs_def)
qed

end
