(* ===== verification/SocketMoves.thy ===== *)
theory SocketMoves
  imports Confined
begin

text \<open>
  What a handler does to the sockets of its connection when no attempt to connect fails on the spot: nothing,
  it opens one, or it gives one up and opens at most one. What the reactor does after a handler depends on this
  and on the two states.
\<close>

declare split_paired_All [simp del] split_paired_Ex [simp del]

section \<open>Moves\<close>

definition steady :: "session \<Rightarrow> session \<Rightarrow> bool" where
  "steady s t \<longleftrightarrow> client_sock (fst t) = client_sock (fst s) \<and> backend_sock (fst t) = backend_sock (fst s) \<and>
     pending_backend_unregister (fst t) = pending_backend_unregister (fst s) \<and>
     w_closed (snd t) = w_closed (snd s) \<and> w_next_sock (snd t) = w_next_sock (snd s)"

definition opens :: "session \<Rightarrow> session \<Rightarrow> bool" where
  "opens s t \<longleftrightarrow> client_sock (fst t) = client_sock (fst s) \<and> backend_sock (fst t) = Some (w_next_sock (snd s)) \<and>
     pending_backend_unregister (fst t) = pending_backend_unregister (fst s) \<and>
     w_closed (snd t) = w_closed (snd s) \<and> w_next_sock (snd t) = Suc (w_next_sock (snd s)) \<and>
     state (fst t) \<in> {CONNECTING_TO_BACKEND, FORWARDING_REQUEST}"

definition drops :: "sock \<Rightarrow> session \<Rightarrow> session \<Rightarrow> bool" where
  "drops b s t \<longleftrightarrow> backend_sock (fst s) = Some b \<and> client_sock (fst t) = client_sock (fst s) \<and>
     backend_sock (fst t) = None \<and> pending_backend_unregister (fst t) = Some b \<and>
     w_closed (snd t) = insert b (w_closed (snd s)) \<and> w_next_sock (snd t) = w_next_sock (snd s)"

fun advance :: "conn_state \<Rightarrow> conn_state \<Rightarrow> bool" where
  "advance CONNECTING_TO_BACKEND FORWARDING_REQUEST = True"
| "advance CONNECTING_TO_BACKEND READING_RESPONSE = True"
| "advance FORWARDING_REQUEST READING_RESPONSE = True"
| "advance READING_RESPONSE FORWARDING_RESPONSE = True"
| "advance x y \<longleftrightarrow> y = x \<or> y = DONE"

definition replaced :: "session \<Rightarrow> session \<Rightarrow> bool" where
  "replaced s t \<longleftrightarrow> (\<exists>b u. drops b s u \<and> (steady u t \<and> state (fst t) = DONE \<or> opens u t))"

definition moves :: "session \<Rightarrow> session \<Rightarrow> bool" where
  "moves s t \<longleftrightarrow> steady s t \<and> advance (state (fst s)) (state (fst t)) \<or>
     state (fst s) = READING_REQUEST \<and> opens s t \<or>
     state (fst s) \<in> {CONNECTING_TO_BACKEND, FORWARDING_REQUEST, READING_RESPONSE} \<and> replaced s t"

definition unrefused :: "io \<Rightarrow> bool" where
  "unrefused io \<longleftrightarrow> (\<forall>n. io_connect io n \<in> {Connect_errno 0, Connect_errno EINPROGRESS})"

lemma advance_simps [simp]: "advance x x" "advance x DONE"
  by (cases x; simp)+

section \<open>Steady steps\<close>

lemma steady_refl [simp]: "steady s s"
  by (simp add: steady_def)

lemma steady_trans: "steady s t \<Longrightarrow> steady t u \<Longrightarrow> steady s u"
  by (simp add: steady_def)

lemma steady_drops: "steady s t \<Longrightarrow> drops b t u \<Longrightarrow> drops b s u"
  by (simp add: steady_def drops_def)

lemma steady_replaced: "steady s t \<Longrightarrow> replaced t u \<Longrightarrow> replaced s u"
  unfolding replaced_def using steady_drops by blast

lemma steady_refresh [simp]: "steady s (refresh_deadline t) = steady s t"
  by (cases t) (auto simp: steady_def refresh_deadline.simps monotonic_def split: option.splits)

lemma steady_state [simp]: "steady s (set_state x t) = steady s t"
  by (simp add: steady_def)

lemma steady_notify [simp]: "steady s (notify_disconnect t) = steady s t"
  by (cases t) (auto simp: steady_def router_release_def split: option.splits)

lemma steady_log [simp]: "steady s (log_request t) = steady s t"
  by (cases t) (auto simp: steady_def monotonic_def access_log_def split: option.splits)

lemma steady_finish [simp]: "steady s (finish t) = steady s t"
  by (simp add: finish_def)

lemma steady_page [simp]: "steady s (send_page io page t) = steady s t"
  by (cases t) (auto simp: steady_def transmit_def split: option.splits)

lemma steady_error [simp]: "steady s (send_error io code reason t) = steady s t"
proof -
  have "steady s (apfst (response_status_update (\<lambda>_. x)) u) = steady s u" for x u by (simp add: steady_def)
  then show ?thesis by (simp add: send_error_def)
qed

lemma steady_sent [simp]: "steady s (send_forward b n t) = steady s t"
  by (cases t) (auto simp: steady_def send_forward_def Let_def transmit_def refresh_deadline.simps monotonic_def
      split: option.splits)

lemma steady_relayed [simp]: "steady s (send_relay n t) = steady s t"
  by (cases t) (auto simp: steady_def send_relay_def Let_def transmit_def refresh_deadline.simps monotonic_def
      split: option.splits)

lemma steady_timeout: "steady s (handle_timeout io s)"
  by (simp add: handle_timeout_def)

lemma steady_select: "router_select ex w = (ob, w') \<Longrightarrow> steady s (c, w) \<Longrightarrow> steady s (c, w')"
  by (erule router_selectE) (simp add: steady_def)

text \<open>Updates of fields that do not matter.\<close>

lemma steady_fields:
  "client_sock c = client_sock (fst s) \<Longrightarrow> backend_sock c = backend_sock (fst s) \<Longrightarrow>
    pending_backend_unregister c = pending_backend_unregister (fst s) \<Longrightarrow> steady s (c, snd s)"
  by (simp add: steady_def)

section \<open>Opening and replacing\<close>

lemma initiate_opens:
  assumes "unrefused io"
  shows "\<exists>t. initiate_backend_connect io s = Returned t \<and> opens s t"
proof -
  have b: "steady s (begun s)" "state (fst (begun s)) = CONNECTING_TO_BACKEND" by (simp_all add: begun_def)
  have o: "opens s (open_backend (begun s))"
    using b by (cases "begun s") (simp add: opens_def steady_def new_socket_def)
  have c: "opens s (connected_at_once s)"
    using o steady_refresh [of "open_backend (begun s)" "set_state FORWARDING_REQUEST (open_backend (begun s))"]
    by (auto simp: connected_at_once_def opens_def steady_def)
  from assms have "io_connect io (backend_attempts (fst s)) \<in> {Connect_errno 0, Connect_errno EINPROGRESS}"
    by (simp add: unrefused_def)
  then show ?thesis
    using o c by (subst initiate_backend_connect.simps) (auto simp: begun_def connected_at_once_def EINPROGRESS_def Let_def simp del: open_backend.simps)
qed

lemma drop_drops:
  assumes "backend_sock (fst s) = Some b"
  shows "drops b s (drop_backend s)"
proof -
  have n: "backend_sock (fst (notify_disconnect s)) = Some b" "w_closed (snd (notify_disconnect s)) = w_closed (snd s)"
    "w_next_sock (snd (notify_disconnect s)) = w_next_sock (snd s)" "client_sock (fst (notify_disconnect s)) = client_sock (fst s)"
    using steady_notify [of s s] assms by (simp_all add: steady_def)
  have "backend_sock (note_tried c) = backend_sock c" "client_sock (note_tried c) = client_sock c"
    "pending_backend_unregister (note_tried c) = pending_backend_unregister c" for c
    by (simp_all add: note_tried_def split: option.splits)
  with n assms show ?thesis
    by (cases "notify_disconnect s") (simp add: drops_def drop_backend_def close_socket_def)
qed

lemma fail_replaces:
  assumes "unrefused io" and "backend_sock (fst s) = Some b"
  shows "\<exists>t. fail_backend io s = Returned t \<and> replaced s t"
proof -
  let ?d = "drop_backend s"
  note d = drop_drops [OF assms(2)]
  obtain ob w where sel: "router_select (Some (tried_backends (fst ?d))) (snd ?d) = (ob, w)" by fastforce
  have d': "drops b s (fst ?d, w)"
    using steady_select [OF sel, of ?d "fst ?d"] d by (simp add: steady_def drops_def)
  show ?thesis
  proof (cases "can_retry (fst ?d) \<and> ob \<noteq> None")
    case True
    then obtain b' where "ob = Some b'" by blast
    with True sel have "fail_backend io s = initiate_backend_connect io (retry_reset b' (fst ?d), w)"
      by (subst fail_backend.simps) (simp add: Let_def)
    moreover have "drops b s (retry_reset b' (fst ?d), w)" using d' by (simp add: drops_def retry_reset_def)
    ultimately show ?thesis using initiate_opens [OF assms(1)] unfolding replaced_def by metis
  next
    case False
    then have "fail_backend io s = Returned (send_error io 502 ''Bad Gateway'' (if can_retry (fst ?d) then (fst ?d, w) else ?d))"
      using sel by (subst fail_backend.simps) (cases ob; auto simp: Let_def)
    with d d' show ?thesis unfolding replaced_def
      by (intro exI [of _ "send_error io 502 ''Bad Gateway'' (if can_retry (fst ?d) then (fst ?d, w) else ?d)"])
        (auto intro!: exI [of _ b])
  qed
qed

section \<open>The handlers\<close>

fun made_move :: "session \<Rightarrow> session outcome \<Rightarrow> bool" where
  "made_move s (Returned t) = moves s t"
| "made_move s (Raised t) = steady s t"

lemma moves_steady: "steady s t \<Longrightarrow> advance (state (fst s)) (state (fst t)) \<Longrightarrow> moves s t"
  by (simp add: moves_def)

lemma moves_fail:
  assumes "unrefused io" and "backend_sock (fst t) = Some b" and "steady s t"
    and "state (fst s) \<in> {CONNECTING_TO_BACKEND, FORWARDING_REQUEST, READING_RESPONSE}"
  shows "made_move s (fail_backend io t)"
  using fail_replaces [OF assms(1,2)] steady_replaced [OF assms(3)] assms(4) by (auto simp: moves_def)

lemma forward_moves:
  assumes "unrefused io" and "state (fst t) = READING_REQUEST" and "steady s t" and "state (fst s) = READING_REQUEST"
  shows "made_move s (forward_request io req t)"
proof -
  obtain c w where t: "t = (c, w)" by (cases t)
  let ?req = "inject_forwarded_for req (fst (client_addr c))"
  let ?c = "c\<lparr>parsed_request := Some ?req, forward_buf := serialise_request ?req, forward_offset := 0\<rparr>"
  obtain ob w' where sel: "router_select None w = (ob, w')" by fastforce
  have c: "steady s (?c, w')"
    using steady_select [OF sel, of s ?c] assms(3) by (simp add: t steady_def)
  show ?thesis
  proof (cases ob)
    case None
    with sel c assms(4) show ?thesis by (simp add: t forward_request.simps Let_def moves_steady)
  next
    case (Some b)
    let ?u = "(?c\<lparr>backend_addr := Some b, backend_attempts := 1, disconnect_notified := False\<rparr>, w')"
    obtain v where v: "initiate_backend_connect io ?u = Returned v" "opens ?u v"
      using initiate_opens [OF assms(1)] by blast
    then have "opens s v" using c by (simp add: opens_def steady_def)
    with v(1) sel Some assms(4) show ?thesis by (simp add: t forward_request.simps Let_def moves_def)
  qed
qed

lemma client_readable_moves:
  assumes "unrefused io"
  shows "made_move s (handle_client_readable io s)"
proof -
  obtain c w where s: "s = (c, w)" by (cases s)
  show ?thesis
  proof (cases "state c = READING_REQUEST")
    case True
    note st = this
    show ?thesis
    proof (cases "io_recv io")
      case (Received data)
      let ?t = "refresh_deadline (c\<lparr>request_buf := request_buf c @ recv_data CLIENT_RECV_SIZE data\<rparr>, w)"
      have t: "steady s ?t" "state (fst ?t) = READING_REQUEST" using st by (simp_all add: s) (simp add: steady_def)
      have "advance (state (fst s)) READING_REQUEST" using st by (simp add: s)
      with t have "moves s ?t" "moves s (send_error io 413 ''Request Entity Too Large'' ?t)"
        "moves s (c\<lparr>state := DONE\<rparr>, w)"
        by (simp_all add: moves_steady s) (simp add: moves_def steady_def)
      with forward_moves [OF assms t(2,1)] st Received show ?thesis
        by (auto simp: s Let_def case_prod_unfold split: option.splits)
    qed (use st in \<open>simp_all add: s moves_steady steady_def\<close>)
  qed (simp add: s moves_steady)
qed

lemma forward_some_moves:
  assumes "unrefused io" and "backend_sock (fst t) = Some b" and "steady s t" and "state (fst t) = FORWARDING_REQUEST"
    and "state (fst s) \<in> {CONNECTING_TO_BACKEND, FORWARDING_REQUEST}"
  shows "made_move s (forward_some io t)"
proof (cases "io_send io")
  case (Sent n)
  have "advance (state (fst s)) FORWARDING_REQUEST" "advance (state (fst s)) READING_RESPONSE" using assms(5) by auto
  with assms(2-4) Sent show ?thesis by (simp add: forward_some_def Let_def moves_steady)
next
  case Send_blocked
  with assms(2-5) show ?thesis by (auto simp: forward_some_def moves_steady)
next
  case Send_failed
  with assms moves_fail [OF assms(1-3)] show ?thesis by (auto simp: forward_some_def)
qed

lemma backend_writable_moves:
  assumes "unrefused io" and "phase_ok s"
  shows "made_move s (handle_backend_writable io s)"
proof -
  obtain c w where s: "s = (c, w)" by (cases s)
  show ?thesis
  proof (cases "state c \<in> {CONNECTING_TO_BACKEND, FORWARDING_REQUEST}")
    case True
    then obtain b where b: "backend_sock c = Some b" using phaseD(2) [OF assms(2)] by (auto simp: s linked_def)
    let ?t = "refresh_deadline (c\<lparr>state := FORWARDING_REQUEST\<rparr>, w)"
    have "steady s ?t" "backend_sock (fst ?t) = Some b" "state (fst ?t) = FORWARDING_REQUEST"
      using b by (simp_all add: s) (simp add: steady_def)
    from forward_some_moves [OF assms(1) this(2,1,3)] forward_some_moves [OF assms(1), of s b s]
      moves_fail [OF assms(1), of s b s] b True
    show ?thesis by (cases "io_sockopt io") (auto simp: s steady_def)
  next
    case False
    then show ?thesis by (auto simp: s moves_steady)
  qed
qed

lemma backend_readable_moves:
  assumes "unrefused io" and "phase_ok s" and "handle_backend_readable io s = Some r"
  shows "made_move s r"
proof -
  obtain c w where s: "s = (c, w)" by (cases s)
  show ?thesis
  proof (cases "state c = READING_RESPONSE")
    case True
    then obtain b where b: "backend_sock c = Some b" using phaseD(2) [OF assms(2)] by (auto simp: s linked_def)
    note fail = moves_fail [OF assms(1), of s b s]
    have relay: "moves s (prepare_relay (d, v))" if "steady s (d, v)" for d v
      using that True by (simp add: s moves_def) (simp add: steady_def)
    show ?thesis
    proof (cases "io_recv io")
      case (Received data)
      let ?d = "recv_data BACKEND_RECV_SIZE data"
      let ?t = "refresh_deadline (c\<lparr>response_buf := response_buf c @ ?d\<rparr>, w)"
      let ?n = "note_headers (note_status (fst ?t))"
      have n: "steady s (?n, snd ?t)" "state ?n = READING_RESPONSE"
        using steady_refresh [of s "(c\<lparr>response_buf := response_buf c @ ?d\<rparr>, w)"] True
        by (simp_all add: s steady_def)
      have "moves s u" if "check_complete (?n, snd ?t) = Some u" for u
        using that n True relay [of "?n\<lparr>response_buf := x\<rparr>" for x] relay [of "?n\<lparr>response_body_received := x\<rparr>" for x]
        by (auto simp: Let_def s moves_steady steady_def simp del: prepare_relay.simps split: if_splits option.splits)
      moreover have "made_move s r'" if "backend_closed io (c, w) = Some r'" for r'
        using that fail relay [of c w] b True
        by (auto simp: Let_def s simp del: prepare_relay.simps split: if_splits option.splits)
      ultimately show ?thesis using assms(3) b True Received
        by (auto simp: s Let_def case_prod_unfold simp del: check_complete.simps backend_closed.simps split: if_splits)
    qed (use assms(3) b True fail in \<open>auto simp: s moves_steady\<close>)
  qed (use assms(3) in \<open>auto simp: s moves_steady\<close>)
qed

lemma client_writable_moves: "made_move s (handle_client_writable io s)"
proof (cases "state (fst s) = FORWARDING_RESPONSE")
  case True
  then have "advance (state (fst s)) (state (fst s))" by simp
  with True show ?thesis by (auto simp: handle_client_writable_def Let_def moves_steady split: send_result.splits)
qed (simp add: handle_client_writable_def moves_steady)

theorem handle_moves:
  assumes "unrefused io" and "phase_ok s" and "handle ev io s = Some r"
  shows "made_move s r"
proof (cases ev)
  case Expired
  have "state (fst (handle_timeout io s)) = DONE" by (simp add: handle_timeout_def)
  with Expired assms(3) steady_timeout [of s io] show ?thesis by (auto intro!: moves_steady)
qed (use assms client_readable_moves [of io s] client_writable_moves [of s io] backend_writable_moves [of io s]
    backend_readable_moves [of io s r] in
  \<open>auto simp del: handle_client_readable.simps handle_backend_readable.simps handle_backend_writable.simps\<close>)

end
