(* ===== verification/ReactorWatch.thy ===== *)
theory ReactorWatch
  imports ReactorTimers SelectorTable SocketMoves
begin

text \<open>
  That no wake-up is lost: as long as the kernel numbers the open sockets apart and no attempt to
  connect fails on the spot, the selector is tidy, and for every live connection the kernel watches the
  socket its state waits for, for the event it waits for.
\<close>

section \<open>The invariant\<close>

definition open_socks :: "reactor \<Rightarrow> sock set" where
  "open_socks r = {..<w_next_sock (r_world r)} - w_closed (r_world r)"

definition lawful :: "reactor \<Rightarrow> bool" where
  "lawful r \<longleftrightarrow> descriptors (r_sockets r) (open_socks r)"

definition cids :: "reactor \<Rightarrow> cid set" where
  "cids r = snd ` set (r_connections r)"

text \<open>The events each socket of a live connection is registered for.\<close>

definition interest :: "proxy_connection \<Rightarrow> sock \<Rightarrow> int option" where
  "interest c s =
     (if s = client_sock c then Some (if state c = FORWARDING_RESPONSE then EVENT_WRITE else EVENT_READ)
      else if backend_sock c \<noteq> Some s then None
      else if state c \<in> {CONNECTING_TO_BACKEND, FORWARDING_REQUEST} then Some EVENT_WRITE
      else if state c = READING_RESPONSE then Some EVENT_READ else None)"

text \<open>One connection of the table, for the open sockets \<open>A\<close> and the registrations \<open>R\<close>.\<close>

definition served :: "sock set \<Rightarrow> (sock \<Rightarrow> (int \<times> key_data) option) \<Rightarrow> cid \<Rightarrow> proxy_connection \<Rightarrow> bool" where
  "served A R cid c \<longleftrightarrow> pending_backend_unregister c = None \<and> backend_sock c \<noteq> Some (client_sock c) \<and> owns c \<subseteq> A \<and>
     (state c \<noteq> DONE \<longrightarrow> (\<forall>s \<in> owns c. R s = map_option (\<lambda>ev. (ev, Conn cid)) (interest c s)))"

definition attends :: "(sock \<Rightarrow> (int \<times> key_data) option) \<Rightarrow> reactor \<Rightarrow> bool" where
  "attends R r \<longleftrightarrow>
     (\<exists>sv. r_server r = Some sv \<and> sv \<in> open_socks r \<and> R sv = Some (EVENT_READ, Accept) \<and>
        (\<forall>cid \<in> cids r. sv \<notin> owns (r_objs r cid)) \<and>
        open_socks r \<subseteq> insert sv (\<Union>cid \<in> cids r. owns (r_objs r cid)) \<and>
        (\<forall>s ev d. R s = Some (ev, d) \<longrightarrow> ev \<in> {EVENT_READ, EVENT_WRITE} \<and>
           (s = sv \<and> d = Accept \<or> (\<exists>cid \<in> cids r. d = Conn cid \<and> s \<in> owns (r_objs r cid))))) \<and>
     distinct (map snd (r_connections r)) \<and> distinct (map fst (r_connections r)) \<and>
     (\<forall>(fd, cid) \<in> set (r_connections r). fd = r_fd r (client_sock (r_objs r cid))) \<and>
     (\<forall>cid \<in> cids r. served (open_socks r) R cid (r_objs r cid)) \<and>
     r_conn_by_id r \<subseteq> cids r \<and> sessions_ok (cids r) r"

definition attended :: "reactor \<Rightarrow> bool" where
  "attended r \<longleftrightarrow> w_closed (r_world r) \<subseteq> {..<w_next_sock (r_world r)} \<and> tidy (r_sockets r) (open_socks r) (r_selector r) \<and> attends (regs (r_selector r)) r"

lemma owns_quiet: "pending_backend_unregister c = None \<Longrightarrow> owns c = insert (client_sock c) (set_option (backend_sock c))"
  by (simp add: owns_def)

text \<open>One connection of the table changes, and with it the registrations of its sockets.\<close>

lemma attends_update:
  assumes "attends R r" and "cid \<in> cids r" and "r_objs r' = (r_objs r)(cid := c)"
    and same: "r_connections r' = r_connections r" "r_conn_by_id r' \<subseteq> insert cid (r_conn_by_id r)" "r_server r' = r_server r" "r_fd r' = r_fd r"
    and ok: "sessions_ok (cids r) r'" and client: "client_sock c = client_sock (r_objs r cid)"
    and own: "\<forall>x \<in> owns c. x \<in> owns (r_objs r cid) \<or> w_next_sock (r_world r) \<le> x"
    and socks: "\<forall>x. x \<notin> owns (r_objs r cid) \<longrightarrow> x \<notin> owns c \<longrightarrow> (x \<in> open_socks r' \<longleftrightarrow> x \<in> open_socks r)"
      "\<forall>x \<in> owns (r_objs r cid). x \<in> open_socks r' \<longrightarrow> x \<in> owns c"
    and regs: "\<forall>x. x \<notin> owns (r_objs r cid) \<longrightarrow> x \<notin> owns c \<longrightarrow> R' x = R x"
      "\<forall>x \<in> owns (r_objs r cid) \<union> owns c. \<forall>ev d. R' x = Some (ev, d) \<longrightarrow> ev \<in> {EVENT_READ, EVENT_WRITE} \<and> d = Conn cid \<and> x \<in> owns c"
    and served: "served (open_socks r') R' cid c"
  shows "attends R' r'"
proof -
  have cids: "cids r' = cids r" using same by (simp add: cids_def)
  obtain sv where sv: "r_server r = Some sv" "sv \<in> open_socks r" "R sv = Some (EVENT_READ, Accept)"
    "\<forall>cid \<in> cids r. sv \<notin> owns (r_objs r cid)" "open_socks r \<subseteq> insert sv (\<Union>cid \<in> cids r. owns (r_objs r cid))"
    "\<forall>s ev d. R s = Some (ev, d) \<longrightarrow> ev \<in> {EVENT_READ, EVENT_WRITE} \<and>
           (s = sv \<and> d = Accept \<or> (\<exists>cid \<in> cids r. d = Conn cid \<and> s \<in> owns (r_objs r cid)))"
    using assms(1) unfolding attends_def by blast
  have sv_out: "sv \<notin> owns (r_objs r cid)" "sv \<notin> owns c" using sv(2,4) own assms(2) by (auto simp: open_socks_def)
  have apart: "owns (r_objs r cid) \<inter> owns (r_objs r d) = {}" "owns c \<inter> owns (r_objs r d) = {}" if "d \<in> cids r" "d \<noteq> cid" for d
  proof -
    show "owns (r_objs r cid) \<inter> owns (r_objs r d) = {}" using assms(1,2) that unfolding attends_def sessions_ok_def by metis
    show "owns c \<inter> owns (r_objs r d) = {}" using ok assms(2,3) that unfolding sessions_ok_def
      by (metis fun_upd_apply)
  qed
  have others: "served (open_socks r') R' d (r_objs r d)" if d: "d \<in> cids r" "d \<noteq> cid" for d
  proof -
    have "x \<notin> owns (r_objs r cid) \<and> x \<notin> owns c" if "x \<in> owns (r_objs r d)" for x using apart [OF d] that by blast
    then have "R' x = R x" "x \<in> open_socks r' \<longleftrightarrow> x \<in> open_socks r" if "x \<in> owns (r_objs r d)" for x
      using that regs(1) socks(1) by blast+
    moreover have "served (open_socks r) R d (r_objs r d)" using assms(1) d(1) by (simp add: attends_def)
    ultimately show ?thesis unfolding served_def by auto
  qed
  have all: "served (open_socks r') R' d (r_objs r' d)" if "d \<in> cids r" for d
    using others [OF that] served assms(3) by (cases "d = cid") simp_all
  have reg: "ev \<in> {EVENT_READ, EVENT_WRITE} \<and> (s = sv \<and> d = Accept \<or> (\<exists>cid \<in> cids r'. d = Conn cid \<and> s \<in> owns (r_objs r' cid)))"
    if "R' s = Some (ev, d)" for s ev d
  proof (cases "s \<in> owns (r_objs r cid) \<union> owns c")
    case True
    with regs(2) that assms(2,3) cids show ?thesis by auto
  next
    case False
    with regs(1) that have "R s = Some (ev, d)" by simp
    from sv(6) [rule_format, OF this] False show ?thesis using assms(3) cids by (metis UnI1 fun_upd_other)
  qed
  have cover: "open_socks r' \<subseteq> insert sv (\<Union>cid \<in> cids r'. owns (r_objs r' cid))"
  proof
    fix x assume x: "x \<in> open_socks r'"
    show "x \<in> insert sv (\<Union>cid \<in> cids r'. owns (r_objs r' cid))"
    proof (cases "x \<in> owns c")
      case True
      with assms(2,3) cids show ?thesis by auto
    next
      case False
      with socks(2) x have out: "x \<notin> owns (r_objs r cid)" by blast
      with False socks(1) x have "x \<in> open_socks r" by blast
      with sv(5) have "x = sv \<or> (\<exists>d \<in> cids r. x \<in> owns (r_objs r d))" by blast
      with out assms(3) cids show ?thesis by (metis UN_I fun_upd_other insertCI)
    qed
  qed
  have "sv \<in> open_socks r'" "R' sv = Some (EVENT_READ, Accept)" using sv(2,3) sv_out socks(1) regs(1) by auto
  moreover have "\<forall>d \<in> cids r'. sv \<notin> owns (r_objs r' d)" using sv(4) sv_out assms(3) cids by auto
  moreover have "\<forall>(fd, d) \<in> set (r_connections r'). fd = r_fd r' (client_sock (r_objs r' d))"
    using assms(1,3) client same by (auto simp: attends_def)
  moreover have "r_conn_by_id r' \<subseteq> cids r'" using assms(1,2) same(2) cids by (auto simp: attends_def)
  ultimately show ?thesis
    using assms(1) same sv(1) cover reg all ok cids unfolding attends_def by auto
qed

section \<open>After a handler\<close>

text \<open>What the selector updates after a handler leave of \<open>r\<close> when the handler has left \<open>t\<close>.\<close>

definition after :: "cid \<Rightarrow> session \<Rightarrow> reactor \<Rightarrow> reactor \<Rightarrow> bool" where
  "after cid t r r' \<longleftrightarrow> r_connections r' = r_connections r \<and> r_conn_by_id r' = r_conn_by_id r \<and>
     r_server r' = r_server r \<and> r_fd r' = r_fd r \<and> r_world r' = snd t \<and>
     r_objs r' = (r_objs r)(cid := (fst t)\<lparr>pending_backend_unregister := None\<rparr>)"

lemma after_cids: "after cid t r r' \<Longrightarrow> cids r' = cids r"
  by (simp add: after_def cids_def)

lemma sockets_simps [simp]:
  "r_sockets (set_selector sel r) = r_sockets r" "open_socks (set_selector sel r) = open_socks r"
  "r_selector (set_selector sel r) = sel" "r_world (set_selector sel r) = r_world r"
  "r_objs (set_selector sel r) = r_objs r" "r_connections (set_selector sel r) = r_connections r"
  "r_conn_by_id (set_selector sel r) = r_conn_by_id r" "r_server (set_selector sel r) = r_server r"
  "r_fd (set_selector sel r) = r_fd r"
  by (simp_all add: r_sockets_def open_socks_def set_selector_def)

lemma put_other [simp]:
  "r_selector (put_session cid t r) = r_selector r" "r_connections (put_session cid t r) = r_connections r"
  "r_conn_by_id (put_session cid t r) = r_conn_by_id r" "r_server (put_session cid t r) = r_server r"
  "r_fd (put_session cid t r) = r_fd r"
  by (simp_all add: put_session_def)

lemma interest_pending [simp]: "interest (c\<lparr>pending_backend_unregister := p\<rparr>) = interest c"
  by (simp add: interest_def fun_eq_iff)

lemma attended_conn:
  assumes "attended r" and "cid \<in> cids r"
  shows "served (open_socks r) (regs (r_selector r)) cid (r_objs r cid)" "phase_ok (session_of r cid)"
    "tidy (r_sockets r) (open_socks r) (r_selector r)" "sessions_ok (cids r) r"
  using assms by (auto simp: attended_def attends_def sessions_ok_def)

text \<open>The registrations of a socket are those of its connection.\<close>

lemma attended_reg:
  assumes "attended r" and "cid \<in> cids r" and "x \<in> owns (r_objs r cid)" and "regs (r_selector r) x = Some (ev, d)"
  shows "ev \<in> {EVENT_READ, EVENT_WRITE}" "d = Conn cid"
proof -
  from assms(1) obtain sv where sv: "\<forall>cid \<in> cids r. sv \<notin> owns (r_objs r cid)"
    "\<forall>s ev d. regs (r_selector r) s = Some (ev, d) \<longrightarrow> ev \<in> {EVENT_READ, EVENT_WRITE} \<and>
           (s = sv \<and> d = Accept \<or> (\<exists>cid \<in> cids r. d = Conn cid \<and> s \<in> owns (r_objs r cid)))"
    unfolding attended_def attends_def by blast
  from sv(2) [rule_format, OF assms(4)] sv(1) assms(2,3) obtain e where
    e: "ev \<in> {EVENT_READ, EVENT_WRITE}" "e \<in> cids r" "d = Conn e" "x \<in> owns (r_objs r e)" by blast
  then have "e = cid"
    using assms(2,3) attended_conn(4) [OF assms(1,2)] unfolding sessions_ok_def by (metis disjoint_iff)
  with e show "ev \<in> {EVENT_READ, EVENT_WRITE}" "d = Conn cid" by simp_all
qed

lemma steady_session:
  assumes "steady (session_of r cid) t"
  shows "r_sockets (put_session cid t r) = r_sockets r" "open_socks (put_session cid t r) = open_socks r"
    "owns (fst t) = owns (r_objs r cid)" "client_sock (fst t) = client_sock (r_objs r cid)"
    "backend_sock (fst t) = backend_sock (r_objs r cid)"
    "pending_backend_unregister (fst t) = pending_backend_unregister (r_objs r cid)"
  using assms by (simp_all add: steady_def r_sockets_def open_socks_def owns_def)

lemma attended_steady:
  assumes r: "attended r" "cid \<in> cids r" and after: "after cid t r r'" and steady: "steady (session_of r cid) t"
    and ok: "sessions_ok (cids r) r'"
    and tidy: "tidy (r_sockets r) (open_socks r) (r_selector r')"
    and out: "\<forall>x. x \<notin> owns (r_objs r cid) \<longrightarrow> regs (r_selector r') x = regs (r_selector r) x"
    and own: "\<forall>x \<in> owns (r_objs r cid). state (fst t) = DONE \<and> regs (r_selector r') x = regs (r_selector r) x \<or>
      regs (r_selector r') x = map_option (\<lambda>ev. (ev, Conn cid)) (interest (fst t) x)"
  shows "attended r'"
proof -
  let ?c = "(fst t)\<lparr>pending_backend_unregister := None\<rparr>"
  note st = steady_session [OF steady] and conn = attended_conn [OF r]
  have pend: "pending_backend_unregister (r_objs r cid) = None" using conn(1) by (simp add: served_def)
  have owns: "owns ?c = owns (r_objs r cid)" using pend st(3-6) by (simp add: owns_def)
  have socks: "r_sockets r' = r_sockets r" "open_socks r' = open_socks r"
    using after st(1,2) by (simp_all add: after_def r_sockets_def open_socks_def)
  have ev: "ev \<in> {EVENT_READ, EVENT_WRITE}" if "interest c x = Some ev" for c x ev
    using that by (auto simp: interest_def split: if_splits)
  have reg: "ev \<in> {EVENT_READ, EVENT_WRITE} \<and> d = Conn cid" if "x \<in> owns (r_objs r cid)" "regs (r_selector r') x = Some (ev, d)" for x ev d
    using own that attended_reg [OF r that(1)] ev by fastforce
  have "served (open_socks r) (regs (r_selector r')) cid ?c"
    using conn(1) own owns st(4,5) by (auto simp: served_def)
  then have "attends (regs (r_selector r')) r'"
    using after ok r(1) owns socks out reg st(4)
    by (intro attends_update [OF _ r(2), of "regs (r_selector r)" r' ?c]) (auto simp: after_def attended_def)
  moreover have "w_closed (r_world r') \<subseteq> {..<w_next_sock (r_world r')}"
    using r(1) after steady by (simp add: attended_def after_def steady_def)
  ultimately show ?thesis using tidy socks by (simp add: attended_def)
qed

text \<open>The selector operations as the reactor calls them.\<close>

lemma ignoring_modify:
  assumes "lawful r" and "tidy (r_sockets r) (open_socks r) (r_selector r)" and "regs (r_selector r) s \<noteq> None"
  shows "\<exists>sel. ignoring (sel_modify (r_sockets r) s ev d (r_selector r)) r = Returned (set_selector sel r) \<and>
    or_else (sel_modify (r_sockets r) s ev d (r_selector r)) f r = Returned (set_selector sel r) \<and>
    tidy (r_sockets r) (open_socks r) sel \<and> regs sel = (regs (r_selector r))(s \<mapsto> (ev, d))"
  using modify_known [OF _ assms(2,3), of ev d] assms(1) by (auto simp: lawful_def)

lemma ignoring_register:
  assumes "lawful r" and "tidy (r_sockets r) (open_socks r) (r_selector r)" and "s \<in> open_socks r" and "regs (r_selector r) s = None"
  shows "\<exists>sel. ignoring (sel_register (r_sockets r) s ev d (r_selector r)) r = Returned (set_selector sel r) \<and>
    or_else (sel_register (r_sockets r) s ev d (r_selector r)) f r = Returned (set_selector sel r) \<and>
    tidy (r_sockets r) (open_socks r) sel \<and> regs sel = (regs (r_selector r))(s \<mapsto> (ev, d))"
  using register_fresh [OF _ assms(2-4), of ev d] assms(1) by (auto simp: lawful_def)

lemma flush_nothing: "pending_backend_unregister (r_objs r cid) = None \<Longrightarrow> flush_pending_unregister cid r = Returned r"
  by (simp add: flush_pending_unregister_def)

lemma after_put: "after cid t r (put_session cid t r)" if "pending_backend_unregister (fst t) = None"
proof -
  have "(fst t)\<lparr>pending_backend_unregister := None\<rparr> = fst t" using that by (cases "fst t") simp
  then show ?thesis by (simp add: after_def)
qed

lemma after_selector [simp]: "after cid t r (set_selector sel r') = after cid t r r'"
  by (simp add: after_def)

lemma unregister_open:
  assumes "descriptors k A" and "tidy k A sel" and "regs sel s \<noteq> None"
  shows "\<exists>sel'. sel_unregister k s sel = Fine sel' \<and> tidy k A sel' \<and> regs sel' = (regs sel)(s := None)"
  using unregister_known [OF assms, of k] tidy_mono [OF _ Diff_subset] by blast

section \<open>The transition\<close>

definition wakes :: "cid \<Rightarrow> session \<Rightarrow> reactor \<Rightarrow> reactor outcome \<Rightarrow> bool" where
  "wakes cid t r res \<longleftrightarrow> (\<exists>r'. res = Returned r' \<and> after cid t r r' \<and> attended r')"

lemma live_backend:
  assumes "phase_ok s" and "state (fst s) \<in> {CONNECTING_TO_BACKEND, FORWARDING_REQUEST, READING_RESPONSE}"
  shows "\<exists>b. backend_sock (fst s) = Some b \<and> b \<noteq> client_sock (fst s)"
  using phaseD(2) [OF assms] by (auto simp: linked_def)

lemma transition_steady:
  assumes r: "attended r" "cid \<in> cids r" "lawful r" and steady: "steady (session_of r cid) t"
    and adv: "advance (state (r_objs r cid)) (state (fst t))" and ok: "sessions_ok (cids r) (put_session cid t r)"
  shows "wakes cid t r (transition cid (state (r_objs r cid)) (put_session cid t r))"
proof -
  let ?c = "r_objs r cid" let ?r = "put_session cid t r" and ?R = "regs (r_selector r)"
  note st = steady_session [OF steady] and conn = attended_conn [OF r(1,2)]
  have pend: "pending_backend_unregister (fst t) = None" and owns: "owns ?c = insert (client_sock ?c) (set_option (backend_sock ?c))"
    using conn(1) st(6) by (simp_all add: served_def owns_quiet)
  have law: "lawful ?r" "tidy (r_sockets ?r) (open_socks ?r) (r_selector ?r)" using r(3) conn(3) st(1,2) by (simp_all add: lawful_def)
  have trans: "transition cid (state ?c) ?r = (if state (fst t) = state ?c then Returned ?r
      else case (state (fst t), backend_sock ?c) of
             (CONNECTING_TO_BACKEND, Some b) \<Rightarrow>
               ignoring (sel_register (r_sockets ?r) b EVENT_WRITE (Conn cid) (r_selector ?r)) ?r
           | (FORWARDING_REQUEST, Some b) \<Rightarrow>
               or_else (sel_modify (r_sockets ?r) b EVENT_WRITE (Conn cid) (r_selector ?r))
                 (sel_register (r_sockets ?r) b EVENT_WRITE (Conn cid)) ?r
           | (READING_RESPONSE, Some b) \<Rightarrow>
               ignoring (sel_modify (r_sockets ?r) b EVENT_READ (Conn cid) (r_selector ?r)) ?r
           | (FORWARDING_RESPONSE, ob) \<Rightarrow>
               and_then (ignoring (sel_modify (r_sockets ?r) (client_sock ?c) EVENT_WRITE (Conn cid) (r_selector ?r)) ?r)
                 (\<lambda>r. case ob of None \<Rightarrow> Returned r | Some b \<Rightarrow> ignoring (sel_unregister (r_sockets r) b (r_selector r)) r)
           | _ \<Rightarrow> Returned ?r)"
    using pend st(4,5) by (simp add: transition_def Let_def split: conn_state.split option.split)
  have fin: "wakes cid t r (Returned (set_selector sel ?r))"
    if "tidy (r_sockets r) (open_socks r) sel" "\<forall>x. x \<notin> owns ?c \<longrightarrow> regs sel x = ?R x"
      "\<forall>x \<in> owns ?c. state (fst t) = DONE \<and> regs sel x = ?R x \<or>
        regs sel x = map_option (\<lambda>ev. (ev, Conn cid)) (interest (fst t) x)" for sel
  proof -
    have "sessions_ok (cids r) (set_selector sel ?r)" by (rule sessions.same [OF ok]) (simp_all add: set_selector_def)
    moreover have "after cid t r (set_selector sel ?r)" using after_put [OF pend] by simp
    ultimately show ?thesis using attended_steady [OF r(1,2) _ steady, of "set_selector sel ?r"] that by (auto simp: wakes_def)
  qed
  have self: "set_selector (r_selector r) ?r = ?r" by (simp add: set_selector_def put_session_def)
  have live: "?R x = map_option (\<lambda>ev. (ev, Conn cid)) (interest ?c x)" if "state ?c \<noteq> DONE" "x \<in> owns ?c" for x
    using conn(1) that by (simp add: served_def)
  show ?thesis
  proof (cases "state (fst t) = state ?c \<or> state (fst t) = DONE")
    case True
    have "state (fst t) = DONE \<and> ?R x = ?R x \<or> ?R x = map_option (\<lambda>ev. (ev, Conn cid)) (interest (fst t) x)"
      if "x \<in> owns ?c" for x
      using live [OF _ that] True st(4,5) by (cases "state ?c = DONE") (auto simp: interest_def)
    then have "wakes cid t r (Returned ?r)" using fin [of "r_selector r"] conn(3) unfolding self by blast
    with True trans show ?thesis by auto
  next
    case False
    then have change: "(state ?c, state (fst t)) \<in> {(CONNECTING_TO_BACKEND, FORWARDING_REQUEST),
        (CONNECTING_TO_BACKEND, READING_RESPONSE), (FORWARDING_REQUEST, READING_RESPONSE),
        (READING_RESPONSE, FORWARDING_RESPONSE)}"
      using adv by (cases "(state ?c, state (fst t))" rule: advance.cases) auto
    then obtain b where b: "backend_sock ?c = Some b" "b \<noteq> client_sock ?c"
      using live_backend [OF conn(2)] by auto
    have bR: "?R b \<noteq> None" "?R (client_sock ?c) \<noteq> None" "state ?c \<noteq> DONE"
      using live [of b] live [of "client_sock ?c"] b owns change by (auto simp: interest_def)
    show ?thesis
    proof (cases "state (fst t) = FORWARDING_RESPONSE")
      case False
      define ev where "ev = (if state (fst t) = FORWARDING_REQUEST then EVENT_WRITE else EVENT_READ)"
      obtain sel where sel: "ignoring (sel_modify (r_sockets ?r) b ev (Conn cid) (r_selector ?r)) ?r = Returned (set_selector sel ?r)"
        "or_else (sel_modify (r_sockets ?r) b ev (Conn cid) (r_selector ?r))
          (sel_register (r_sockets ?r) b EVENT_WRITE (Conn cid)) ?r = Returned (set_selector sel ?r)"
        "tidy (r_sockets r) (open_socks r) sel" "regs sel = ?R(b \<mapsto> (ev, Conn cid))"
        using ignoring_modify [OF law, of b ev "Conn cid" "sel_register (r_sockets ?r) b EVENT_WRITE (Conn cid)"] bR(1) st(1,2) by auto
      have "wakes cid t r (Returned (set_selector sel ?r))"
      proof (rule fin [OF sel(3)])
        have "interest (fst t) b = Some ev" "interest (fst t) (client_sock ?c) = Some EVENT_READ"
          "interest ?c (client_sock ?c) = Some EVENT_READ"
          using change False st(4,5) b by (auto simp: interest_def ev_def)
        then show "\<forall>x \<in> owns ?c. state (fst t) = DONE \<and> regs sel x = ?R x \<or>
            regs sel x = map_option (\<lambda>ev. (ev, Conn cid)) (interest (fst t) x)"
          using live [OF bR(3), of "client_sock ?c"] b owns by (simp add: sel(4))
      qed (use b owns in \<open>simp add: sel(4)\<close>)
      moreover have "transition cid (state ?c) ?r = Returned (set_selector sel ?r)"
      proof (cases "state (fst t) = FORWARDING_REQUEST")
        case True
        then have "state ?c \<noteq> FORWARDING_REQUEST" "ev = EVENT_WRITE" using change by (auto simp: ev_def)
        with sel(2) True b(1) show ?thesis by (simp add: trans)
      next
        case not_F: False
        then have "state (fst t) = READING_RESPONSE" "state ?c \<noteq> READING_RESPONSE" "ev = EVENT_READ"
          using change False by (auto simp: ev_def)
        with sel(1) b(1) show ?thesis by (simp add: trans)
      qed
      ultimately show ?thesis by simp
    next
      case True
      obtain sel where sel: "ignoring (sel_modify (r_sockets ?r) (client_sock ?c) EVENT_WRITE (Conn cid) (r_selector ?r)) ?r = Returned (set_selector sel ?r)"
        "tidy (r_sockets r) (open_socks r) sel" "regs sel = ?R(client_sock ?c \<mapsto> (EVENT_WRITE, Conn cid))"
        using ignoring_modify [OF law, of "client_sock ?c" EVENT_WRITE "Conn cid"] bR(2) st(1,2) by auto
      obtain sel' where sel': "sel_unregister (r_sockets r) b sel = Fine sel'" "tidy (r_sockets r) (open_socks r) sel'"
        "regs sel' = (regs sel)(b := None)"
        using unregister_open [OF _ sel(2), of b] r(3) sel(3) bR(1) b(2) by (auto simp: lawful_def)
      have "wakes cid t r (Returned (set_selector sel' ?r))"
      proof (rule fin [OF sel'(2)])
        have "interest (fst t) b = None" "interest (fst t) (client_sock ?c) = Some EVENT_WRITE"
          using True st(4,5) b by (auto simp: interest_def)
        then show "\<forall>x \<in> owns ?c. state (fst t) = DONE \<and> regs sel' x = ?R x \<or>
            regs sel' x = map_option (\<lambda>ev. (ev, Conn cid)) (interest (fst t) x)"
          using b owns by (simp add: sel(3) sel'(3))
      qed (use b owns in \<open>simp add: sel(3) sel'(3)\<close>)
      moreover have "transition cid (state ?c) ?r = Returned (set_selector sel' ?r)"
      proof -
        have "state ?c \<noteq> FORWARDING_RESPONSE" using change True by auto
        moreover have "set_selector sel' (set_selector sel ?r) = set_selector sel' ?r" by (simp add: set_selector_def)
        ultimately show ?thesis using sel(1) sel'(1) True b(1) st(1) by (simp add: trans)
      qed
      ultimately show ?thesis by simp
    qed
  qed
qed

lemma opens_session:
  assumes "opens s t" and "pending_backend_unregister (fst s) = None"
  shows "owns (fst t) = {client_sock (fst s), w_next_sock (snd s)}" "pending_backend_unregister (fst t) = None"
    "backend_sock (fst t) = Some (w_next_sock (snd s))" "client_sock (fst t) = client_sock (fst s)"
  using assms by (auto simp: opens_def owns_def)

lemma after_owns: "pending_backend_unregister c = None \<Longrightarrow> owns (c\<lparr>pending_backend_unregister := p\<rparr>) = owns c \<union> set_option p"
  by (auto simp: owns_def)

text \<open>A connection that has been given another backend, or none.\<close>

lemma attended_relinked:
  assumes r: "attended r" "cid \<in> cids r" and after: "after cid t r r'" and ok: "sessions_ok (cids r) r'"
    and st: "state (r_objs r cid) \<in> {READING_REQUEST, CONNECTING_TO_BACKEND, FORWARDING_REQUEST, READING_RESPONSE}"
    and client: "client_sock (fst t) = client_sock (r_objs r cid)"
    and world: "w_next_sock (r_world r) \<le> w_next_sock (snd t)" "w_closed (snd t) = w_closed (r_world r) \<union> set_option (backend_sock (r_objs r cid))"
    and link: "backend_sock (fst t) = Some (w_next_sock (r_world r)) \<and> w_next_sock (snd t) = Suc (w_next_sock (r_world r)) \<and>
        state (fst t) \<in> {CONNECTING_TO_BACKEND, FORWARDING_REQUEST} \<and>
        regs (r_selector r') = (\<lambda>x. if backend_sock (r_objs r cid) = Some x then None else regs (r_selector r) x)
          (w_next_sock (r_world r) \<mapsto> (EVENT_WRITE, Conn cid)) \<or>
      backend_sock (fst t) = None \<and> w_next_sock (snd t) = w_next_sock (r_world r) \<and> state (fst t) = DONE \<and>
        regs (r_selector r') = (\<lambda>x. if backend_sock (r_objs r cid) = Some x then None else regs (r_selector r) x)"
    and tidy: "tidy (r_sockets r') (open_socks r') (r_selector r')"
  shows "attended r'"
proof -
  let ?c = "r_objs r cid" let ?c' = "(fst t)\<lparr>pending_backend_unregister := None\<rparr>"
  let ?n = "w_next_sock (r_world r)" let ?R = "regs (r_selector r)" let ?R' = "regs (r_selector r')"
  note conn = attended_conn [OF r]
  have c: "pending_backend_unregister ?c = None" "backend_sock ?c \<noteq> Some (client_sock ?c)" "owns ?c \<subseteq> open_socks r"
    using conn(1) by (simp_all add: served_def)
  have owns: "owns ?c = insert (client_sock ?c) (set_option (backend_sock ?c))" "owns ?c' = insert (client_sock ?c) (set_option (backend_sock (fst t)))"
    using c(1) client by (simp_all add: owns_def)
  have closed: "w_closed (r_world r) \<subseteq> {..<?n}" using r(1) by (simp add: attended_def)
  have bound: "x < ?n" if "x \<in> owns ?c" for x using c(3) that by (auto simp: open_socks_def)
  have client_R: "?R (client_sock ?c) = Some (EVENT_READ, Conn cid)"
    using conn(1) st owns(1) by (auto simp: served_def interest_def)
  have world': "r_world r' = snd t" "r_objs r' = (r_objs r)(cid := ?c')" using after by (simp_all add: after_def)
  have n_open: "?n \<notin> w_closed (snd t)" using world(2) closed bound owns(1) by auto
  have opens: "open_socks r' = (if backend_sock (fst t) = None then {} else {?n}) \<union> (open_socks r - set_option (backend_sock ?c))"
  proof (cases "backend_sock (fst t)")
    case None
    then have "w_next_sock (snd t) = ?n" using link by simp
    with None show ?thesis by (auto simp: open_socks_def world' world(2))
  next
    case (Some b)
    then have "w_next_sock (snd t) = Suc ?n" using link by simp
    with Some n_open show ?thesis by (auto simp: open_socks_def world' world(2) lessThan_Suc)
  qed
  have ne: "client_sock ?c \<noteq> ?n" using bound [of "client_sock ?c"] owns(1) by simp
  have client_open: "client_sock ?c \<in> open_socks r'" using c(2,3) owns(1) opens by auto
  have sock: "backend_sock (fst t) = None \<or> backend_sock (fst t) = Some ?n" using link by (elim disjE conjE) simp_all
  have R'_eq: "?R' x = (if x = ?n \<and> backend_sock (fst t) \<noteq> None then Some (EVENT_WRITE, Conn cid)
      else if backend_sock ?c = Some x then None else ?R x)" for x
    using link by (elim disjE conjE) simp_all
  have old: "b \<noteq> ?n" if "backend_sock ?c = Some b" for b using bound [of b] owns(1) that by simp
  have R'_client: "?R' (client_sock ?c) = Some (EVENT_READ, Conn cid)" using client_R c(2) ne by (simp add: R'_eq)
  have R'_new: "?R' ?n = Some (EVENT_WRITE, Conn cid)" if "backend_sock (fst t) = Some ?n" using that by (simp add: R'_eq)
  have R'_old: "?R' b = None" if "backend_sock ?c = Some b" for b using that old [OF that] by (simp add: R'_eq)
  have live: "interest ?c' (client_sock ?c) = Some EVENT_READ" "interest ?c' ?n = Some EVENT_WRITE"
    "backend_sock (fst t) = Some ?n" if "state (fst t) \<noteq> DONE"
  proof -
    from link that have "backend_sock (fst t) = Some ?n" "state (fst t) \<in> {CONNECTING_TO_BACKEND, FORWARDING_REQUEST}" by auto
    with client ne show "interest ?c' (client_sock ?c) = Some EVENT_READ" "interest ?c' ?n = Some EVENT_WRITE"
      "backend_sock (fst t) = Some ?n" by (auto simp: interest_def)
  qed
  have "served (open_socks r') ?R' cid ?c'" unfolding served_def
  proof (intro conjI impI ballI)
    show "backend_sock ?c' \<noteq> Some (client_sock ?c')" using sock client ne by auto
    show "owns ?c' \<subseteq> open_socks r'" using client_open opens owns(2) sock by auto
    fix x assume "state ?c' \<noteq> DONE" "x \<in> owns ?c'"
    then have l: "state (fst t) \<noteq> DONE" "x = client_sock ?c \<or> x = ?n" using owns(2) sock by auto
    from l(2) show "?R' x = map_option (\<lambda>ev. (ev, Conn cid)) (interest ?c' x)"
      using live [OF l(1)] R'_client R'_new by (elim disjE) simp_all
  qed simp
  moreover have "ev \<in> {EVENT_READ, EVENT_WRITE} \<and> d = Conn cid \<and> x \<in> owns ?c'"
    if "x \<in> owns ?c \<union> owns ?c'" "?R' x = Some (ev, d)" for x ev d
  proof -
    from that(1) owns sock consider "x = client_sock ?c" | "backend_sock ?c = Some x"
      | "x = ?n" "backend_sock (fst t) = Some ?n" by auto
    then show ?thesis
    proof cases
      case 1
      with that(2) R'_client owns(2) show ?thesis by simp
    next
      case 2
      with that(2) R'_old show ?thesis by simp
    next
      case 3
      with that(2) R'_new owns(2) show ?thesis by simp
    qed
  qed
  moreover
  have away: "backend_sock ?c \<noteq> Some x \<and> \<not> (x = ?n \<and> backend_sock (fst t) \<noteq> None)"
    if "x \<notin> owns ?c" "x \<notin> owns ?c'" for x
    using that sock unfolding owns by (elim disjE) simp_all
  have "?R' x = ?R x" if "x \<notin> owns ?c" "x \<notin> owns ?c'" for x
    using away [OF that] by (simp only: R'_eq if_False)
  moreover have "x \<in> open_socks r' \<longleftrightarrow> x \<in> open_socks r" if "x \<notin> owns ?c" "x \<notin> owns ?c'" for x
    using away [OF that] unfolding opens by auto
  moreover have "x \<in> owns ?c'" if "x \<in> owns ?c" "x \<in> open_socks r'" for x
    using that bound [OF that(1)] unfolding opens owns by (auto split: if_splits)
  moreover have "x \<in> owns ?c \<or> ?n \<le> x" if "x \<in> owns ?c'" for x
    using that sock unfolding owns by (elim disjE) auto
  ultimately have "attends ?R' r'"
    using after r(1) ok client
    by (intro attends_update [OF _ r(2), of ?R r' ?c']) (auto simp: after_def attended_def)
  moreover have "w_closed (r_world r') \<subseteq> {..<w_next_sock (r_world r')}"
  proof
    fix x assume "x \<in> w_closed (r_world r')"
    then have "x \<in> w_closed (r_world r) \<or> x \<in> owns ?c" unfolding world' world(2) owns(1) by auto
    then have "x < ?n" using closed bound [of x] by auto
    then show "x \<in> {..<w_next_sock (r_world r')}" using world(1) by (simp add: world')
  qed
  ultimately show ?thesis using tidy by (simp add: attended_def)
qed

text \<open>What an open connection allows: the number of a new socket is that of no registration.\<close>

lemma fresh_sock:
  assumes "attended r"
  shows "w_next_sock (r_world r) \<notin> open_socks r" "w_next_sock (r_world r) \<notin> w_closed (r_world r)"
    "regs (r_selector r) (w_next_sock (r_world r)) = None"
proof -
  show out: "w_next_sock (r_world r) \<notin> open_socks r" by (simp add: open_socks_def)
  show "w_next_sock (r_world r) \<notin> w_closed (r_world r)" using assms by (auto simp: attended_def)
  have "tidy (r_sockets r) (open_socks r) (r_selector r)" using assms by (simp add: attended_def)
  from regs_in [OF this] out show "regs (r_selector r) (w_next_sock (r_world r)) = None"
    by (cases "regs (r_selector r) (w_next_sock (r_world r))") auto
qed

lemma modify_unknown:
  assumes "descriptors k A" and "tidy k A sel" and "s \<in> A" and "regs sel s = None"
  shows "sel_modify k s ev d sel = Absent sel"
  using open_key [OF assms(1-3)] assms(4) by (simp add: sel_modify_def open_lookup [OF assms(1,3)])

lemma transition_opens:
  assumes r: "attended r" "cid \<in> cids r" and opens: "opens (session_of r cid) t"
    and st: "state (r_objs r cid) = READING_REQUEST" and law: "lawful (put_session cid t r)"
    and ok: "sessions_ok (cids r) (put_session cid t r)"
  shows "wakes cid t r (transition cid (state (r_objs r cid)) (put_session cid t r))"
proof -
  let ?c = "r_objs r cid" let ?r = "put_session cid t r" let ?n = "w_next_sock (r_world r)"
  note conn = attended_conn [OF r] and fresh = fresh_sock [OF r(1)]
  have c: "pending_backend_unregister ?c = None" using conn(1) by (simp add: served_def)
  have none: "backend_sock ?c = None" using conn(2) st by (simp add: phase_ok_def)
  have t: "pending_backend_unregister (fst t) = None" "backend_sock (fst t) = Some ?n" "client_sock (fst t) = client_sock ?c"
    "w_closed (snd t) = w_closed (r_world r)" "w_next_sock (snd t) = Suc ?n"
    "state (fst t) \<in> {CONNECTING_TO_BACKEND, FORWARDING_REQUEST}"
    using opens c by (simp_all add: opens_def)
  have k: "r_sockets ?r = r_sockets r" "open_socks ?r = insert ?n (open_socks r)"
    by (simp_all add: r_sockets_def open_socks_def t(4,5) lessThan_Suc insert_Diff_if fresh(2))
  have tidy: "tidy (r_sockets ?r) (open_socks ?r) (r_selector ?r)"
    unfolding k put_other by (rule tidy_mono [OF conn(3) subset_insertI])
  have new: "?n \<in> open_socks ?r" "regs (r_selector ?r) ?n = None" using k(2) fresh(3) by simp_all
  obtain sel where sel: "ignoring (sel_register (r_sockets ?r) ?n EVENT_WRITE (Conn cid) (r_selector ?r)) ?r = Returned (set_selector sel ?r)"
    "tidy (r_sockets ?r) (open_socks ?r) sel" "regs sel = (regs (r_selector r))(?n \<mapsto> (EVENT_WRITE, Conn cid))"
    using ignoring_register [OF law tidy new, of EVENT_WRITE "Conn cid"] by auto
  have "sel_modify (r_sockets ?r) ?n EVENT_WRITE (Conn cid) (r_selector ?r) = Absent (r_selector ?r)"
    using modify_unknown [OF _ tidy new] law by (simp add: lawful_def)
  with t(6) st sel(1) have trans: "transition cid (state ?c) ?r = Returned (set_selector sel ?r)"
    by (auto simp: transition_def Let_def t(1,2) set_selector_def put_session_def)
  have after: "after cid t r (set_selector sel ?r)" using after_put [OF t(1)] by simp
  have "sessions_ok (cids r) (set_selector sel ?r)" by (rule sessions.same [OF ok]) simp_all
  then have "attended (set_selector sel ?r)"
    using attended_relinked [OF r after] st t none sel(2,3) by (simp add: fun_eq_iff)
  with trans after show ?thesis by (auto simp: wakes_def)
qed

text \<open>The state in which a flush leaves a reactor whose connection \<open>cid\<close> has become \<open>t\<close>.\<close>

definition settled_as :: "cid \<Rightarrow> session \<Rightarrow> key_data selector \<Rightarrow> reactor \<Rightarrow> reactor" where
  "settled_as cid t sel r = set_selector sel (put_session cid ((fst t)\<lparr>pending_backend_unregister := None\<rparr>, snd t) r)"

lemma settled_simps [simp]:
  "r_sockets (settled_as cid t sel r) = r_sockets (put_session cid t r)"
  "open_socks (settled_as cid t sel r) = open_socks (put_session cid t r)"
  "r_selector (settled_as cid t sel r) = sel"
  "r_objs (settled_as cid t sel r) cid = (fst t)\<lparr>pending_backend_unregister := None\<rparr>"
  "lawful (settled_as cid t sel r) = lawful (put_session cid t r)"
  "set_selector sel' (settled_as cid t sel r) = settled_as cid t sel' r"
  by (simp_all add: settled_as_def lawful_def) (simp_all add: r_sockets_def open_socks_def set_selector_def)

lemma after_settled: "after cid t r (settled_as cid t sel r)"
  by (simp add: settled_as_def after_def)

lemma flush_pending:
  assumes "pending_backend_unregister (fst t) = Some b"
    and "sel_unregister (r_sockets (put_session cid t r)) b (r_selector r) = Fine sel"
  shows "flush_pending_unregister cid (put_session cid t r) =
    (case backend_sock (fst t) of
       Some n \<Rightarrow>
         if state (fst t) \<in> {CONNECTING_TO_BACKEND, FORWARDING_REQUEST}
         then or_else (sel_register (r_sockets (put_session cid t r)) n EVENT_WRITE (Conn cid) sel)
                (sel_modify (r_sockets (put_session cid t r)) n EVENT_WRITE (Conn cid)) (settled_as cid t sel r)
         else Returned (settled_as cid t sel r)
     | None \<Rightarrow> Returned (settled_as cid t sel r))"
proof -
  have "(set_selector sel (put_session cid t r))\<lparr>r_objs := (r_objs (set_selector sel (put_session cid t r)))
      (cid := (r_objs (set_selector sel (put_session cid t r)) cid)\<lparr>pending_backend_unregister := None\<rparr>)\<rparr> =
      settled_as cid t sel r"
    by (simp add: settled_as_def set_selector_def put_session_def)
  then show ?thesis using assms
    by (simp add: flush_pending_unregister_def Let_def del: sockets_simps split: option.split)
      (simp split: option.split)
qed

lemma transition_settled:
  assumes "pending_backend_unregister (fst t) \<noteq> None" and "flush_pending_unregister cid (put_session cid t r) = Returned (settled_as cid t sel r)"
  shows "state (fst t) = DONE \<Longrightarrow> transition cid prev (put_session cid t r) = Returned (settled_as cid t sel r)"
    "state (fst t) = prev \<Longrightarrow> transition cid prev (put_session cid t r) = Returned (settled_as cid t sel r)"
    "state (fst t) = CONNECTING_TO_BACKEND \<Longrightarrow> backend_sock (fst t) = Some n \<Longrightarrow> prev \<noteq> CONNECTING_TO_BACKEND \<Longrightarrow>
      transition cid prev (put_session cid t r) =
        ignoring (sel_register (r_sockets (put_session cid t r)) n EVENT_WRITE (Conn cid) sel) (settled_as cid t sel r)"
    "state (fst t) = FORWARDING_REQUEST \<Longrightarrow> backend_sock (fst t) = Some n \<Longrightarrow> prev \<noteq> FORWARDING_REQUEST \<Longrightarrow>
      transition cid prev (put_session cid t r) =
        or_else (sel_modify (r_sockets (put_session cid t r)) n EVENT_WRITE (Conn cid) sel)
          (sel_register (r_sockets (put_session cid t r)) n EVENT_WRITE (Conn cid)) (settled_as cid t sel r)"
  using assms by (simp_all add: transition_def Let_def)

lemma transition_replaced:
  assumes r: "attended r" "cid \<in> cids r" "lawful r" and repl: "replaced (session_of r cid) t"
    and st: "state (r_objs r cid) \<in> {CONNECTING_TO_BACKEND, FORWARDING_REQUEST, READING_RESPONSE}"
    and law: "lawful (put_session cid t r)" and ok: "sessions_ok (cids r) (put_session cid t r)"
  shows "wakes cid t r (transition cid (state (r_objs r cid)) (put_session cid t r))"
proof -
  let ?c = "r_objs r cid" let ?r = "put_session cid t r" let ?n = "w_next_sock (r_world r)" let ?R = "regs (r_selector r)"
  note conn = attended_conn [OF r(1,2)] and fresh = fresh_sock [OF r(1)]
  from repl obtain b u where u: "drops b (session_of r cid) u" "steady u t \<and> state (fst t) = DONE \<or> opens u t"
    by (auto simp: replaced_def)
  then have b: "backend_sock ?c = Some b" and t: "pending_backend_unregister (fst t) = Some b"
    "client_sock (fst t) = client_sock ?c" "w_closed (snd t) = insert b (w_closed (r_world r))"
    by (auto simp: drops_def steady_def opens_def)
  have link: "backend_sock (fst t) = Some ?n \<and> w_next_sock (snd t) = Suc ?n \<and> state (fst t) \<in> {CONNECTING_TO_BACKEND, FORWARDING_REQUEST} \<or>
      backend_sock (fst t) = None \<and> w_next_sock (snd t) = ?n \<and> state (fst t) = DONE"
    using u by (auto simp: drops_def steady_def opens_def)
  have own: "b \<in> owns ?c" using b by (simp add: owns_def)
  then have bR: "?R b \<noteq> None" and b_open: "b \<in> open_socks r"
    using conn(1) st b by (auto simp: served_def interest_def)
  have k: "r_sockets ?r = (r_sockets r)\<lparr>sock_closed := insert b (sock_closed (r_sockets r))\<rparr>"
    by (simp add: r_sockets_def t(3))
  have less: "open_socks r - {b} \<subseteq> open_socks ?r" using link by (auto simp: open_socks_def t(3))
  obtain sel where sel: "sel_unregister (r_sockets ?r) b (r_selector r) = Fine sel"
    "tidy (r_sockets ?r) (open_socks r - {b}) sel" "regs sel = ?R(b := None)"
    using unregister_known [OF _ conn(3) bR, of "r_sockets ?r"] r(3) k by (auto simp: lawful_def)
  note tidy = tidy_mono [OF sel(2) less]
  have fin: "wakes cid t r (Returned (settled_as cid t s r))"
    if "tidy (r_sockets ?r) (open_socks ?r) s"
      "regs s = (if backend_sock (fst t) = None then ?R(b := None) else (?R(b := None))(?n \<mapsto> (EVENT_WRITE, Conn cid)))" for s
  proof -
    have "sessions_ok (cids r) (settled_as cid t s r)"
      using sessions.flushed [OF ok r(2)]
      by (rule sessions.same) (simp_all add: settled_as_def)
    moreover have "backend_sock (fst t) = Some ?n \<and> w_next_sock (snd t) = Suc ?n \<and>
        state (fst t) \<in> {CONNECTING_TO_BACKEND, FORWARDING_REQUEST} \<and>
        regs (r_selector (settled_as cid t s r)) =
          (\<lambda>x. if backend_sock ?c = Some x then None else ?R x)(?n \<mapsto> (EVENT_WRITE, Conn cid)) \<or>
      backend_sock (fst t) = None \<and> w_next_sock (snd t) = ?n \<and> state (fst t) = DONE \<and>
        regs (r_selector (settled_as cid t s r)) = (\<lambda>x. if backend_sock ?c = Some x then None else ?R x)"
    proof -
      have "(\<lambda>x. if backend_sock ?c = Some x then None else ?R x) = ?R(b := None)" using b by (auto simp: fun_eq_iff)
      with link that(2) show ?thesis by (elim disjE conjE) simp_all
    qed
    moreover have "state ?c \<in> {READING_REQUEST, CONNECTING_TO_BACKEND, FORWARDING_REQUEST, READING_RESPONSE}"
      "?n \<le> w_next_sock (snd t)" "w_closed (snd t) = w_closed (r_world r) \<union> set_option (backend_sock ?c)"
      using st link t(3) b by auto
    moreover have "tidy (r_sockets (settled_as cid t s r)) (open_socks (settled_as cid t s r)) (r_selector (settled_as cid t s r))"
      using that(1) by simp
    ultimately have "attended (settled_as cid t s r)"
      by (intro attended_relinked [OF r(1,2) after_settled [of cid t r s] _ _ t(2)])
    with after_settled show ?thesis by (auto simp: wakes_def)
  qed
  show ?thesis
  proof (cases "backend_sock (fst t)")
    case None
    with link have "state (fst t) = DONE" by auto
    with transition_settled(1) [of t cid r sel] flush_pending [OF t(1) sel(1)] None t(1) fin [OF tidy] sel(3)
    show ?thesis by simp
  next
    case (Some n)
    with link have n: "n = ?n" "state (fst t) \<in> {CONNECTING_TO_BACKEND, FORWARDING_REQUEST}" "w_next_sock (snd t) = Suc ?n" by auto
    have bn: "b \<noteq> ?n" using b_open by (auto simp: open_socks_def)
    have new: "?n \<in> open_socks ?r" "regs sel ?n = None"
      using fresh(2,3) n(3) bn by (simp_all add: open_socks_def t(3) sel(3))
    have law': "lawful (settled_as cid t x r)" for x using law by simp
    obtain sel2 where sel2:
      "or_else (sel_register (r_sockets ?r) n EVENT_WRITE (Conn cid) sel)
         (sel_modify (r_sockets ?r) n EVENT_WRITE (Conn cid)) (settled_as cid t sel r) = Returned (settled_as cid t sel2 r)"
      "tidy (r_sockets ?r) (open_socks ?r) sel2" "regs sel2 = (regs sel)(?n \<mapsto> (EVENT_WRITE, Conn cid))"
      using ignoring_register [OF law', of sel ?n EVENT_WRITE "Conn cid"] tidy new n(1) by auto
    have flush: "flush_pending_unregister cid ?r = Returned (settled_as cid t sel2 r)"
      using flush_pending [OF t(1) sel(1)] Some n(2) sel2(1) by auto
    have pend: "pending_backend_unregister (fst t) \<noteq> None" using t(1) by simp
    note trans = transition_settled [OF pend flush]
    have again: "ignoring (sel_register (r_sockets ?r) n EVENT_WRITE (Conn cid) sel2) (settled_as cid t sel2 r) =
        Returned (settled_as cid t sel2 r)"
      using register_again [OF _ sel2(2) new(1)] law sel2(3) n(1) by (simp add: lawful_def)
    obtain sel3 where sel3: "or_else (sel_modify (r_sockets ?r) n EVENT_WRITE (Conn cid) sel2)
          (sel_register (r_sockets ?r) n EVENT_WRITE (Conn cid)) (settled_as cid t sel2 r) = Returned (settled_as cid t sel3 r)"
        "tidy (r_sockets ?r) (open_socks ?r) sel3" "regs sel3 = (regs sel2)(?n \<mapsto> (EVENT_WRITE, Conn cid))"
      using ignoring_modify [OF law', of sel2 ?n EVENT_WRITE "Conn cid"] sel2(2,3) n(1) by auto
    have done2: "wakes cid t r (Returned (settled_as cid t sel2 r))" using fin [OF sel2(2)] sel2(3) sel(3) Some by simp
    have done3: "wakes cid t r (Returned (settled_as cid t sel3 r))" using fin [OF sel3(2)] sel3(3) sel2(3) sel(3) Some by simp
    consider "state (fst t) = state ?c" | "state (fst t) = CONNECTING_TO_BACKEND" "state ?c \<noteq> CONNECTING_TO_BACKEND"
      | "state (fst t) = FORWARDING_REQUEST" "state ?c \<noteq> FORWARDING_REQUEST"
      using n(2) by (metis insertE singletonD)
    then show ?thesis
      using trans(2) trans(3) [OF _ Some] trans(4) [OF _ Some] done2 done3 again sel3(1) by cases simp_all
  qed
qed

lemma transition_moves:
  assumes "attended r" and "cid \<in> cids r" and "lawful r" and "moves (session_of r cid) t"
    and "lawful (put_session cid t r)" and "sessions_ok (cids r) (put_session cid t r)"
  shows "wakes cid t r (transition cid (state (r_objs r cid)) (put_session cid t r))"
  using assms(4) transition_steady [OF assms(1-3) _ _ assms(6)] transition_opens [OF assms(1,2) _ _ assms(5,6)]
    transition_replaced [OF assms(1-3) _ _ assms(5,6)]
  by (auto simp: moves_def)

section \<open>Dispatch\<close>

lemma lawful_calm: "calm cid r r' \<Longrightarrow> lawful r' = lawful r"
  by (simp add: calm_def lawful_def r_sockets_def open_socks_def)

text \<open>A handler and its transition, or the end of the connection after an exception.\<close>

definition attends_on :: "cid \<Rightarrow> reactor \<Rightarrow> reactor outcome \<Rightarrow> bool" where
  "attends_on cid r res \<longleftrightarrow> lawful (final res) \<longrightarrow>
     (case res of
        Returned r' \<Rightarrow> attended r' \<and> cids r' = cids r
      | Raised r' \<Rightarrow> attended (put_session cid (set_state DONE (session_of r' cid)) r') \<and> cids r' = cids r)"

lemma steady_ends:
  assumes r: "attended r" "cid \<in> cids r" and steady: "steady (session_of r cid) t" and st: "state (fst t) = DONE"
    and ok: "sessions_ok (cids r) (put_session cid t r)"
  shows "attended (put_session cid t r)"
proof (rule attended_steady [OF r _ steady ok])
  have "pending_backend_unregister (fst t) = None"
    using attended_conn(1) [OF r] steady_session(6) [OF steady] by (simp add: served_def)
  then show "after cid t r (put_session cid t r)" by (rule after_put)
qed (use attended_conn(3) [OF r] st in simp_all)

lemma run_attends:
  assumes r: "attended r" "cid \<in> cids r" "lawful r" and io: "unrefused io" and run: "run_handler ev io cid r = Some res"
  shows "attends_on cid r res"
proof -
  note conn = attended_conn [OF r(1,2)]
  from run obtain out where out: "handle ev io (session_of r cid) = Some out"
    by (auto simp: run_handler_def split: option.splits)
  note made = handle_moves [OF io conn(2) out]
  show ?thesis
  proof (cases out)
    case (Returned t)
    let ?r = "put_session cid t r"
    have res: "res = transition cid (state (r_objs r cid)) ?r" using run out Returned by (simp add: run_handler_def)
    have ok: "sessions_ok (cids r) ?r" using sessions.handled [OF conn(4) r(2)] out Returned by blast
    have "lawful (final res) = lawful ?r" unfolding res by (rule lawful_calm [OF calm_transition])
    with transition_moves [OF r _ _ ok] made Returned show ?thesis
      by (auto simp: attends_on_def res wakes_def after_cids)
  next
    case (Raised t)
    have res: "res = Raised (put_session cid t r)" using run out Raised by (simp add: run_handler_def)
    have "put_session cid (set_state DONE (session_of (put_session cid t r) cid)) (put_session cid t r) =
        put_session cid (set_state DONE t) r"
      by (simp add: put_session_def session_of_def set_state_def)
    moreover have "sessions_ok (cids r) (put_session cid (set_state DONE t) r)"
      using sessions.raised [OF conn(4) r(2)] out Raised by blast
    then have "attended (put_session cid (set_state DONE t) r)"
      using made Raised by (intro steady_ends [OF r(1,2)]) simp_all
    ultimately show ?thesis by (simp add: attends_on_def res cids_def)
  qed
qed

lemma attended_schedule:
  assumes "attended r" and "cid \<in> cids r"
  shows "attended (schedule_deadline cid r)" "cids (schedule_deadline cid r) = cids r"
    "lawful (schedule_deadline cid r) = lawful r"
proof -
  have *: "r_world (schedule_deadline cid r) = r_world r" "r_objs (schedule_deadline cid r) = r_objs r"
    "r_connections (schedule_deadline cid r) = r_connections r" "r_selector (schedule_deadline cid r) = r_selector r"
    "r_server (schedule_deadline cid r) = r_server r" "r_fd (schedule_deadline cid r) = r_fd r"
    "r_conn_by_id (schedule_deadline cid r) \<subseteq> insert cid (r_conn_by_id r)"
    by (auto simp: schedule_deadline_def Let_def)
  then have k: "r_sockets (schedule_deadline cid r) = r_sockets r" "open_socks (schedule_deadline cid r) = open_socks r"
    "cids (schedule_deadline cid r) = cids r"
    by (simp_all add: r_sockets_def open_socks_def cids_def)
  then show "cids (schedule_deadline cid r) = cids r" "lawful (schedule_deadline cid r) = lawful r"
    by (simp_all add: lawful_def)
  have "sessions_ok (cids r) (schedule_deadline cid r)"
    using attended_conn(4) [OF assms] by (rule sessions.same) (simp_all add: *)
  then show "attended (schedule_deadline cid r)"
    using assms * k unfolding attended_def attends_def by auto
qed

definition one_bit :: "int \<Rightarrow> bool" where
  "one_bit m \<longleftrightarrow> m \<in> {0, EVENT_READ, EVENT_WRITE}"

lemma dispatch_attends:
  assumes r: "attended r" "cid \<in> cids r" "lawful r" and bit: "one_bit m" and io: "\<forall>ev. unrefused (ios ev)"
    and run: "dispatch_guarded ios cid s m r = Some r'" and law: "lawful r'"
  shows "attended r' \<and> cids r' = cids r"
proof -
  define tail where "tail = (\<lambda>r. Some (and_then (flush_pending_unregister cid r) (\<lambda>r. Returned (schedule_deadline cid r))))"
  have c: "backend_sock (r_objs r cid) \<noteq> Some (client_sock (r_objs r cid))"
    using attended_conn(1) [OF r(1,2)] by (simp add: served_def)
  have "dispatch ios cid s m r = and_when True tail (Some (Returned r)) \<or>
      (\<exists>ev. dispatch ios cid s m r = and_when True tail (run_handler ev (ios ev) cid r))"
    using bit c unfolding one_bit_def dispatch_def Let_def tail_def EVENT_READ_def EVENT_WRITE_def
    by (cases "s = client_sock (r_objs r cid)"; cases "Some s = backend_sock (r_objs r cid)") auto
  then obtain x where x: "dispatch ios cid s m r = and_when True tail x"
    "x = Some (Returned r) \<or> (\<exists>ev. x = run_handler ev (ios ev) cid r)" by metis
  from run obtain res where res: "dispatch ios cid s m r = Some res" by (auto simp: dispatch_guarded_def split: option.splits)
  with x(1) obtain y where y: "x = Some y" by (cases x) auto
  have on: "attends_on cid r y"
    using x(2)
  proof
    assume "x = Some (Returned r)"
    with y have "y = Returned r" by simp
    with r(1) show ?thesis by (simp add: attends_on_def)
  next
    assume "\<exists>ev. x = run_handler ev (ios ev) cid r"
    then obtain ev where "run_handler ev (ios ev) cid r = Some y" using y by auto
    with run_attends [OF r] io show ?thesis by blast
  qed
  show ?thesis
  proof (cases y)
    case (Raised t)
    with x(1) y res have "res = Raised t" by simp
    with run res have "r' = put_session cid (set_state DONE (session_of t cid)) t" by (simp add: dispatch_guarded_def)
    moreover from this law have "lawful t" by (simp add: lawful_def r_sockets_def open_socks_def)
    ultimately show ?thesis using on Raised by (simp add: attends_on_def cids_def)
  next
    case (Returned t)
    note res' = x(1) [unfolded y Returned res]
    have calm: "calm cid t (final (flush_pending_unregister cid t))" by (rule calm_flush)
    have sched: "lawful (schedule_deadline cid u) = lawful u" for u
      by (simp add: schedule_deadline_def Let_def lawful_def r_sockets_def open_socks_def)
    have fin: "lawful (final res) = lawful t"
      using res' lawful_calm [OF calm] sched unfolding tail_def by (cases "flush_pending_unregister cid t") auto
    have "lawful r' = lawful (final res)"
      using run res by (cases res) (auto simp: dispatch_guarded_def lawful_def r_sockets_def open_socks_def)
    with fin law have "lawful t" by simp
    with on Returned have t: "attended t" "cids t = cids r" by (simp_all add: attends_on_def)
    have "pending_backend_unregister (r_objs t cid) = None"
      using attended_conn(1) [OF t(1), of cid] t(2) r(2) by (simp add: served_def)
    then have "res = Returned (schedule_deadline cid t)" using res' by (simp add: tail_def flush_nothing)
    with run res have "r' = schedule_deadline cid t" by (simp add: dispatch_guarded_def)
    with attended_schedule [OF t(1), of cid] t(2) r(2) show ?thesis by simp
  qed
qed

section \<open>Accepting\<close>

lemma attended_references:
  assumes "attended r"
  shows "key_refs (r_selector r) \<subseteq> cids r" "cids r \<subseteq> references r" "finite (references r)"
proof -
  let ?L = "registered (r_selector r)"
  have t: "distinct (map fst ?L)" "sel_keys (r_selector r) = map (key_entry (r_sockets r)) ?L"
    using assms by (simp_all add: attended_def tidy_def)
  show "key_refs (r_selector r) \<subseteq> cids r"
  proof
    fix cid assume "cid \<in> key_refs (r_selector r)"
    with t(2) obtain x where x: "x \<in> set ?L" "snd (snd x) = Conn cid" by (auto simp: key_refs_def key_entry_def)
    from x(2) obtain s ev where "x = (s, ev, Conn cid)" by (cases x) auto
    with x(1) map_of_is_SomeI [OF t(1), of s "(ev, Conn cid)"] have "regs (r_selector r) s = Some (ev, Conn cid)"
      by (simp add: regs_def)
    with assms show "cid \<in> cids r" unfolding attended_def attends_def by blast
  qed
  show "cids r \<subseteq> references r" by (auto simp: references_def cids_def)
  have "finite (cids r)" by (simp add: cids_def)
  moreover have "r_conn_by_id r \<subseteq> cids r" using assms by (simp add: attended_def attends_def)
  ultimately show "finite (references r)" by (auto simp: references_def intro: finite_subset)
qed

lemma new_cid_fresh: "attended r \<Longrightarrow> new_identity hint r \<notin> cids r"
  using new_identity_fresh [OF attended_references(3)] attended_references(2) by blast

lemma accept_attends:
  assumes r: "attended r" and law: "lawful (final (accept_one a r))"
  shows "\<exists>r'. accept_one a r = Returned r' \<and> attended r' \<and> cids r \<subseteq> cids r'"
proof -
  obtain addr hint where a: "a = (addr, hint)" by (cases a)
  define cid where "cid = new_identity hint r"
  let ?n = "w_next_sock (r_world r)" let ?R = "regs (r_selector r)"
  note fresh = fresh_sock [OF r]
  have cid: "cid \<notin> cids r" unfolding cid_def by (rule new_cid_fresh [OF r])
  obtain w where w: "new_socket (r_world r) = (?n, w)" "w = (r_world r)\<lparr>w_next_sock := Suc ?n\<rparr>"
    by (simp add: new_socket_def)
  define t where "t = new_connection ?n addr w"
  define r1 where "r1 = put_session cid t r"
  have t: "client_sock (fst t) = ?n" "backend_sock (fst t) = None" "pending_backend_unregister (fst t) = None"
    "state (fst t) = READING_REQUEST" "owns (fst t) = {?n}" "w_next_sock (snd t) = Suc ?n" "w_closed (snd t) = w_closed (r_world r)"
    by (simp_all add: t_def new_connection_fields w(2))
  have tidy: "tidy (r_sockets r) (open_socks r) (r_selector r)" and closed: "w_closed (r_world r) \<subseteq> {..<?n}"
    using r by (simp_all add: attended_def)
  have k: "r_sockets r1 = r_sockets r" "open_socks r1 = insert ?n (open_socks r)"
    by (simp_all add: r1_def r_sockets_def open_socks_def t(6,7) lessThan_Suc insert_Diff_if fresh(2))
  define res where "res = sel_register (r_sockets r1) ?n EVENT_READ (Conn cid) (r_selector r1)"
  have acc: "accept_one a r = (case res of
      Fine sel \<Rightarrow> Returned (schedule_deadline cid ((set_selector sel r1)\<lparr>r_connections :=
        AList.update (fileno (r_sockets r1) ?n) cid (r_connections r)\<rparr>))
    | Absent sel \<Rightarrow> Raised (set_selector sel r1) | Broken sel \<Rightarrow> Raised (set_selector sel r1))"
  proof -
    have "sel_register (r_sockets r1) ?n EVENT_READ (Conn cid) (r_selector r) = res" "r_connections r1 = r_connections r"
      by (simp_all add: res_def r1_def)
    then show ?thesis
      by (simp add: a accept_one_def Let_def case_prod_unfold w(1) cid_def [symmetric] t_def [symmetric]
          r1_def [symmetric] res_def [symmetric] split: attempt.split)
  qed
  have sched: "lawful (schedule_deadline cid u) = lawful u" for u
    by (simp add: schedule_deadline_def Let_def lawful_def r_sockets_def open_socks_def)
  have conns: "lawful (u\<lparr>r_connections := x\<rparr>) = lawful u" "lawful (set_selector y u) = lawful u" for u x y
    by (simp_all add: lawful_def r_sockets_def open_socks_def set_selector_def)
  have law1: "lawful r1" using law unfolding acc by (cases res) (simp_all add: sched conns)
  have tidy1: "tidy (r_sockets r1) (open_socks r1) (r_selector r1)"
  proof -
    have "r_selector r1 = r_selector r" by (simp add: r1_def)
    then show ?thesis unfolding k by (metis tidy_mono [OF tidy subset_insertI])
  qed
  have "regs (r_selector r1) ?n = None" using fresh(3) by (simp add: r1_def)
  then obtain sel where sel: "res = Fine sel" "tidy (r_sockets r1) (open_socks r1) sel" "regs sel = ?R(?n \<mapsto> (EVENT_READ, Conn cid))"
    using register_fresh [OF _ tidy1, of ?n EVENT_READ "Conn cid"] law1 k(2) by (auto simp: lawful_def res_def r1_def)
  define fd where "fd = r_fd r ?n"
  have fileno: "fileno (r_sockets r1) ?n = fd"
    using fresh(2) t(7) by (simp add: fileno_def r1_def r_sockets_def fd_def)
  have old_fd: "fd \<notin> fst ` set (r_connections r)"
  proof
    assume "fd \<in> fst ` set (r_connections r)"
    then obtain d where d: "(fd, d) \<in> set (r_connections r)" by auto
    then have "d \<in> cids r" by (force simp: cids_def)
    moreover have "fd = r_fd r (client_sock (r_objs r d))" using r d by (auto simp: attended_def attends_def)
    moreover have "client_sock (r_objs r d) \<in> open_socks r"
      using attended_conn(1) [OF r \<open>d \<in> cids r\<close>] by (auto simp: served_def owns_def)
    ultimately show False using law1 fresh(1) k
      by (auto simp: lawful_def descriptors_def fd_def r_sockets_def)
  qed
  define r2 where "r2 = (set_selector sel r1)\<lparr>r_connections := r_connections r @ [(fd, cid)]\<rparr>"
  have upd: "AList.update fd cid xs = xs @ [(fd, cid)]" if "fd \<notin> fst ` set xs" for xs
    using that by (induction xs) auto
  have ret: "accept_one a r = Returned (schedule_deadline cid r2)"
    using sel(1) upd [OF old_fd] fileno by (simp add: acc r2_def)
  have r2: "cids r2 = insert cid (cids r)" "r_sockets r2 = r_sockets r1" "open_socks r2 = open_socks r1"
    "r_selector r2 = sel" "r_objs r2 = (r_objs r)(cid := fst t)" "r_world r2 = snd t" "r_server r2 = r_server r"
    "r_fd r2 = r_fd r" "r_conn_by_id r2 = r_conn_by_id r" "r_connections r2 = r_connections r @ [(fd, cid)]"
    by (auto simp: r2_def r1_def cids_def r_sockets_def open_socks_def set_selector_def put_session_def)
  obtain sv where sv: "r_server r = Some sv" "sv \<in> open_socks r" "?R sv = Some (EVENT_READ, Accept)"
    "\<forall>cid \<in> cids r. sv \<notin> owns (r_objs r cid)" "open_socks r \<subseteq> insert sv (\<Union>cid \<in> cids r. owns (r_objs r cid))"
    "\<forall>s ev d. ?R s = Some (ev, d) \<longrightarrow> ev \<in> {EVENT_READ, EVENT_WRITE} \<and>
       (s = sv \<and> d = Accept \<or> (\<exists>cid \<in> cids r. d = Conn cid \<and> s \<in> owns (r_objs r cid)))"
    using r unfolding attended_def attends_def by blast
  have old: "r_objs r2 d = r_objs r d" "served (open_socks r2) (regs sel) d (r_objs r d)" "?n \<notin> owns (r_objs r d)"
    if d: "d \<in> cids r" for d
  proof -
    show "r_objs r2 d = r_objs r d" using d cid by (auto simp: r2(5))
    have s: "served (open_socks r) ?R d (r_objs r d)" by (rule attended_conn(1) [OF r d])
    then show out: "?n \<notin> owns (r_objs r d)" using fresh(1) by (auto simp: served_def)
    then have "regs sel x = ?R x" if "x \<in> owns (r_objs r d)" for x using that by (auto simp: sel(3))
    with s show "served (open_socks r2) (regs sel) d (r_objs r d)" unfolding served_def r2(3) k(2) by auto
  qed
  have new: "served (open_socks r2) (regs sel) cid (fst t)"
    unfolding served_def using t by (simp add: r2(3) k(2) sel(3) interest_def)
  have sessions: "sessions_ok (insert cid (cids r)) r2"
  proof (rule sessions.same)
    have "sessions_ok (cids r) r" using r by (simp add: attended_def attends_def)
    from sessions.arrived [OF this w(1)] show "sessions_ok (insert cid (cids r)) (put_session cid t r)" by (simp add: t_def)
  qed (simp_all add: r2(5,6))
  have "attends (regs sel) r2"
    unfolding attends_def
  proof (intro conjI exI [of _ sv])
    show "sv \<in> open_socks r2" using sv(2) by (simp add: r2(3) k(2))
    show "regs sel sv = Some (EVENT_READ, Accept)" using sv(2,3) fresh(1) by (auto simp: sel(3))
    show "\<forall>d \<in> cids r2. sv \<notin> owns (r_objs r2 d)"
    proof
      fix d assume "d \<in> cids r2"
      then show "sv \<notin> owns (r_objs r2 d)" using old(1) [of d] sv(2,4) t(5) fresh(1) by (auto simp: r2(1,5))
    qed
    have cover: "owns (r_objs r d) = owns (r_objs r2 d)" if "d \<in> cids r" for d using old(1) [OF that] by simp
    show "open_socks r2 \<subseteq> insert sv (\<Union>d \<in> cids r2. owns (r_objs r2 d))"
      using sv(5) cover t(5) by (auto simp: r2(1,3,5) k(2))
    show "\<forall>s ev d. regs sel s = Some (ev, d) \<longrightarrow> ev \<in> {EVENT_READ, EVENT_WRITE} \<and>
        (s = sv \<and> d = Accept \<or> (\<exists>e \<in> cids r2. d = Conn e \<and> s \<in> owns (r_objs r2 e)))"
    proof (intro allI impI)
      fix s ev d assume *: "regs sel s = Some (ev, d)"
      show "ev \<in> {EVENT_READ, EVENT_WRITE} \<and> (s = sv \<and> d = Accept \<or> (\<exists>e \<in> cids r2. d = Conn e \<and> s \<in> owns (r_objs r2 e)))"
      proof (cases "s = ?n")
        case True
        with * t(5) show ?thesis by (auto simp: sel(3) r2(1,5))
      next
        case False
        with * have "?R s = Some (ev, d)" by (simp add: sel(3))
        from sv(6) [rule_format, OF this] cover show ?thesis by (auto simp: r2(1))
      qed
    qed
    show "distinct (map snd (r_connections r2))" "distinct (map fst (r_connections r2))"
      using r cid old_fd by (auto simp: r2(10) attended_def attends_def cids_def)
    show "\<forall>(f, d) \<in> set (r_connections r2). f = r_fd r2 (client_sock (r_objs r2 d))"
    proof -
      have "f = r_fd r (client_sock (r_objs r d))" "d \<in> cids r" if "(f, d) \<in> set (r_connections r)" for f d
        using r that by (auto simp: attended_def attends_def cids_def intro: rev_image_eqI)
      then show ?thesis using cid t(1) by (auto simp: r2(5,8,10) fd_def)
    qed
    show "\<forall>d \<in> cids r2. served (open_socks r2) (regs sel) d (r_objs r2 d)"
    proof
      fix d assume "d \<in> cids r2"
      then show "served (open_socks r2) (regs sel) d (r_objs r2 d)"
        using old(1,2) [of d] new by (cases "d = cid") (auto simp: r2(1,5))
    qed
    show "r_conn_by_id r2 \<subseteq> cids r2" using r by (auto simp: r2(1,9) attended_def attends_def)
    show "sessions_ok (cids r2) r2" using sessions by (simp add: r2(1))
  qed (simp add: r2(7) sv(1))
  then have "attended r2"
    using sel(2) closed by (auto simp: attended_def r2(2,3,4,6) t(6,7))
  with attended_schedule [of r2 cid] r2(1) ret show ?thesis by auto
qed

text \<open>What is open before a burst is open after it.\<close>

lemma lawful_before:
  assumes "lawful r'" and "r_fd r' = r_fd r" and "w_closed (r_world r') = w_closed (r_world r)"
    and "w_next_sock (r_world r) \<le> w_next_sock (r_world r')"
  shows "lawful r"
proof -
  have "r_sockets r' = r_sockets r" "open_socks r \<subseteq> open_socks r'"
    using assms(2-4) by (auto simp: r_sockets_def open_socks_def)
  with assms(1) show ?thesis unfolding lawful_def descriptors_def by (auto intro: inj_on_subset)
qed

lemma accept_one_socks:
  "r_fd (final (accept_one a r)) = r_fd r" "w_closed (r_world (final (accept_one a r))) = w_closed (r_world r)"
  "w_next_sock (r_world r) \<le> w_next_sock (r_world (final (accept_one a r)))"
  by (simp_all add: accept_one_def new_socket_def Let_def case_prod_unfold schedule_deadline_def set_selector_def
      put_session_def new_connection_fields split: attempt.split)

lemma accept_all_socks:
  "r_fd (final (accept_all as r)) = r_fd r \<and> w_closed (r_world (final (accept_all as r))) = w_closed (r_world r) \<and>
    w_next_sock (r_world r) \<le> w_next_sock (r_world (final (accept_all as r)))"
proof (induction as arbitrary: r)
  case (Cons a as)
  note one = accept_one_socks [where a = a and r = r]
  show ?case
  proof (cases "accept_one a r")
    case (Returned t)
    with one Cons.IH [of t] show ?thesis by simp
  qed (use one in simp)
qed simp

lemma accept_all_attends:
  "attended r \<Longrightarrow> lawful (final (accept_all as r)) \<Longrightarrow>
    \<exists>r'. accept_all as r = Returned r' \<and> attended r' \<and> cids r \<subseteq> cids r'"
proof (induction as arbitrary: r)
  case (Cons a as)
  have "lawful (final (accept_one a r))"
  proof (cases "accept_one a r")
    case (Returned t)
    with Cons.prems(2) accept_all_socks [of as t] show ?thesis by (auto intro: lawful_before)
  qed (use Cons.prems(2) in simp)
  from accept_attends [OF Cons.prems(1) this] obtain t where
    t: "accept_one a r = Returned t" "attended t" "cids r \<subseteq> cids t" by blast
  with Cons.IH [of t] Cons.prems(2) show ?case by auto
qed simp

section \<open>What only the clock, the heap or the router sees\<close>

lemma attended_same:
  assumes "attended r" and "r_objs r' = r_objs r" "r_connections r' = r_connections r" "r_conn_by_id r' = r_conn_by_id r"
    "r_server r' = r_server r" "r_fd r' = r_fd r" "r_selector r' = r_selector r"
    and "w_closed (r_world r') = w_closed (r_world r)" "w_next_sock (r_world r') = w_next_sock (r_world r)"
    and "sessions_ok (cids r) r'"
  shows "attended r'" "lawful r' = lawful r" "cids r' = cids r"
proof -
  have k: "r_sockets r' = r_sockets r" "open_socks r' = open_socks r" "cids r' = cids r"
    using assms by (simp_all add: r_sockets_def open_socks_def cids_def)
  then show "lawful r' = lawful r" "cids r' = cids r" by (simp_all add: lawful_def)
  show "attended r'" using assms k by (simp add: attended_def attends_def)
qed

lemma attended_sessions: "attended r \<Longrightarrow> sessions_ok (cids r) r"
  by (simp add: attended_def attends_def)

lemma attended_marks:
  assumes "attended r"
  shows "attended (set_marks vs r)" "lawful (set_marks vs r) = lawful r" "cids (set_marks vs r) = cids r"
proof -
  have "sessions_ok (cids r) (set_marks vs r)" using attended_sessions [OF assms]
  proof (induction vs arbitrary: r)
    case (Cons v vs)
    obtain b healthy where v: "v = (b, healthy)" by (cases v)
    let ?r = "r\<lparr>r_world := (r_world r)\<lparr>w_router := router_step (w_router (r_world r))
      (if healthy then Mark_healthy b else Mark_unhealthy b)\<rparr>\<rparr>"
    have "sessions_ok (cids r) ?r" by (rule sessions.checked [OF Cons.prems]) simp
    moreover have "cids ?r = cids r" by (simp add: cids_def)
    ultimately show ?case using Cons.IH [of ?r] by (simp add: v set_marks_step)
  qed simp
  from attended_same [OF assms _ _ _ _ _ _ _ _ this]
  show "attended (set_marks vs r)" "lawful (set_marks vs r) = lawful r" "cids (set_marks vs r) = cids r" by simp_all
qed

lemma attended_local:
  assumes "attended r"
  shows "attended (r\<lparr>r_conn := oc\<rparr>)" "lawful (r\<lparr>r_conn := oc\<rparr>) = lawful r" "cids (r\<lparr>r_conn := oc\<rparr>) = cids r"
    "attended (r\<lparr>r_events := cs\<rparr>)" "lawful (r\<lparr>r_events := cs\<rparr>) = lawful r"
proof -
  have "sessions_ok (cids r) (r\<lparr>r_conn := oc\<rparr>)" "sessions_ok (cids r) (r\<lparr>r_events := cs\<rparr>)"
    by (rule sessions.same [OF attended_sessions [OF assms]]; simp)+
  note s = this
  show "attended (r\<lparr>r_conn := oc\<rparr>)" "lawful (r\<lparr>r_conn := oc\<rparr>) = lawful r" "cids (r\<lparr>r_conn := oc\<rparr>) = cids r"
    using attended_same [OF assms _ _ _ _ _ _ _ _ s(1)] by simp_all
  show "attended (r\<lparr>r_events := cs\<rparr>)" "lawful (r\<lparr>r_events := cs\<rparr>) = lawful r"
    using attended_same [OF assms _ _ _ _ _ _ _ _ s(2)] by simp_all
qed

section \<open>The events of a round\<close>

text \<open>The kernel numbers the open sockets apart, from one event to the next.\<close>

fun lawful_events :: "round_io \<Rightarrow> nat \<Rightarrow> (key_data sel_key \<times> int) list \<Rightarrow> reactor \<Rightarrow> bool" where
  "lawful_events rio i [] r \<longleftrightarrow> lawful r"
| "lawful_events rio i ((key, m) # events) r \<longleftrightarrow> lawful r \<and>
     (let r = set_marks (marks_before rio i) r
      in case key_data key of
           Accept \<Rightarrow>
             (case accept_all (io_accepts rio i) r of
                Returned r' \<Rightarrow> lawful_events rio (Suc i) events r'
              | Raised r' \<Rightarrow> lawful r')
         | Conn cid \<Rightarrow>
             (case dispatch_guarded (io_handlers rio i) cid (key_fileobj key) m (r\<lparr>r_conn := Some cid\<rparr>) of
                None \<Rightarrow> True
              | Some r' \<Rightarrow> lawful_events rio (Suc i) events r'))"

lemma lawful_head: "lawful_events rio i evs r \<Longrightarrow> lawful r"
  by (cases evs) auto

lemma events_attend:
  assumes "attended r" and "lawful_events rio i evs r" and "\<forall>i ev. unrefused (io_handlers rio i ev)"
    and "\<And>key m. (key, m) \<in> set evs \<Longrightarrow> one_bit m \<and> (\<forall>cid. key_data key = Conn cid \<longrightarrow> cid \<in> cids r)"
    and "handle_events rio i evs r = Some res"
  shows "\<exists>r'. res = Returned r' \<and> attended r' \<and> lawful r'"
  using assms
proof (induction rio i evs r rule: handle_events.induct)
  case (1 rio i r)
  with attended_marks [OF 1(1)] show ?case by auto
next
  case (2 rio i key m events r)
  let ?r = "set_marks (marks_before rio i) r"
  note r = attended_marks [OF 2(3), of "marks_before rio i"]
  have law: "lawful ?r" using 2(4) r(2) by simp
  show ?case
  proof (cases "key_data key")
    case Accept
    have "lawful (final (accept_all (io_accepts rio i) ?r))"
      using 2(4) Accept lawful_head by (cases "accept_all (io_accepts rio i) ?r") (auto simp: Let_def)
    from accept_all_attends [OF r(1) this] obtain t where
      t: "accept_all (io_accepts rio i) ?r = Returned t" "attended t" "cids r \<subseteq> cids t" by (auto simp: r(3))
    have sub: "one_bit m' \<and> (\<forall>cid. key_data k = Conn cid \<longrightarrow> cid \<in> cids t)" if "(k, m') \<in> set events" for k m'
      using 2(6) [of k m'] that t(3) by auto
    show ?thesis
      by (rule 2(1) [OF refl Accept t(1,2) _ 2(5) sub]) (use 2(4,7) Accept t(1) in \<open>auto simp: Let_def\<close>)
  next
    case (Conn cid)
    let ?c = "?r\<lparr>r_conn := Some cid\<rparr>"
    note c = attended_local(1-3) [OF r(1), of "Some cid"]
    from Conn 2(7) obtain t where t: "dispatch_guarded (io_handlers rio i) cid (key_fileobj key) m ?c = Some t"
      by (auto simp: Let_def split: option.splits)
    have l: "lawful_events rio (Suc i) events t" using 2(4) Conn t by (simp add: Let_def)
    have cid: "cid \<in> cids ?c" "one_bit m" using 2(6) [of key m] Conn c(3) r(3) by auto
    have "lawful ?c" using law c(2) by simp
    from dispatch_attends [OF c(1) cid(1) this cid(2) _ t lawful_head [OF l]] 2(5)
    have t': "attended t" "cids t = cids r" using c(3) r(3) by auto
    show ?thesis
      by (rule 2(2) [OF refl Conn t t'(1) l 2(5)]) (use 2(6,7) Conn t t'(2) in \<open>auto simp: Let_def\<close>)
  qed
qed

text \<open>What \<open>select\<close> reports is of the table, and for one event at a time.\<close>

lemma ready_attended:
  assumes "attended r" and "(key, m) \<in> set (select_ready ready (r_selector r))"
  shows "one_bit m \<and> (\<forall>cid. key_data key = Conn cid \<longrightarrow> cid \<in> cids r)"
proof -
  obtain fd events where key: "map_of (sel_keys (r_selector r)) fd = Some key" and m: "m = events AND key_events key"
    using assms(2) by (auto simp: select_ready_def List.map_filter_def)
  have "cid \<in> cids r" if "key_data key = Conn cid" for cid
    using sessions.select_ready_refs [OF assms(2) that] attended_references(1) [OF assms(1)] by blast
  moreover have "key_events key \<in> {EVENT_READ, EVENT_WRITE}"
  proof -
    let ?L = "registered (r_selector r)"
    have t: "distinct (map fst ?L)" "sel_keys (r_selector r) = map (key_entry (r_sockets r)) ?L"
      using assms(1) by (simp_all add: attended_def tidy_def)
    obtain x where x: "x \<in> set ?L" "key_events key = fst (snd x)"
      using map_of_SomeD [OF key] t(2) by (auto simp: key_entry_def)
    have "regs (r_selector r) (fst x) = Some (fst (snd x), snd (snd x))"
      using map_of_is_SomeI [OF t(1), of "fst x" "snd x"] x(1) by (simp add: regs_def)
    with assms(1) x(2) show ?thesis unfolding attended_def attends_def by metis
  qed
  moreover have "n AND 1 \<in> {0, 1}" "n AND 2 \<in> {0, 2}" for n :: int
  proof -
    have par: "k mod 2 = 0 \<or> k mod 2 = 1" for k :: int by presburger
    then show "n AND 1 \<in> {0, 1}" by (simp add: and_one_eq)
    have "n AND 2 = 2 * ((n div 2) AND 1)" by (simp add: and_rec [of n 2])
    then show "n AND 2 \<in> {0, 2}" using par [of "n div 2"] by (auto simp: and_one_eq)
  qed
  ultimately show ?thesis unfolding m one_bit_def EVENT_READ_def EVENT_WRITE_def by (metis insertE singletonD insertI1 insertI2)
qed

end
