(* ===== verification/WatchedRuns.thy ===== *)
theory WatchedRuns
  imports ReactorWatch
begin

text \<open>
  Whole rounds under the law of \<open>ReactorWatch\<close>: expiring and reaping, the steps of the process, and the
  shutdown after a signal.
\<close>

declare split_paired_All [simp del] split_paired_Ex [simp del]

section \<open>The clock and the heap\<close>

lemma attended_clock:
  assumes "attended r"
  shows "attended (r\<lparr>r_world := snd (monotonic (r_world r)), r_deadlines := h\<rparr>)"
    "lawful (r\<lparr>r_world := snd (monotonic (r_world r)), r_deadlines := h\<rparr>) = lawful r"
proof -
  have "sessions_ok (cids r) (r\<lparr>r_world := snd (monotonic (r_world r)), r_deadlines := h\<rparr>)"
    by (rule sessions.same [OF sessions.clock [OF attended_sessions [OF assms]]]) simp_all
  from attended_same [OF assms _ _ _ _ _ _ _ _ this]
  show "attended (r\<lparr>r_world := snd (monotonic (r_world r)), r_deadlines := h\<rparr>)"
    "lawful (r\<lparr>r_world := snd (monotonic (r_world r)), r_deadlines := h\<rparr>) = lawful r"
    by (simp_all add: monotonic_def)
qed

lemma attended_deadlines:
  assumes "attended r"
  shows "attended (r\<lparr>r_deadlines := h\<rparr>)" "lawful (r\<lparr>r_deadlines := h\<rparr>) = lawful r"
proof -
  have "sessions_ok (cids r) (r\<lparr>r_deadlines := h\<rparr>)"
    by (rule sessions.same [OF attended_sessions [OF assms]]) simp_all
  from attended_same [OF assms _ _ _ _ _ _ _ _ this]
  show "attended (r\<lparr>r_deadlines := h\<rparr>)" "lawful (r\<lparr>r_deadlines := h\<rparr>) = lawful r" by simp_all
qed

lemma start_attends:
  assumes "attended r"
  shows "attended (round_start rio r)" "lawful (round_start rio r) = lawful r"
proof -
  have eq: "round_start rio r = (r\<lparr>r_world := snd (monotonic (r_world r)), r_deadlines := drop_stale r (r_deadlines r)\<rparr>)
      \<lparr>r_events := events_conns (select_ready (io_ready rio) (r_selector r))\<rparr>"
    by (simp add: round_start_def select_timeout_def Let_def case_prod_unfold split: list.split)
  note clock = attended_clock [OF assms, of "drop_stale r (r_deadlines r)"]
  show "attended (round_start rio r)" "lawful (round_start rio r) = lawful r"
    unfolding eq using attended_local(4,5) [OF clock(1)] clock(2) by blast+
qed

section \<open>Expired connections\<close>

lemma timeout_attends:
  assumes r: "attended r" "cid \<in> cids r"
  shows "attended (put_session cid (handle_timeout io (session_of r cid)) r)"
    "lawful (put_session cid (handle_timeout io (session_of r cid)) r) = lawful r"
proof -
  let ?t = "handle_timeout io (session_of r cid)"
  have "handle Expired io (session_of r cid) = Some (Returned ?t)" by simp
  from sessions.handled [OF attended_sessions [OF r(1)] r(2) this] steady_ends [OF r steady_timeout timeout_done]
  show "attended (put_session cid ?t r)" by blast
  show "lawful (put_session cid ?t r) = lawful r"
    using steady_session(1,2) [OF steady_timeout] by (simp add: lawful_def)
qed

lemma expire_loop_attends:
  "attended r \<Longrightarrow> attended (expire_loop ios now n r) \<and> lawful (expire_loop ios now n r) = lawful r"
proof (induction n arbitrary: r)
  case (Suc n)
  show ?case
  proof (cases "heappop (r_deadlines r)")
    case (Some x)
    obtain d gen cid h where x: "x = ((d, gen, cid), h)" by (cases x) auto
    let ?r = "r\<lparr>r_deadlines := h\<rparr>"
    note r = attended_deadlines [OF Suc.prems, of h]
    have "attended (put_session cid (handle_timeout (ios cid) (session_of ?r cid)) ?r)"
      "lawful (put_session cid (handle_timeout (ios cid) (session_of ?r cid)) ?r) = lawful r"
      if "\<not> stale_entry ?r (d, gen, cid)"
    proof -
      have "cid \<in> cids ?r" using that r(1) by (auto simp: stale_entry_def attended_def attends_def)
      with timeout_attends [OF r(1)] r(2)
      show "attended (put_session cid (handle_timeout (ios cid) (session_of ?r cid)) ?r)"
        "lawful (put_session cid (handle_timeout (ios cid) (session_of ?r cid)) ?r) = lawful r" by blast+
    qed
    with Some x Suc.prems r Suc.IH show ?thesis by (simp add: Let_def)
  qed (use Suc.prems in simp)
qed simp

lemma expire_attends:
  assumes "attended r"
  shows "attended (expire_timeouts ios r)" "lawful (expire_timeouts ios r) = lawful r"
proof -
  have "r\<lparr>r_world := w\<rparr> = r\<lparr>r_world := w, r_deadlines := r_deadlines r\<rparr>" for w by simp
  then have "attended (r\<lparr>r_world := snd (monotonic (r_world r))\<rparr>)"
    "lawful (r\<lparr>r_world := snd (monotonic (r_world r))\<rparr>) = lawful r"
    using attended_clock [OF assms, of "r_deadlines r"] by metis+
  with expire_loop_attends show "attended (expire_timeouts ios r)" "lawful (expire_timeouts ios r) = lawful r"
    by (simp_all add: expire_timeouts_def case_prod_unfold Let_def)
qed

section \<open>Reaping\<close>

lemma unregister_tidy:
  assumes "descriptors k A" and "tidy k A sel" and "s \<in> A"
  shows "tidy k A (outcome_of (sel_unregister k s sel))" "regs (outcome_of (sel_unregister k s sel)) = (regs sel)(s := None)"
proof -
  have "tidy k A (outcome_of (sel_unregister k s sel)) \<and> regs (outcome_of (sel_unregister k s sel)) = (regs sel)(s := None)"
  proof (cases "regs sel s")
    case None
    with unregister_unknown [OF assms] assms(2) show ?thesis by (auto simp: fun_eq_iff)
  next
    case (Some x)
    with unregister_open [OF assms(1,2), of s] show ?thesis by auto
  qed
  then show "tidy k A (outcome_of (sel_unregister k s sel))" "regs (outcome_of (sel_unregister k s sel)) = (regs sel)(s := None)"
    by simp_all
qed

lemma forget_tidy:
  assumes "lawful r" and "tidy (r_sockets r) (open_socks r) (r_selector r)" and "s \<in> open_socks r"
  shows "lawful (forget_socket s r)" "r_sockets (forget_socket s r) = r_sockets r" "open_socks (forget_socket s r) = open_socks r"
    "tidy (r_sockets r) (open_socks r) (r_selector (forget_socket s r))"
    "regs (r_selector (forget_socket s r)) = (regs (r_selector r))(s := None)"
  using unregister_tidy [OF _ assms(2,3)] assms(1) by (simp_all add: forget_socket_def lawful_def)

lemma tidy_closed:
  assumes "finite S" and "tidy k A sel" and "\<forall>s \<in> S. regs sel s = None"
  shows "tidy (k\<lparr>sock_closed := S \<union> sock_closed k\<rparr>) (A - S) sel"
  using assms
proof (induction S)
  case empty
  then show ?case by simp
next
  case (insert s S)
  then have "tidy (k\<lparr>sock_closed := S \<union> sock_closed k\<rparr>) (A - S) sel" "regs sel s = None" by simp_all
  moreover have "A - S - {s} = A - insert s S" by auto
  ultimately show ?case using tidy_close [of "k\<lparr>sock_closed := S \<union> sock_closed k\<rparr>" "A - S" sel s] by simp
qed

lemma descriptors_closed: "descriptors k A \<Longrightarrow> descriptors (k\<lparr>sock_closed := S \<union> sock_closed k\<rparr>) (A - S)"
  by (auto simp: descriptors_def intro: inj_on_subset)

text \<open>Reaping one connection.\<close>

lemma reap_one_parts:
  assumes r: "attended r" "lawful r" and fd: "map_of (r_connections r) fd = Some cid"
  shows "w_next_sock (r_world (reap_one fd r)) = w_next_sock (r_world r)" "r_server (reap_one fd r) = r_server r"
    "r_fd (reap_one fd r) = r_fd r"
    "tidy (r_sockets r) (open_socks r) (r_selector (reap_one fd r))"
    "regs (r_selector (reap_one fd r)) = (\<lambda>s. if s \<in> owns (r_objs r cid) then None else regs (r_selector r) s)"
    "cid \<in> cids r"
proof -
  let ?c = "r_objs r cid"
  let ?r = "r\<lparr>r_connections := AList.delete fd (r_connections r), r_conn_by_id := r_conn_by_id r - {cid}\<rparr>"
  show cid: "cid \<in> cids r" using map_of_SomeD [OF fd] by (force simp: cids_def)
  have "pending_backend_unregister ?c = None" "owns ?c \<subseteq> open_socks r"
    using attended_conn(1) [OF r(1) cid] by (simp_all add: served_def)
  note c = owns_quiet [OF this(1)] this(2)
  have r': "lawful ?r" "tidy (r_sockets ?r) (open_socks ?r) (r_selector ?r)" "open_socks ?r = open_socks r" "r_sockets ?r = r_sockets r"
    using r by (simp_all add: lawful_def attended_def r_sockets_def open_socks_def)
  note one = forget_tidy [OF r'(1,2), of "client_sock ?c"]
  define u where "u = (case backend_sock ?c of None \<Rightarrow> forget_socket (client_sock ?c) ?r
    | Some b \<Rightarrow> forget_socket b (forget_socket (client_sock ?c) ?r))"
  have u: "tidy (r_sockets r) (open_socks r) (r_selector u)"
    "regs (r_selector u) = (\<lambda>s. if s \<in> owns ?c then None else regs (r_selector r) s)"
    using one forget_tidy [of "forget_socket (client_sock ?c) ?r" "the (backend_sock ?c)"] c r'(3,4)
    by (auto simp: u_def fun_eq_iff split: option.splits)
  have fields: "w_next_sock (r_world u) = w_next_sock (r_world r)" "r_server u = r_server r" "r_fd u = r_fd r"
    by (simp_all add: u_def forget_socket_def set_selector_def split: option.splits)
  have eq: "reap_one fd r = put_session cid (cleanup (session_of r cid)) u"
    by (simp add: reap_one_def fd Let_def u_def session_of_def del: cleanup.simps split: option.split)
  have "w_next_sock (snd (cleanup s)) = w_next_sock (snd s)" for s
    by (cases s) (auto simp: close_socket_def Let_def split: option.splits)
  with u fields show "w_next_sock (r_world (reap_one fd r)) = w_next_sock (r_world r)" "r_server (reap_one fd r) = r_server r"
    "r_fd (reap_one fd r) = r_fd r" "tidy (r_sockets r) (open_socks r) (r_selector (reap_one fd r))"
    "regs (r_selector (reap_one fd r)) = (\<lambda>s. if s \<in> owns ?c then None else regs (r_selector r) s)"
    by (simp_all add: eq del: cleanup.simps)
qed

lemma reap_one_attends:
  assumes r: "attended r" "lawful r" and fd: "map_of (r_connections r) fd = Some cid"
  shows "attended (reap_one fd r)" "lawful (reap_one fd r)" "cids (reap_one fd r) = cids r - {cid}"
proof -
  let ?r = "reap_one fd r" let ?O = "owns (r_objs r cid)" let ?R = "regs (r_selector r)"
  note parts = reap_one_parts [OF r fd] and spec = reap_one_spec [OF fd]
  have d: "distinct (map snd (r_connections r))" "distinct (map fst (r_connections r))"
    using r(1) by (simp_all add: attended_def attends_def)
  have same: "c = cid \<longleftrightarrow> f = fd" if "(f, c) \<in> set (r_connections r)" for f c
  proof -
    have "(fd, cid) \<in> set (r_connections r)" by (rule map_of_SomeD [OF fd])
    with d that show ?thesis by (metis eq_key_imp_eq_value map_of_is_SomeI map_of_eq_Some_iff distinct_map inj_on_def fst_conv snd_conv)
  qed
  have conns: "set (r_connections ?r) = {x \<in> set (r_connections r). snd x \<noteq> cid}"
  proof (rule set_eqI)
    fix x :: "int \<times> cid"
    show "x \<in> set (r_connections ?r) \<longleftrightarrow> x \<in> {x \<in> set (r_connections r). snd x \<noteq> cid}"
      using same [of "fst x" "snd x"] by (auto simp: spec(1) AList.delete_eq)
  qed
  show cids: "cids ?r = cids r - {cid}" by (auto simp: cids_def conns)
  have opens: "open_socks ?r = open_socks r - ?O" by (auto simp: open_socks_def parts(1) spec(7))
  have k: "r_sockets ?r = (r_sockets r)\<lparr>sock_closed := ?O \<union> sock_closed (r_sockets r)\<rparr>"
    by (simp add: r_sockets_def parts(3) spec(7) Un_commute)
  show "lawful ?r" using descriptors_closed r(2) unfolding lawful_def k opens by blast
  have fin: "finite ?O" by (simp add: owns_def)
  have tidy: "tidy (r_sockets ?r) (open_socks ?r) (r_selector ?r)"
    unfolding k opens by (rule tidy_closed [OF fin parts(4)]) (simp add: parts(5))
  obtain sv where sv: "r_server r = Some sv" "sv \<in> open_socks r" "?R sv = Some (EVENT_READ, Accept)"
    "\<forall>cid \<in> cids r. sv \<notin> owns (r_objs r cid)" "open_socks r \<subseteq> insert sv (\<Union>cid \<in> cids r. owns (r_objs r cid))"
    "\<forall>s ev d. ?R s = Some (ev, d) \<longrightarrow> ev \<in> {EVENT_READ, EVENT_WRITE} \<and>
       (s = sv \<and> d = Accept \<or> (\<exists>cid \<in> cids r. d = Conn cid \<and> s \<in> owns (r_objs r cid)))"
    using r(1) unfolding attended_def attends_def by blast
  have out: "sv \<notin> ?O" using sv(4) parts(6) by blast
  have apart: "owns (r_objs r c) \<inter> ?O = {}" if "c \<in> cids r" "c \<noteq> cid" for c
    using attended_sessions [OF r(1)] that parts(6) unfolding sessions_ok_def by metis
  have served: "served (open_socks ?r) (regs (r_selector ?r)) c (r_objs r c)" if "c \<in> cids r" "c \<noteq> cid" for c
  proof -
    have "regs (r_selector ?r) s = ?R s" if "s \<in> owns (r_objs r c)" for s
      using apart [OF \<open>c \<in> cids r\<close> \<open>c \<noteq> cid\<close>] that by (auto simp: parts(5))
    with attended_conn(1) [OF r(1) that(1)] apart [OF that] show ?thesis unfolding served_def opens by auto
  qed
  have sessions: "sessions_ok (cids ?r) ?r"
  proof -
    have "sessions_ok (cids r) (put_session cid (cleanup (session_of r cid)) r)"
      by (rule sessions.cleaned [OF attended_sessions [OF r(1)] parts(6)])
    then have "sessions_ok (cids r) ?r"
      by (rule sessions.same) (simp_all add: reap_one_def fd Let_def cleanup_fields session_of_def del: cleanup.simps split: option.split)
    then show ?thesis by (rule sessions.fewer) (auto simp: cids)
  qed
  have "attends (regs (r_selector ?r)) ?r"
    unfolding attends_def
  proof (intro conjI exI [of _ sv])
    show "sv \<in> open_socks ?r" "regs (r_selector ?r) sv = Some (EVENT_READ, Accept)"
      using sv(2,3) out by (simp_all add: opens parts(5))
    show "\<forall>c \<in> cids ?r. sv \<notin> owns (r_objs ?r c)" using sv(4) by (simp add: cids spec(2))
    show "open_socks ?r \<subseteq> insert sv (\<Union>c \<in> cids ?r. owns (r_objs ?r c))"
      using sv(5) by (auto simp: opens cids spec(2))
    show "\<forall>s ev d. regs (r_selector ?r) s = Some (ev, d) \<longrightarrow> ev \<in> {EVENT_READ, EVENT_WRITE} \<and>
        (s = sv \<and> d = Accept \<or> (\<exists>c \<in> cids ?r. d = Conn c \<and> s \<in> owns (r_objs ?r c)))"
      using sv(6) by (fastforce simp: parts(5) cids spec(2) split: if_splits)
    show "distinct (map snd (r_connections ?r))" "distinct (map fst (r_connections ?r))"
      using d by (simp_all add: spec(1) AList.delete_eq distinct_map_filter)
    show "\<forall>(f, c) \<in> set (r_connections ?r). f = r_fd ?r (client_sock (r_objs ?r c))"
      using r(1) by (auto simp: conns spec(2) parts(3) attended_def attends_def)
    show "\<forall>c \<in> cids ?r. served (open_socks ?r) (regs (r_selector ?r)) c (r_objs ?r c)"
      using served by (simp add: cids spec(2))
    show "r_conn_by_id ?r \<subseteq> cids ?r" using r(1) by (auto simp: cids spec(4) attended_def attends_def)
    show "sessions_ok (cids ?r) ?r" by (rule sessions)
  qed (simp add: parts(2) sv(1))
  moreover have "w_closed (r_world ?r) \<subseteq> {..<w_next_sock (r_world ?r)}"
    using r(1) attended_conn(1) [OF r(1) parts(6)] by (auto simp: spec(7) parts(1) attended_def served_def open_socks_def)
  ultimately show "attended ?r" using tidy by (simp add: attended_def)
qed

lemma reap_attends:
  assumes "attended r" and "lawful r"
  shows "attended (reap r)" "lawful (reap r)"
proof -
  have "attended (foldl (\<lambda>r fd. reap_one fd r) r fds) \<and> lawful (foldl (\<lambda>r fd. reap_one fd r) r fds)" for fds
    using assms
  proof (induction fds arbitrary: r)
    case (Cons fd fds)
    have "attended (reap_one fd r) \<and> lawful (reap_one fd r)"
    proof (cases "map_of (r_connections r) fd")
      case None
      with Cons.prems show ?thesis by (simp add: reap_one_def)
    qed (use reap_one_attends [OF Cons.prems] in blast)
    with Cons.IH show ?case by simp
  qed simp
  then show "attended (reap r)" "lawful (reap r)" by (simp_all add: reap_def)
qed

section \<open>A round\<close>

text \<open>
  What is asked of the kernel in a round: open sockets have descriptors of their own, and no attempt to connect
  fails on the spot.
\<close>

definition round_law :: "round_io \<Rightarrow> reactor \<Rightarrow> bool" where
  "round_law rio r \<longleftrightarrow> (\<forall>i ev. unrefused (io_handlers rio i ev)) \<and>
     lawful_events rio 0 (select_ready (io_ready rio) (r_selector r)) (round_start rio r)"

lemma round_attends:
  assumes r: "attended r" and law: "round_law rio r" and run: "loop_round rio r = Some res"
  shows "\<exists>r'. res = Returned r' \<and> attended r' \<and> lawful r'"
proof -
  let ?r = "round_start rio r" and ?evs = "select_ready (io_ready rio) (r_selector r)"
  obtain x where x: "handle_events rio 0 ?evs ?r = Some x"
    and res: "and_then x (\<lambda>r. Returned (reap (expire_timeouts (io_expired rio) r))) = res"
    using run unfolding loop_round_eq map_option_eq_Some by (elim exE conjE)
  have ready: "attended ?r" by (rule start_attends(1) [OF r])
  have law': "lawful_events rio 0 ?evs ?r" "\<forall>i ev. unrefused (io_handlers rio i ev)"
    using law by (simp_all add: round_law_def)
  have "cids ?r = cids r" by (simp add: cids_def)
  then obtain t where t: "x = Returned t" "attended t" "lawful t"
    using events_attend [OF ready law' _ x] ready_attended [OF r, of _ _ "io_ready rio"] by metis
  then have "res = Returned (reap (expire_timeouts (io_expired rio) t))" using res by simp
  with reap_attends [OF expire_attends(1) [OF t(2)]] expire_attends(2) [OF t(2)] t(3) show ?thesis by blast
qed

section \<open>The process\<close>

inductive smooth_step :: "reactor \<Rightarrow> reactor \<Rightarrow> bool" where
  smooth_round: "r_running r \<Longrightarrow> round_law rio r \<Longrightarrow> loop_round rio r = Some (Returned r') \<Longrightarrow> smooth_step r r'"
| smooth_signal: "smooth_step r (stop r)"
| smooth_check: "op \<in> range Mark_healthy \<union> range Mark_unhealthy \<Longrightarrow>
    smooth_step r (r\<lparr>r_world := (r_world r)\<lparr>w_router := router_step (w_router (r_world r)) op\<rparr>\<rparr>)"

definition serving_smoothly :: "router \<Rightarrow> (nat \<Rightarrow> real) \<Rightarrow> (sock \<Rightarrow> int) \<Rightarrow> reactor \<Rightarrow> bool" where
  "serving_smoothly rt clock fd r \<longleftrightarrow>
     (\<exists>has_reuseport require_reuseport r0.
        listen has_reuseport require_reuseport True (initial_reactor rt clock fd) = Returned r0 \<and> smooth_step\<^sup>*\<^sup>* r0 r)"

lemma attended_stop: "attended r \<Longrightarrow> attended (stop r)" "lawful (stop r) = lawful r"
proof -
  show "attended (stop r)" if "attended r"
    by (rule attended_same(1) [OF that]) (simp_all add: stop_def sessions.same [OF attended_sessions [OF that]])
  show "lawful (stop r) = lawful r" by (simp add: stop_def lawful_def r_sockets_def open_socks_def)
qed

lemma smooth_attends:
  assumes "smooth_step r r'" and "attended r" and "lawful r"
  shows "attended r'" "lawful r'"
proof -
  have "attended r' \<and> lawful r'"
    using assms(1)
  proof cases
    case (smooth_round rio)
    with round_attends [OF assms(2) this(2,3)] show ?thesis by simp
  next
    case smooth_signal
    with attended_stop assms(2,3) show ?thesis by simp
  next
    case (smooth_check op)
    have "sessions_ok (cids r) r'"
      unfolding smooth_check(1) by (rule sessions.checked [OF attended_sessions [OF assms(2)] smooth_check(2)])
    from attended_same [OF assms(2) _ _ _ _ _ _ _ _ this] assms(3) show ?thesis by (simp add: smooth_check(1))
  qed
  then show "attended r'" "lawful r'" by simp_all
qed

lemma listening_attends:
  assumes "router_ok rt" and "listen has_reuseport require_reuseport True (initial_reactor rt clock fd) = Returned r"
  shows "attended r" "lawful r" "r_running r"
proof -
  let ?r0 = "initial_reactor rt clock fd"
  define r1 where "r1 = ?r0\<lparr>r_world := snd (new_socket (r_world ?r0)), r_server := Some 0\<rparr>"
  have fresh: "sessions_ok {} r1"
    by (rule sessions.same [OF sessions.opened [OF sessions_initial [OF assms(1)]]]) (simp_all add: r1_def)
  have r1: "open_socks r1 = {0}" "r_connections r1 = []" "r_conn_by_id r1 = {}" "r_server r1 = Some 0" "r_fd r1 = fd"
    "w_closed (r_world r1) = {}" "w_next_sock (r_world r1) = 1" "r_selector r1 = \<lparr>sel_keys = [], sel_poll = []\<rparr>"
    by (auto simp: r1_def initial_reactor_def new_socket_def open_socks_def)
  have nonneg: "0 \<le> fd 0"
    using assms(2) by (auto simp: listen_def Let_def sel_register_def fileobj_lookup_def initial_reactor_def
        new_socket_def r_sockets_def fileno_def split: if_splits)
  have law: "lawful r1" using nonneg by (simp add: lawful_def descriptors_def r1 r_sockets_def)
  have tidy: "tidy (r_sockets r1) (open_socks r1) (r_selector r1)" "regs (r_selector r1) 0 = None" "regs (r_selector r1) = Map.empty"
    by (simp_all add: tidy_def regs_def registered_def r1)
  have desc: "descriptors (r_sockets r1) (open_socks r1)" and mem: "0 \<in> open_socks r1"
    using law by (simp_all add: lawful_def r1(1))
  obtain sel where sel: "sel_register (r_sockets r1) 0 EVENT_READ Accept (r_selector r1) = Fine sel"
    "tidy (r_sockets r1) (open_socks r1) sel" "regs sel = [0 \<mapsto> (EVENT_READ, Accept)]"
    using register_fresh [OF desc tidy(1) mem tidy(2), of EVENT_READ Accept] tidy(3) by auto
  have r: "r = (set_selector sel r1)\<lparr>r_running := True\<rparr>"
    using assms(2) sel(1) by (auto simp: listen_def Let_def r1_def new_socket_def initial_reactor_def split: if_splits)
  then show "r_running r" by simp
  have k: "r_sockets r = r_sockets r1" "open_socks r = open_socks r1" "cids r = {}"
    by (simp_all add: r r_sockets_def open_socks_def set_selector_def cids_def r1)
  with law show "lawful r" by (simp add: lawful_def)
  have "sessions_ok {} r" by (rule sessions.same [OF fresh]) (simp_all add: r set_selector_def)
  then show "attended r"
    using k sel(2,3) by (auto simp: attended_def attends_def r1 r split: if_splits)
qed

lemma serving_attends:
  assumes "router_ok rt" and "serving_smoothly rt clock fd r"
  shows "attended r" "lawful r"
proof -
  obtain h q r0 where r0: "listen h q True (initial_reactor rt clock fd) = Returned r0" and run: "smooth_step\<^sup>*\<^sup>* r0 r"
    using assms(2) by (auto simp: serving_smoothly_def)
  from run have "attended r \<and> lawful r"
    by induction (use listening_attends [OF assms(1) r0] smooth_attends in blast)+
  then show "attended r" "lawful r" by simp_all
qed

section \<open>Runs under the law\<close>

text \<open>Every round obeys the law and every handler returns.\<close>

fun smooth_run :: "round_io list \<Rightarrow> reactor \<Rightarrow> bool" where
  "smooth_run [] r = True"
| "smooth_run (rio # rios) r \<longleftrightarrow>
     (r_running r \<longrightarrow> round_law rio r \<and>
        (case loop_round rio r of
           None \<Rightarrow> False
         | Some (Returned r') \<Rightarrow> smooth_run rios (if io_signal rio then stop r' else r')
         | Some (Raised r') \<Rightarrow> True))"

lemma smooth_loop:
  "attended r \<Longrightarrow> smooth_run rios r \<Longrightarrow>
    \<exists>r'. loop rios r = Some (Returned r') \<and> smooth_step\<^sup>*\<^sup>* r r' \<and> attended r' \<and>
      (r_running r' \<longleftrightarrow> r_running r \<and> \<not> (\<exists>rio \<in> set rios. io_signal rio))"
proof (induction rios arbitrary: r)
  case (Cons rio rios)
  show ?case
  proof (cases "r_running r")
    case True
    with Cons.prems(2) obtain res where res: "loop_round rio r = Some res" and law: "round_law rio r"
      by (auto split: option.splits)
    from round_attends [OF Cons.prems(1) law res] obtain t where t: "res = Returned t" "attended t" by blast
    let ?t = "if io_signal rio then stop t else t"
    have step: "smooth_step\<^sup>*\<^sup>* r ?t"
      using smooth_round [OF True law] res t(1) smooth_signal [of t] by auto
    have t': "attended ?t" "smooth_run rios ?t" "r_running ?t \<longleftrightarrow> \<not> io_signal rio"
      using t attended_stop(1) [OF t(2)] Cons.prems(2) True res running_round(1) [of rio r t] by (auto simp: stop_def)
    from Cons.IH [OF t'(1,2)] obtain r' where
      r': "loop rios ?t = Some (Returned r')" "smooth_step\<^sup>*\<^sup>* ?t r'" "attended r'"
        "r_running r' \<longleftrightarrow> r_running ?t \<and> \<not> (\<exists>rio \<in> set rios. io_signal rio)" by blast
    have "loop (rio # rios) r = Some (Returned r')" using True res t(1) r'(1) by simp
    with r' t'(3) True rtranclp_trans [OF step r'(2)] show ?thesis by auto
  qed (use Cons.prems in auto)
qed auto

text \<open>The part of the law that is not about the attempts to connect.\<close>

fun orderly :: "round_io list \<Rightarrow> reactor \<Rightarrow> bool" where
  "orderly [] r = True"
| "orderly (rio # rios) r \<longleftrightarrow>
     lawful_events rio 0 (select_ready (io_ready rio) (r_selector r)) (round_start rio r) \<and>
     (case loop_round rio r of
        None \<Rightarrow> False
      | Some (Returned r') \<Rightarrow> orderly rios (if io_signal rio then stop r' else r')
      | Some (Raised r') \<Rightarrow> True)"

lemma orderly_smooth:
  "\<forall>rio \<in> set rios. \<forall>i ev. unrefused (io_handlers rio i ev) \<Longrightarrow> orderly rios r \<Longrightarrow> smooth_run rios r"
proof (induction rios arbitrary: r)
  case (Cons rio rios)
  then show ?case by (auto simp: round_law_def split: option.splits outcome.splits)
qed simp

text \<open>What the selector reports for a socket that is registered.\<close>

lemma ready_of:
  assumes "lawful r" and "tidy (r_sockets r) (open_socks r) (r_selector r)" and "regs (r_selector r) s = Some (ev, d)"
  shows "select_ready [(r_fd r s, m)] (r_selector r) = [(\<lparr>key_fileobj = s, key_events = ev, key_data = d\<rparr>, m AND ev)]"
proof -
  have "s \<in> open_socks r" by (rule regs_in [OF assms(2,3)])
  from open_key [OF _ assms(2) this] assms(1,3) show ?thesis
    by (simp add: lawful_def r_sockets_def select_ready_def List.map_filter_def)
qed

section \<open>The shutdown\<close>

lemma cleanups_closed:
  "w_closed (r_world (foldl (\<lambda>r (fd, cid). put_session cid (cleanup (session_of r cid)) r) r xs)) =
     w_closed (r_world r) \<union> (\<Union>cid \<in> snd ` set xs. owns (r_objs r cid))"
  "r_objs (foldl (\<lambda>r (fd, cid). put_session cid (cleanup (session_of r cid)) r) r xs) = r_objs r"
  "w_next_sock (r_world (foldl (\<lambda>r (fd, cid). put_session cid (cleanup (session_of r cid)) r) r xs)) = w_next_sock (r_world r)"
  "r_server (foldl (\<lambda>r (fd, cid). put_session cid (cleanup (session_of r cid)) r) r xs) = r_server r"
proof -
  let ?f = "foldl (\<lambda>r (fd, cid). put_session cid (cleanup (session_of r cid)) r)"
  have next_sock: "w_next_sock (snd (cleanup s)) = w_next_sock (snd s)" for s
    by (cases s) (auto simp: close_socket_def Let_def split: option.splits)
  have "w_closed (r_world (?f r xs)) = w_closed (r_world r) \<union> (\<Union>cid \<in> snd ` set xs. owns (r_objs r cid)) \<and>
      r_objs (?f r xs) = r_objs r \<and> w_next_sock (r_world (?f r xs)) = w_next_sock (r_world r) \<and> r_server (?f r xs) = r_server r"
  proof (induction xs arbitrary: r)
    case (Cons x xs)
    let ?r = "put_session (snd x) (cleanup (session_of r (snd x))) r"
    have one: "w_closed (r_world ?r) = w_closed (r_world r) \<union> owns (r_objs r (snd x))" "r_objs ?r = r_objs r"
      "w_next_sock (r_world ?r) = w_next_sock (r_world r)" "r_server ?r = r_server r"
      by (simp_all add: cleanup_fields next_sock del: cleanup.simps)
    have step: "?f r (x # xs) = ?f ?r xs" by (simp add: case_prod_unfold)
    show ?case using Cons.IH [of ?r] unfolding step one by (simp add: Un_assoc)
  qed simp
  then show "w_closed (r_world (?f r xs)) = w_closed (r_world r) \<union> (\<Union>cid \<in> snd ` set xs. owns (r_objs r cid))"
    "r_objs (?f r xs) = r_objs r" "w_next_sock (r_world (?f r xs)) = w_next_sock (r_world r)" "r_server (?f r xs) = r_server r"
    by simp_all
qed

lemma shutdown_closes:
  assumes "attended r"
  shows "open_socks (shutdown r) = {}" "r_selector (shutdown r) = \<lparr>sel_keys = [], sel_poll = []\<rparr>"
proof -
  obtain sv where sv: "r_server r = Some sv" "open_socks r \<subseteq> insert sv (\<Union>cid \<in> cids r. owns (r_objs r cid))"
    using assms unfolding attended_def attends_def by blast
  have "w_closed (r_world (shutdown r)) = insert sv (w_closed (r_world r) \<union> (\<Union>cid \<in> cids r. owns (r_objs r cid)))"
    "w_next_sock (r_world (shutdown r)) = w_next_sock (r_world r)"
    by (simp_all add: shutdown_def Let_def cleanups_closed sv(1) close_socket_def cids_def del: cleanup.simps)
  with sv(2) show "open_socks (shutdown r) = {}" by (auto simp: open_socks_def)
  show "r_selector (shutdown r) = \<lparr>sel_keys = [], sel_poll = []\<rparr>" by (simp add: shutdown_def Let_def)
qed

end
