(* ===== verification/StaleRegistration.thy ===== *)
theory StaleRegistration
  imports WatchedRuns ReactorTheorems
begin

text \<open>
  What two failures in one step leave in the selector: a late one, for a socket that is registered, and refusals on
  the spot after it, each of which overwrites the socket that waits to be unregistered.
\<close>

declare split_paired_All [simp del] split_paired_Ex [simp del]

section \<open>Refusals on the spot\<close>

definition refuses :: "io \<Rightarrow> bool" where
  "refuses io \<longleftrightarrow> (\<forall>n. \<exists>err. io_connect io n = Connect_errno err \<and> err \<notin> {0, EINPROGRESS, EWOULDBLOCK, EAGAIN, 115})"

text \<open>The connection has given up: \<open>t\<close> has closed \<open>S\<close> and every socket opened since \<open>s\<close>, and one of these is pending.\<close>

definition given_up :: "sock set \<Rightarrow> session \<Rightarrow> session \<Rightarrow> bool" where
  "given_up S s t \<longleftrightarrow> state (fst t) = DONE \<and> response_status (fst t) = Some 502 \<and>
     client_sock (fst t) = client_sock (fst s) \<and> backend_sock (fst t) = None \<and>
     w_next_sock (snd s) \<le> w_next_sock (snd t) \<and>
     w_closed (snd t) = w_closed (snd s) \<union> S \<union> {w_next_sock (snd s)..<w_next_sock (snd t)} \<and>
     (\<exists>p \<in> S \<union> {w_next_sock (snd s)..<w_next_sock (snd t)}. pending_backend_unregister (fst t) = Some p)"

lemma drops_given_up:
  assumes "drops b s d" and "steady d t" and "state (fst t) = DONE" and "response_status (fst t) = Some 502"
  shows "given_up {b} s t"
  using assms by (auto simp: given_up_def drops_def steady_def)

lemma refused_gives_up:
  "refuses io \<Longrightarrow> backend_attempts (fst s) \<le> MAX_BACKEND_RETRIES + 1 \<Longrightarrow>
    \<exists>t. initiate_backend_connect io s = Returned t \<and> given_up {} s t \<and>
      w_next_sock (snd t) \<le> w_next_sock (snd s) + nat (MAX_BACKEND_RETRIES + 2 - backend_attempts (fst s))"
  "refuses io \<Longrightarrow> backend_attempts (fst s) \<le> MAX_BACKEND_RETRIES + 1 \<Longrightarrow> backend_sock (fst s) = Some b \<Longrightarrow>
    \<exists>t. fail_backend io s = Returned t \<and> given_up {b} s t \<and>
      w_next_sock (snd t) \<le> w_next_sock (snd s) + nat (MAX_BACKEND_RETRIES + 1 - backend_attempts (fst s))"
proof (induction io s and io s arbitrary: and b rule: initiate_backend_connect_fail_backend.induct)
  case (1 io s)
  let ?o = "open_backend (begun s)"
  obtain err where err: "io_connect io (backend_attempts (fst (begun s))) = Connect_errno err"
      "err \<noteq> 0" "err \<notin> {EINPROGRESS, EWOULDBLOCK, EAGAIN, 115}"
    using 1(2) unfolding refuses_def by blast
  have "steady s (begun s)" by (simp add: begun_def)
  then have o: "backend_sock (fst ?o) = Some (w_next_sock (snd s))" "client_sock (fst ?o) = client_sock (fst s)"
      "w_next_sock (snd ?o) = Suc (w_next_sock (snd s))" "w_closed (snd ?o) = w_closed (snd s)"
    by (cases "begun s"; simp add: steady_def new_socket_def)+
  have n: "backend_attempts (fst ?o) = backend_attempts (fst s)" by (simp add: begun_def del: open_backend.simps)
  have "initiate_backend_connect io s = fail_backend io ?o"
    using err by (simp add: Let_def begun_def del: open_backend.simps)
  moreover obtain t where t: "fail_backend io ?o = Returned t" "given_up {w_next_sock (snd s)} ?o t"
      "w_next_sock (snd t) \<le> w_next_sock (snd ?o) + nat (MAX_BACKEND_RETRIES + 1 - backend_attempts (fst ?o))"
    using 1(1) [OF refl err(1) [unfolded begun_def] refl err(2,3) 1(2) _ o(1) [unfolded begun_def]] 1(3) n
    by (auto simp: begun_def simp del: open_backend.simps)
  moreover have "given_up {} s t"
    using t(2) o unfolding given_up_def by auto
  moreover have "w_next_sock (snd t) \<le> w_next_sock (snd s) + nat (MAX_BACKEND_RETRIES + 2 - backend_attempts (fst s))"
    using t(3) 1(3) unfolding n o by (simp add: nat_le_iff of_nat_diff)
  ultimately show ?case by auto
next
  case (2 io s)
  let ?d = "drop_backend s"
  note d = drop_drops [OF 2(4)]
  obtain ob w where sel: "router_select (Some (tried_backends (fst ?d))) (snd ?d) = (ob, w)" by fastforce
  have d': "drops b s (fst ?d, w)"
    using steady_select [OF sel, of ?d "fst ?d"] d by (simp add: steady_def drops_def)
  show ?case
  proof (cases "can_retry (fst ?d) \<and> ob \<noteq> None")
    case True
    then obtain b' where "ob = Some b'" by blast
    let ?s = "(retry_reset b' (fst ?d), w)"
    have "fail_backend io s = initiate_backend_connect io ?s"
      using True sel \<open>ob = Some b'\<close> by (subst fail_backend.simps) (simp add: Let_def)
    moreover have n: "backend_attempts (fst ?s) = backend_attempts (fst s) + 1" "backend_attempts (fst s) \<le> MAX_BACKEND_RETRIES"
      using True can_retry_attempts [of "fst ?d"] by simp_all
    moreover obtain t where "initiate_backend_connect io ?s = Returned t" "given_up {} ?s t"
      "w_next_sock (snd t) \<le> w_next_sock (snd ?s) + nat (MAX_BACKEND_RETRIES + 2 - backend_attempts (fst ?s))"
      using 2(1) [OF refl _ sel [symmetric] \<open>ob = Some b'\<close> 2(2)] True n by auto
    moreover have "drops b s ?s" using d' by (simp add: drops_def retry_reset_def)
    ultimately show ?thesis unfolding given_up_def drops_def by auto
  next
    case False
    let ?t = "send_error io 502 ''Bad Gateway'' (if can_retry (fst ?d) then (fst ?d, w) else ?d)"
    have "fail_backend io s = Returned ?t"
      using False sel by (subst fail_backend.simps) (cases ob; auto simp: Let_def)
    moreover have "given_up {b} s ?t"
      by (rule drops_given_up [of _ _ "if can_retry (fst ?d) then (fst ?d, w) else ?d"]) (use d d' in \<open>simp_all\<close>)
    moreover have "w_next_sock (snd ?t) = w_next_sock (snd s)"
      using steady_error [of ?d io 502 "''Bad Gateway''" "if can_retry (fst ?d) then (fst ?d, w) else ?d"] d d'
      by (simp add: steady_def drops_def split: if_splits)
    ultimately show ?thesis by auto
  qed
qed

text \<open>With a retry allowed the socket that is given up first is not the one that waits.\<close>

lemma retry_gives_up:
  assumes "refuses io" and "engaged s" and "parsed_request (fst s) = Some req" and "idempotent req"
    and "backend_sock (fst s) = Some b" and "backend_addr (fst s) = Some a" and "backend_attempts (fst s) \<le> MAX_BACKEND_RETRIES"
    and "\<not> healthy_pool (w_router (snd s)) \<subseteq> insert a (tried_backends (fst s))"
  shows "\<exists>t p. fail_backend io s = Returned t \<and> given_up {b} s t \<and> pending_backend_unregister (fst t) = Some p \<and>
    w_next_sock (snd s) \<le> p \<and> p \<in> w_closed (snd t) \<and>
    w_next_sock (snd t) \<le> w_next_sock (snd s) + nat (MAX_BACKEND_RETRIES + 1 - backend_attempts (fst s))"
proof -
  let ?d = "drop_backend s"
  note d = drop_drops [OF assms(5)] and eng = drop_engaged [OF assms(2,3,6)]
  have T: "tried_backends (fst ?d) = insert a (tried_backends (fst s))" by (simp add: assms(6))
  obtain ob w where sel: "router_select (Some (tried_backends (fst ?d))) (snd ?d) = (ob, w)" by fastforce
  then obtain r' where "next_backend (w_router (snd ?d)) (Some (tried_backends (fst ?d))) = (ob, r')" by (rule router_selectE)
  with router.select_None [OF eng(3), of "Some (tried_backends (fst ?d))"] assms(8) eng(2) T obtain b' where b': "ob = Some b'"
    by (cases ob) auto
  let ?s = "(retry_reset b' (fst ?d), w)"
  have "drops b s (fst ?d, w)" using steady_select [OF sel, of ?d "fst ?d"] d by (simp add: steady_def drops_def)
  then have s: "drops b s ?s" by (simp add: drops_def retry_reset_def)
  have "fail_backend io s = initiate_backend_connect io ?s"
    using eng(1) assms(4,7) sel b' by (subst fail_backend.simps) (simp add: Let_def)
  moreover have n: "backend_attempts (fst ?s) = backend_attempts (fst s) + 1" by simp
  moreover obtain u where "initiate_backend_connect io ?s = Returned u" "given_up {} ?s u"
    "w_next_sock (snd u) \<le> w_next_sock (snd ?s) + nat (MAX_BACKEND_RETRIES + 2 - backend_attempts (fst ?s))"
    using refused_gives_up(1) [OF assms(1), of ?s] assms(7) n by auto
  ultimately show ?thesis using s unfolding given_up_def drops_def by auto
qed

section \<open>The registration that stays\<close>

lemma unregister_unregistered:
  assumes "tidy k A sel" and "p \<notin> A" and "p \<in> sock_closed k'"
  shows "sel_unregister k' p sel = Absent sel"
proof -
  have "key_fileobj (snd x) \<in> A" if "x \<in> set (sel_keys sel)" for x
    using assms(1) that by (auto simp: tidy_def key_entry_def)
  with assms(2) have "find (\<lambda>(fd, key). key_fileobj key = p) (sel_keys sel) = None"
    by (force simp: find_None_iff)
  with assms(3) show ?thesis by (simp add: sel_unregister_def fileobj_lookup_def fileno_def)
qed

lemma stranded_transition:
  assumes "tidy (r_sockets r) A (r_selector r)" and "given_up S (session_of r cid) t"
    and "pending_backend_unregister (fst t) = Some p" and "p \<notin> A" and "p \<in> w_closed (snd t)"
  shows "transition cid prev (put_session cid t r) = Returned (settled_as cid t (r_selector r) r)"
proof -
  have "p \<in> sock_closed (r_sockets (put_session cid t r))" using assms(5) by (simp add: r_sockets_def)
  from unregister_unregistered [OF assms(1,4) this]
  have un: "sel_unregister (r_sockets (put_session cid t r)) p (r_selector r) = Absent (r_selector r)" .
  have "backend_sock (fst t) = None" and st: "state (fst t) = DONE" using assms(2) by (simp_all add: given_up_def)
  moreover have "(put_session cid t r)\<lparr>r_objs := (r_objs (put_session cid t r))
      (cid := (r_objs (put_session cid t r) cid)\<lparr>pending_backend_unregister := None\<rparr>)\<rparr> = settled_as cid t (r_selector r) r"
    by (simp add: settled_as_def set_selector_def put_session_def)
  moreover have "set_selector (r_selector r) (put_session cid t r) = put_session cid t r"
    by (simp add: set_selector_def put_session_def)
  ultimately have "flush_pending_unregister cid (put_session cid t r) = Returned (settled_as cid t (r_selector r) r)"
    using un assms(3) by (simp add: flush_pending_unregister_def Let_def)
  from transition_settled(1) [OF _ this st] assms(3) show ?thesis by simp
qed

lemma dispatch_strands:
  assumes r: "attended r" "cid \<in> cids r" and c: "state (r_objs r cid) = CONNECTING_TO_BACKEND" "backend_sock (r_objs r cid) = Some b"
    and io: "refuses (ios Backend_writable)" "io_sockopt (ios Backend_writable) = Some err" "err \<noteq> 0"
    and req: "parsed_request (r_objs r cid) = Some req" "idempotent req"
    and a: "backend_addr (r_objs r cid) = Some a" "backend_attempts (r_objs r cid) \<le> MAX_BACKEND_RETRIES"
      "\<not> healthy_pool (w_router (r_world r)) \<subseteq> insert a (tried_backends (r_objs r cid))"
  shows "\<exists>t. dispatch_guarded ios cid b EVENT_WRITE r = Some (settled_as cid t (r_selector r) r) \<and> given_up {b} (session_of r cid) t \<and>
    w_next_sock (snd t) \<le> w_next_sock (r_world r) + nat MAX_BACKEND_RETRIES"
proof -
  let ?s = "session_of r cid"
  note conn = attended_conn [OF r]
  have s: "fst ?s = r_objs r cid" "snd ?s = r_world r" by (simp_all add: session_of_def)
  have eng: "engaged ?s" using phaseD(2) [OF conn(2)] c(1) by (simp add: s)
  have "\<exists>t p. fail_backend (ios Backend_writable) ?s = Returned t \<and> given_up {b} ?s t \<and>
      pending_backend_unregister (fst t) = Some p \<and> w_next_sock (snd ?s) \<le> p \<and> p \<in> w_closed (snd t) \<and>
      w_next_sock (snd t) \<le> w_next_sock (snd ?s) + nat (MAX_BACKEND_RETRIES + 1 - backend_attempts (fst ?s))"
    by (rule retry_gives_up [OF io(1) eng]) (use req c(2) a in \<open>simp_all add: s\<close>)
  then obtain t p where t: "fail_backend (ios Backend_writable) ?s = Returned t" "given_up {b} ?s t"
      "pending_backend_unregister (fst t) = Some p" "w_next_sock (r_world r) \<le> p" "p \<in> w_closed (snd t)"
      "w_next_sock (snd t) \<le> w_next_sock (r_world r) + nat (MAX_BACKEND_RETRIES + 1 - backend_attempts (r_objs r cid))"
    by (auto simp: s)
  have "1 \<le> backend_attempts (r_objs r cid)" using eng by (simp add: engaged_def attempts_ok_def s)
  then have few: "w_next_sock (snd t) \<le> w_next_sock (r_world r) + nat MAX_BACKEND_RETRIES"
    using t(6) by (simp add: nat_le_iff)
  have "handle Backend_writable (ios Backend_writable) ?s = Some (Returned t)"
    using t(1) c io(2,3) by (simp add: session_of_def)
  moreover have "p \<notin> open_socks r" using t(4) by (simp add: open_socks_def)
  ultimately have run: "run_handler Backend_writable (ios Backend_writable) cid r =
      Some (Returned (settled_as cid t (r_selector r) r))"
    using stranded_transition [OF conn(3) t(2,3) _ t(5)] by (simp add: run_handler_def)
  have "b \<noteq> client_sock (r_objs r cid)" using conn(1) c(2) by (auto simp: served_def)
  moreover have "EVENT_WRITE AND EVENT_WRITE \<noteq> 0" "EVENT_WRITE AND EVENT_READ = 0"
    by (simp_all add: EVENT_READ_def EVENT_WRITE_def)
  moreover have "flush_pending_unregister cid (settled_as cid t (r_selector r) r) = Returned (settled_as cid t (r_selector r) r)"
    by (rule flush_nothing) simp
  moreover have "schedule_deadline cid (settled_as cid t (r_selector r) r) = settled_as cid t (r_selector r) r"
    using t(2) by (simp add: schedule_deadline_def given_up_def)
  ultimately have "dispatch ios cid b EVENT_WRITE r = Some (Returned (settled_as cid t (r_selector r) r))"
    using run c(2) by (simp add: dispatch_def)
  with t(2) few show ?thesis by (auto simp: dispatch_guarded_def)
qed

text \<open>A client on a descriptor that is in the selector's table makes \<open>_accept\<close> raise.\<close>

lemma accept_on_taken:
  assumes "w_next_sock (r_world r) \<notin> w_closed (r_world r)" and "0 \<le> r_fd r (w_next_sock (r_world r))"
    and "map_of (sel_keys (r_selector r)) (r_fd r (w_next_sock (r_world r))) \<noteq> None"
  shows "\<exists>t. accept_all ((addr, hint) # as) r = Raised (put_session (new_identity hint r) t r) \<and> w_closed (snd t) = w_closed (r_world r)"
proof -
  let ?cid = "new_identity hint r" and ?n = "w_next_sock (r_world r)"
  define t where "t = new_connection ?n addr (snd (new_socket (r_world r)))"
  let ?r = "put_session ?cid t r"
  have t: "w_closed (snd t) = w_closed (r_world r)" by (simp add: t_def new_connection_fields new_socket_def)
  then have "fileno (r_sockets ?r) ?n = r_fd r ?n" using assms(1) by (simp add: fileno_def r_sockets_def)
  then have "sel_register (r_sockets ?r) ?n EVENT_READ (Conn ?cid) (r_selector r) = Absent (r_selector r)"
    using assms(2,3) by (simp add: sel_register_def fileobj_lookup_def Let_def)
  moreover have "set_selector (r_selector r) ?r = ?r" by (simp add: set_selector_def put_session_def)
  moreover have "fst (new_socket (r_world r)) = ?n" by (simp add: new_socket_def)
  ultimately have "accept_one (addr, hint) r = Raised ?r"
    by (simp add: accept_one_def Let_def case_prod_unfold t_def [symmetric])
  with t show ?thesis by auto
qed

section \<open>The round\<close>

lemma ready_pair:
  "select_ready [x, y] sel = select_ready [x] sel @ select_ready [y] sel"
  by (simp add: select_ready_def List.map_filter_def)


text \<open>The only backend tried so far refuses late, the two others at once.\<close>

definition stale_round :: round_io where
  "stale_round = refusing_on_5 UNIV [(3, EVENT_READ)] [((''10.0.0.6'', 4000), 8)]"

lemma demo_unrefused: "unrefused (io_handlers quiet i ev)" "unrefused (io_handlers (arriving as) i ev)"
    "unrefused (io_handlers (asking_on x) i ev)" "unrefused (io_handlers (refusing_on_5 {} ys as) i ev)"
  by (simp_all add: unrefused_def quiet_def arriving_def asking_on_def refusing_on_5_def demo_io_def EINPROGRESS_def)

lemma demo_smooth:
  assumes "\<forall>rio \<in> set rios. \<forall>i ev. unrefused (io_handlers rio i ev)" and "orderly rios (demo_reactor real)"
  obtains r where "loop rios (demo_reactor real) = Some (Returned r)"
    "serving_smoothly (LC (lc_init [(''b'', 1), (''c'', 2), (''d'', 3)])) real demo_fd r"
proof -
  let ?rt = "LC (lc_init [(''b'', 1), (''c'', 2), (''d'', 3)])"
  have "distinct [(''b'', 1 :: int), (''c'', 2), (''d'', 3)]" by simp
  then have ok: "router_ok ?rt" using create_router_ok demo_router by blast
  from smooth_loop [OF listening_attends(1) [OF ok demo_listening] orderly_smooth [OF assms]] obtain r where
    r: "loop rios (demo_reactor real) = Some (Returned r)" "smooth_step\<^sup>*\<^sup>* (demo_reactor real) r" by blast
  then have "serving_smoothly ?rt real demo_fd r" unfolding serving_smoothly_def using demo_listening by blast
  with r(1) that show thesis by blast
qed

lemma demo_stale:
  "orderly demo_waiting (demo_reactor real) \<and>
   (case loop demo_waiting (demo_reactor real) of
      Some (Returned r) \<Rightarrow> r_connections r = [(4, 7)] \<and> state (r_objs r 7) = CONNECTING_TO_BACKEND \<and>
        backend_sock (r_objs r 7) = Some 2 \<and> parsed_request (r_objs r 7) \<noteq> None \<and>
        idempotent (the (parsed_request (r_objs r 7))) \<and> backend_addr (r_objs r 7) = Some (''b'', 1) \<and>
        backend_attempts (r_objs r 7) = 1 \<and> \<not> healthy_pool (w_router (r_world r)) \<subseteq> insert (''b'', 1) (tried_backends (r_objs r 7)) \<and>
        r_server r = Some 0 \<and> r_running r \<and> w_next_sock (r_world r) = 3 \<and> r_fd r 0 = 3 \<and> r_fd r 2 = 5
    | _ \<Rightarrow> False)"
  by code_simp


end
