(* ===== verification/CommandLine.thy ===== *)
theory CommandLine
  imports Reactor HealthChecker
begin

text \<open>
  \<open>main.py\<close>: from the options to the backends, one worker process, and the supervisor of several. An
  option is what \<open>argparse\<close> has recognised on the command line; the results of \<open>fork\<close> and \<open>waitpid\<close> and the
  signals between them are arguments.
\<close>

section \<open>Backends\<close>

text \<open>\<open>s.rpartition(c)\<close> for a single character.\<close>

definition py_rpartition :: "char \<Rightarrow> string \<Rightarrow> string \<times> string \<times> string" where
  "py_rpartition c s =
     (if c \<in> set s
      then let tail = rev (takeWhile (\<lambda>x. x \<noteq> c) (rev s))
           in (take (length s - length tail - 1) s, [c], tail)
      else ([], [], s))"

fun parse_entries :: "string list \<Rightarrow> router_error + backend list" where
  "parse_entries [] = Inr []"
| "parse_entries (e # es) =
     (let entry = py_strip e
      in if entry = [] then parse_entries es
         else let (host, _, port_s) = py_rpartition CHR '':'' entry
              in case py_int port_s of
                   None \<Rightarrow> Inl (ValueError port_s)
                 | Some port \<Rightarrow> map_sum id ((#) (host, port)) (parse_entries es))"

definition parse_backends :: "string \<Rightarrow> router_error + backend list" where
  "parse_backends raw = parse_entries (py_split '','' raw)"

record args =
  args_host :: string
  args_port :: int
  args_algorithm :: string
  args_backends :: "string option"
  args_no_health_check :: bool
  args_workers :: int

text \<open>\<open>main\<close> up to the start: an error of the parser ends the process, so does a \<open>ValueError\<close>.\<close>

datatype main_error = Usage string | Uncaught router_error

section \<open>Options\<close>

text \<open>An option with its argument, as it was written. \<open>int\<close> and \<open>choices\<close> may refuse it.\<close>

datatype option_use =
  Host string | Port string | Algorithm string | Backends string | No_health_check | Workers string

definition default_args :: args where
  "default_args =
     \<lparr>args_host = LISTEN_HOST, args_port = LISTEN_PORT, args_algorithm = ROUTING_ALGORITHM,
      args_backends = None, args_no_health_check = False, args_workers = WORKERS\<rparr>"

definition int_argument :: "string \<Rightarrow> (int \<Rightarrow> args) \<Rightarrow> main_error + args" where
  "int_argument text f =
     (case py_int text of None \<Rightarrow> Inl (Usage (''invalid int value: '' @ text)) | Some n \<Rightarrow> Inr (f n))"

fun use_option :: "option_use \<Rightarrow> args \<Rightarrow> main_error + args" where
  "use_option (Host host) a = Inr (a\<lparr>args_host := host\<rparr>)"
| "use_option (Port text) a = int_argument text (\<lambda>n. a\<lparr>args_port := n\<rparr>)"
| "use_option (Algorithm name) a =
     (if name \<in> {''round_robin'', ''least_connections''} then Inr (a\<lparr>args_algorithm := name\<rparr>)
      else Inl (Usage (''invalid choice: '' @ name)))"
| "use_option (Backends raw) a = Inr (a\<lparr>args_backends := Some raw\<rparr>)"
| "use_option No_health_check a = Inr (a\<lparr>args_no_health_check := True\<rparr>)"
| "use_option (Workers text) a = int_argument text (\<lambda>n. a\<lparr>args_workers := n\<rparr>)"

fun use_options :: "option_use list \<Rightarrow> args \<Rightarrow> main_error + args" where
  "use_options [] a = Inr a"
| "use_options (u # us) a = (case use_option u a of Inl e \<Rightarrow> Inl e | Inr a \<Rightarrow> use_options us a)"

definition parse_args :: "option_use list \<Rightarrow> main_error + args" where
  "parse_args us = use_options us default_args"

definition configure :: "args \<Rightarrow> main_error + backend list" where
  "configure a =
     (if args_workers a < 1 then Inl (Usage ''--workers must be >= 1'')
      else case args_backends a of
             None \<Rightarrow> Inr BACKENDS
           | Some raw \<Rightarrow> if raw = [] then Inr BACKENDS else map_sum Uncaught id (parse_backends raw))"

section \<open>A worker\<close>

text \<open>
  What a worker runs on: the platform, the clock, the descriptors, the kernel's answers, and whether a
  signal arrives once its handler is installed but before the reactor's loop begins. For the health checker: whether
  a thread can be started, the sweeps it begins with the answers to its probes, and its pace, which is for each round
  of the loop the number of its marks that fall before each event, and after the last.
\<close>

record platform =
  has_reuseport :: bool
  bind_ok :: bool
  p_clock :: "nat \<Rightarrow> real"
  p_fd :: "sock \<Rightarrow> int"
  p_early_signal :: bool
  p_rounds :: "round_io list"
  p_threads :: bool
  p_sweeps :: nat
  p_probes :: "nat \<Rightarrow> nat \<Rightarrow> probe_io"
  p_pace :: "nat list list"

text \<open>The marks of the thread, in their order, at the places the pace gives them.\<close>

fun spread :: "nat list \<Rightarrow> 'a list \<Rightarrow> 'a list list \<times> 'a list" where
  "spread [] ms = ([], ms)"
| "spread (n # ns) ms = (let (xs, rest) = spread ns (drop n ms) in (take n ms # xs, rest))"

fun with_marks :: "nat list list \<Rightarrow> (backend \<times> bool) list \<Rightarrow> round_io list \<Rightarrow> round_io list" where
  "with_marks pace ms [] = []"
| "with_marks [] ms (rio # rios) = rio\<lparr>io_marks := []\<rparr> # with_marks [] ms rios"
| "with_marks (ns # pace) ms (rio # rios) =
     (let (xs, ms) = spread ns ms in rio\<lparr>io_marks := xs\<rparr> # with_marks pace ms rios)"

definition worker_rounds :: "platform \<Rightarrow> args \<Rightarrow> router \<Rightarrow> round_io list" where
  "worker_rounds p a rt =
     with_marks (p_pace p)
       (if args_no_health_check a then []
        else marks_of (thread_ops (p_sweeps p) (p_probes p) (get_all_backends rt)))
       (p_rounds p)"

datatype worker_error = Router_error router_error | Thread_error

text \<open>The health checker before the \<open>try\<close>, \<open>None\<close> when its thread cannot be started, and in the \<open>finally\<close>.\<close>

definition start_checking :: "platform \<Rightarrow> args \<Rightarrow> health_checker option option" where
  "start_checking p a =
     (if args_no_health_check a then Some None
      else if p_threads p then map_option Some (start_checker new_checker) else None)"

definition stop_checking :: "health_checker option \<Rightarrow> reactor outcome \<Rightarrow>
    worker_error + reactor outcome \<times> (health_checker \<times> real) option" where
  "stop_checking hc res =
     (case hc of
        None \<Rightarrow> Inr (res, None)
      | Some c \<Rightarrow>
          (case stop_checker c of
             None \<Rightarrow> Inl Thread_error
           | Some waited \<Rightarrow> Inr (res, Some waited)))"

text \<open>
  \<open>_run_worker\<close>: how the reactor has ended and the health checker that was stopped then, with the time its
  thread is waited for. \<open>None\<close> while the worker runs.
\<close>

definition run_worker :: "platform \<Rightarrow> args \<Rightarrow> backend list \<Rightarrow>
    (worker_error + reactor outcome \<times> (health_checker \<times> real) option) option" where
  "run_worker p a backends =
     (case create_router (args_algorithm a) backends of
        Inl e \<Rightarrow> Some (Inl (Router_error e))
      | Inr rt \<Rightarrow>
          let r = initial_reactor rt (p_clock p) (p_fd p);
              r = (if p_early_signal p then stop r else r)
          in case start_checking p a of
               None \<Rightarrow> Some (Inl Thread_error)
             | Some hc \<Rightarrow>
                 map_option (stop_checking hc)
                   (start (has_reuseport p) (1 < args_workers a) (bind_ok p) (worker_rounds p a rt) r))"

text \<open>
  The status a worker process exits with: an exception is logged and gives 1. \<open>None\<close> while it runs.
\<close>

fun worker_exit :: "(worker_error + reactor outcome \<times> (health_checker \<times> real) option) option \<Rightarrow> int option" where
  "worker_exit None = None"
| "worker_exit (Some (Inl e)) = Some 1"
| "worker_exit (Some (Inr (Returned r, hc))) = Some 0"
| "worker_exit (Some (Inr (Raised r, hc))) = Some 1"

lemma with_marks_keeps [simp]:
  "map io_signal (with_marks pace ms rios) = map io_signal rios"
  "map io_handlers (with_marks pace ms rios) = map io_handlers rios"
  by (induction pace ms rios rule: with_marks.induct) (simp_all add: Let_def split: prod.split)

lemma worker_rounds_keep:
  "(\<exists>rio \<in> set (worker_rounds p a rt). io_signal rio) \<longleftrightarrow> (\<exists>rio \<in> set (p_rounds p). io_signal rio)"
  "(\<forall>rio \<in> set (worker_rounds p a rt). P (io_handlers rio)) \<longleftrightarrow> (\<forall>rio \<in> set (p_rounds p). P (io_handlers rio))"
proof -
  have "(\<exists>rio \<in> set rios. f rio) = (\<exists>x \<in> set (map f rios). x)" "(\<forall>rio \<in> set rios. P (g rio)) = (\<forall>x \<in> set (map g rios). P x)"
    for f and g :: "round_io \<Rightarrow> nat \<Rightarrow> event \<Rightarrow> io" and rios
    by simp_all
  then show "(\<exists>rio \<in> set (worker_rounds p a rt). io_signal rio) \<longleftrightarrow> (\<exists>rio \<in> set (p_rounds p). io_signal rio)"
    "(\<forall>rio \<in> set (worker_rounds p a rt). P (io_handlers rio)) \<longleftrightarrow> (\<forall>rio \<in> set (p_rounds p). P (io_handlers rio))"
    unfolding worker_rounds_def by (simp_all only: with_marks_keeps)
qed

text \<open>When the thread can be started the worker comes to what its reactor comes to, and stops the thread then.\<close>

lemma run_worker_checked:
  assumes "create_router (args_algorithm a) backends = Inr rt" and "args_no_health_check a \<or> p_threads p"
  shows "run_worker p a backends =
    map_option (\<lambda>res. Inr (res, if args_no_health_check a then None
        else Some (new_checker\<lparr>hc_started := True, hc_stop_event := True\<rparr>, HEALTH_CHECK_INTERVAL + 2)))
      (start (has_reuseport p) (1 < args_workers a) (bind_ok p) (worker_rounds p a rt)
        (initial_reactor rt (p_clock p) (p_fd p)))"
proof -
  have "stop (initial_reactor rt c f) = initial_reactor rt c f" for c f by (simp add: stop_def initial_reactor_def)
  with assms show ?thesis
    by (auto simp: run_worker_def start_checking_def stop_checking_def start_checker_def stop_checker_def new_checker_def
        Let_def fun_eq_iff intro!: option.map_cong)
qed

section \<open>The supervisor\<close>

datatype wait_status = Exited int | Signaled int | Other_status int

datatype wait_result = Waited int wait_status | No_child | Interrupted

text \<open>The children that run, the exit code so far, and the processes that were sent \<open>SIGTERM\<close>, in order.\<close>

record supervisor =
  sup_children :: "int list"
  sup_exit :: int
  sup_sent :: "int list"

definition forked :: "int list \<Rightarrow> supervisor" where
  "forked pids = \<lparr>sup_children = pids, sup_exit = 0, sup_sent = []\<rparr>"

text \<open>\<open>os.kill(pid, signal.SIGTERM)\<close> for every child; one that has gone is passed over.\<close>

definition terminate_children :: "supervisor \<Rightarrow> supervisor" where
  "terminate_children s = s\<lparr>sup_sent := sup_sent s @ sup_children s\<rparr>"

definition exit_code_after :: "wait_status \<Rightarrow> int \<Rightarrow> int" where
  "exit_code_after st code =
     (case st of Exited c \<Rightarrow> if c \<noteq> 0 then c else code | Signaled sig \<Rightarrow> 1 | Other_status n \<Rightarrow> 1)"

definition child_ended :: "int \<Rightarrow> wait_status \<Rightarrow> supervisor \<Rightarrow> supervisor" where
  "child_ended pid st s =
     s\<lparr>sup_children := remove1 pid (sup_children s), sup_exit := exit_code_after st (sup_exit s)\<rparr>"

text \<open>
  The loop that forks: what happens in it, in order. A signal is handled there like anywhere else: it
  goes to the children there are, and the loop goes on. A failing \<open>fork\<close> is not caught. \<open>None\<close>
  while the loop has not ended.
\<close>

datatype fork_event = Forked int | Fork_raises | Signalled

fun fork_loop :: "nat \<Rightarrow> fork_event list \<Rightarrow> supervisor \<Rightarrow> supervisor outcome option" where
  "fork_loop 0 evs s = Some (Returned s)"
| "fork_loop (Suc n) [] s = None"
| "fork_loop (Suc n) (Forked pid # evs) s = fork_loop n evs (s\<lparr>sup_children := sup_children s @ [pid]\<rparr>)"
| "fork_loop (Suc n) (Fork_raises # evs) s = Some (Raised s)"
| "fork_loop (Suc n) (Signalled # evs) s = fork_loop (Suc n) evs (terminate_children s)"

text \<open>The loop over \<open>waitpid\<close>, which blocks (\<open>None\<close>) when nothing more is reported.\<close>

fun wait_loop :: "wait_result list \<Rightarrow> supervisor \<Rightarrow> supervisor option" where
  "wait_loop [] s = (if sup_children s = [] then Some s else None)"
| "wait_loop (w # ws) s =
     (if sup_children s = [] then Some s
      else case w of
             No_child \<Rightarrow> Some s
           | Interrupted \<Rightarrow> wait_loop ws (terminate_children s)
           | Waited pid st \<Rightarrow>
               if pid \<notin> set (sup_children s) then wait_loop ws s
               else wait_loop ws (terminate_children (child_ended pid st s)))"

text \<open>
  The exit status of the supervisor of \<open>n\<close> workers, 1 for the exception of \<open>fork\<close>, \<open>None\<close> while it runs.
\<close>

definition run_supervisor :: "bool \<Rightarrow> nat \<Rightarrow> fork_event list \<Rightarrow> wait_result list \<Rightarrow> int option" where
  "run_supervisor reuseport n evs ws =
     (if \<not> reuseport then Some 1
      else case fork_loop n evs (forked []) of
             None \<Rightarrow> None
           | Some (Raised s) \<Rightarrow> Some 1
           | Some (Returned s) \<Rightarrow> map_option sup_exit (wait_loop ws s))"

text \<open>
  The exit status of the whole program: 2 for an error of the parser, 1 for an exception, else what the
  one worker or the supervisor gives. \<open>evs\<close> is what happens while it forks, \<open>ws\<close> while it waits.
\<close>

definition main_status :: "platform \<Rightarrow> option_use list \<Rightarrow> fork_event list \<Rightarrow> wait_result list \<Rightarrow> int option" where
  "main_status p us evs ws =
     (case parse_args us of
        Inl e \<Rightarrow> Some 2
      | Inr a \<Rightarrow>
          (case configure a of
             Inl (Usage msg) \<Rightarrow> Some 2
           | Inl (Uncaught e) \<Rightarrow> Some 1
           | Inr backends \<Rightarrow>
               if args_workers a = 1 then worker_exit (run_worker p a backends)
               else run_supervisor (has_reuseport p) (nat (args_workers a)) evs ws))"

section \<open>Splitting\<close>

lemma rpartition_joined:
  assumes "c \<notin> set t"
  shows "py_rpartition c (h @ c # t) = (h, [c], t)"
proof -
  have "takeWhile (\<lambda>x. x \<noteq> c) (rev t @ c # rev h) = rev t"
    using assms by (subst takeWhile_append2) auto
  then show ?thesis by (simp add: py_rpartition_def)
qed

lemma find_char: "c \<notin> set s \<Longrightarrow> find_sub [c] (s @ c # t) = Some (length s)"
  by (induction s) auto

lemma find_char_None: "c \<notin> set s \<Longrightarrow> find_sub [c] s = None"
  by (induction s) auto

lemma split_chars:
  "ls \<noteq> [] \<Longrightarrow> \<forall>l \<in> set ls. c \<notin> set l \<Longrightarrow> length ls \<le> Suc k \<Longrightarrow> py_split_max [c] k (py_join [c] ls) = ls"
proof (induction "[c]" ls arbitrary: k rule: py_join.induct)
  case (2 x)
  then show ?case by (cases k) (simp_all add: find_char_None)
next
  case (3 x y zs)
  then show ?case by (cases k) (simp_all add: find_char)
qed simp

lemma length_py_join_char: "length ls \<le> Suc (length (py_join [c] ls))"
  by (induction "[c]" ls rule: py_join.induct) auto

lemma split_char_joined:
  "ls \<noteq> [] \<Longrightarrow> \<forall>l \<in> set ls. c \<notin> set l \<Longrightarrow> py_split [c] (py_join [c] ls) = ls"
  unfolding py_split_def by (rule split_chars [OF _ _ length_py_join_char])

section \<open>Printing backends\<close>

definition show_backend :: "backend \<Rightarrow> string" where
  "show_backend b = fst b @ CHR '':'' # show_int (snd b)"

text \<open>A host that survives the comma and the stripping, and a port of TCP.\<close>

definition clean_backend :: "backend \<Rightarrow> bool" where
  "clean_backend b \<longleftrightarrow> CHR '','' \<notin> set (fst b) \<and> (fst b = [] \<or> \<not> py_space (hd (fst b))) \<and>
     0 \<le> snd b \<and> snd b < 65536"

lemma show_base_chars:
  assumes "c \<in> set (show_base 10 n)"
  shows "c \<noteq> CHR '','' \<and> c \<noteq> CHR '':'' \<and> \<not> py_space c"
proof -
  obtain d where d: "d < 10" "c = digit_char d" using show_base_digits [OF _ _ assms] by auto
  then have "(of_char c :: nat) = d + 48" by (simp add: of_char_digit)
  with d digit_char_props(5) [of d] show ?thesis by auto
qed

text \<open>Numbers that no port can have are accepted as well; a probe of one raises an \<open>OverflowError\<close>.\<close>

lemma port_parses:
  assumes "0 \<le> p" and "p < 10 ^ 20"
  shows "py_int (show_int p) = Some p"
proof -
  have "length (show_base 10 (nat p)) \<le> 20"
    by (rule length_show_base_bound) (use assms in simp_all)
  then have "py_int (show_base 10 (nat p)) = Some (int (nat p))"
    by (intro py_int_show) (simp add: max_str_digits_def)
  with assms show ?thesis by (simp add: show_int_def)
qed

lemma show_port_chars: "0 \<le> p \<Longrightarrow> show_int p = show_base 10 (nat p)"
  by (simp add: show_int_def)

lemma parse_show_backend:
  assumes "clean_backend b"
  shows "parse_entries (show_backend b # es) = map_sum id ((#) b) (parse_entries es)"
proof -
  obtain h p where b: "b = (h, p)" by (cases b)
  note c = assms [unfolded b clean_backend_def fst_conv snd_conv]
  let ?d = "show_base 10 (nat p)"
  have d: "show_int p = ?d" using c by (simp add: show_port_chars)
  have "\<not> py_space (last ?d)" using show_base_chars [of "last ?d" "nat p"] by simp
  moreover have "\<not> py_space CHR '':''" by (simp add: py_space_def)
  ultimately have "py_strip (show_backend b) = show_backend b"
    unfolding py_strip_def strip_by_fixed using c by (cases h) (simp_all add: b show_backend_def d)
  moreover have "py_rpartition CHR '':'' (show_backend b) = (h, [CHR '':''], ?d)"
    unfolding b show_backend_def fst_conv snd_conv d by (rule rpartition_joined) (use show_base_chars in blast)
  moreover have "py_int ?d = Some p" using port_parses [of p] c d by simp
  moreover have "show_backend b \<noteq> []" by (simp add: show_backend_def)
  ultimately show ?thesis by (simp add: b Let_def)
qed

lemma parse_show_backends: "\<forall>b \<in> set bs. clean_backend b \<Longrightarrow> parse_entries (map show_backend bs) = Inr bs"
  by (induction bs) (simp_all add: parse_show_backend del: parse_entries.simps(2))

lemma show_backend_commas: "clean_backend b \<Longrightarrow> CHR '','' \<notin> set (show_backend b)"
  using show_base_chars [of "CHR '',''" "nat (snd b)"]
  by (auto simp: show_backend_def clean_backend_def show_port_chars)

section \<open>The supervisor's loop\<close>

definition status_code :: "wait_status \<Rightarrow> int" where
  "status_code st = (case st of Exited c \<Rightarrow> c | Signaled sig \<Rightarrow> 1 | Other_status n \<Rightarrow> 1)"

lemma exit_code_after_eq: "exit_code_after st code = (if status_code st \<noteq> 0 then status_code st else code)"
  by (cases st) (simp_all add: exit_code_after_def status_code_def)

abbreviation reports :: "(int \<times> wait_status) list \<Rightarrow> wait_result list" where
  "reports rs \<equiv> map (\<lambda>(pid, st). Waited pid st) rs"

text \<open>What is reported of the processes in \<open>P\<close>, whatever else \<open>waitpid\<close> returns between.\<close>

fun reported :: "int set \<Rightarrow> wait_result list \<Rightarrow> (int \<times> wait_status) list" where
  "reported P [] = []"
| "reported P (Waited pid st # ws) = (if pid \<in> P then [(pid, st)] else []) @ reported P ws"
| "reported P (No_child # ws) = reported P ws"
| "reported P (Interrupted # ws) = reported P ws"

lemma reported_remove: "p \<notin> fst ` set (reported P ws) \<Longrightarrow> reported (P - {p}) ws = reported P ws"
  by (induction P ws rule: reported.induct) (auto split: if_splits)

lemma reported_reports: "fst ` set rs \<subseteq> P \<Longrightarrow> reported P (reports rs) = rs"
  by (induction rs) auto

definition failures :: "(int \<times> wait_status) list \<Rightarrow> int list" where
  "failures rs = filter (\<lambda>c. c \<noteq> 0) (map (status_code \<circ> snd) rs)"

lemma wait_loop_empty: "sup_children s = [] \<Longrightarrow> wait_loop ws s = Some s"
  by (cases ws) simp_all

lemma wait_loop_ends:
  assumes "distinct (sup_children s)" and "No_child \<notin> set ws"
    and "mset (map fst (reported (set (sup_children s)) ws)) = mset (sup_children s)"
  shows "\<exists>t. wait_loop ws s = Some t \<and> sup_children t = [] \<and>
    sup_exit t = last (sup_exit s # failures (reported (set (sup_children s)) ws)) \<and>
    set (sup_sent s) \<union> set (tl (map fst (reported (set (sup_children s)) ws))) \<subseteq> set (sup_sent t)"
  using assms
proof (induction ws arbitrary: s)
  case (Cons w ws)
  show ?case
  proof (cases "sup_children s = []")
    case True
    with Cons.prems(3) have "reported {} (w # ws) = []" by simp
    with True show ?thesis by (simp add: failures_def)
  next
    case ne: False
    show ?thesis
    proof (cases w)
      case Interrupted
      with Cons.IH [of "terminate_children s"] Cons.prems ne show ?thesis by (auto simp: terminate_children_def)
    next
      case (Waited pid st)
      show ?thesis
      proof (cases "pid \<in> set (sup_children s)")
        case False
        with Cons.IH [of s] Cons.prems ne Waited show ?thesis by simp
      next
        case mem: True
        let ?s = "terminate_children (child_ended pid st s)"
        let ?P = "set (sup_children s)"
        have ch: "sup_children ?s = remove1 pid (sup_children s)"
          "sup_exit ?s = exit_code_after st (sup_exit s)" "sup_sent ?s = sup_sent s @ remove1 pid (sup_children s)"
          by (simp_all add: terminate_children_def child_ended_def)
        have m: "mset (map fst (reported ?P ws)) = mset (remove1 pid (sup_children s))"
          using Cons.prems(3) mem Waited by (simp flip: Cons.prems(3))
        then have left: "fst ` set (reported ?P ws) = ?P - {pid}"
          using Cons.prems(1) by (metis list.set_map set_mset_mset set_remove1_eq)
        then have same: "reported (set (sup_children ?s)) ws = reported ?P ws"
          using Cons.prems(1) by (simp add: ch reported_remove)
        from Cons.IH [of ?s] Cons.prems(1,2) m obtain t where t: "wait_loop ws ?s = Some t" "sup_children t = []"
            "sup_exit t = last (sup_exit ?s # failures (reported ?P ws))"
            "set (sup_sent ?s) \<union> set (tl (map fst (reported ?P ws))) \<subseteq> set (sup_sent t)"
          unfolding same by (auto simp: ch)
        have "set (sup_sent s) \<union> fst ` set (reported ?P ws) \<subseteq> set (sup_sent t)"
          using t(4) Cons.prems(1) by (auto simp: ch left)
        with t mem ne Waited show ?thesis by (auto simp: ch(2) exit_code_after_eq failures_def)
      qed
    next
      case No_child
      with Cons.prems(2) show ?thesis by simp
    qed
  qed
qed (simp add: failures_def)

lemma fork_loop_forks:
  "fork_loop (length pids) (map Forked pids) s = Some (Returned (s\<lparr>sup_children := sup_children s @ pids\<rparr>))"
  by (induction pids arbitrary: s) simp_all

lemma fork_loop_more:
  "fork_loop (length pids + n) (map Forked pids @ evs) s =
    fork_loop n evs (s\<lparr>sup_children := sup_children s @ pids\<rparr>)"
  by (induction pids arbitrary: s) simp_all

lemma wait_loop_reports:
  assumes "distinct (sup_children s)" and "mset (map fst rs) = mset (sup_children s)"
  shows "\<exists>t. wait_loop (reports rs) s = Some t \<and> sup_children t = [] \<and>
    sup_exit t = last (sup_exit s # failures rs) \<and>
    set (sup_sent s) \<union> set (tl (map fst rs)) \<subseteq> set (sup_sent t)"
proof -
  have "fst ` set rs = set (sup_children s)" using assms(2) by (metis list.set_map set_mset_mset)
  then have same: "reported (set (sup_children s)) (reports rs) = rs" by (simp add: reported_reports)
  have "No_child \<notin> set (reports rs)" by auto
  from wait_loop_ends [OF assms(1) this] assms(2) show ?thesis unfolding same by blast
qed

section \<open>Properties\<close>

text \<open>C39: The option --backends gives back the backends it was printed from, in their order: hosts
  without comma and leading blank, colons included, and every port of TCP.\<close>

theorem backends_roundtrip:
  assumes "\<forall>b \<in> set backends. clean_backend b"
  shows "parse_backends (py_join '','' (map show_backend backends)) = Inr backends"
proof (cases "backends = []")
  case True
  then show ?thesis by (simp add: parse_backends_def py_split_def py_strip_def strip_by_def)
next
  case False
  then have "py_split '','' (py_join '','' (map show_backend backends)) = map show_backend backends"
    using assms show_backend_commas by (intro split_char_joined) auto
  then show ?thesis by (simp add: parse_backends_def parse_show_backends [OF assms])
qed

theorem backends_roundtrip_witness:
  "parse_backends (py_join '','' (map show_backend [(''127.0.0.1'', 8001), (''fe80::1'', 80)])) =
     Inr [(''127.0.0.1'', 8001), (''fe80::1'', 80)]"
proof -
  have "\<forall>b \<in> set [(''127.0.0.1'', 8001 :: int), (''fe80::1'', 80)]. clean_backend b"
    by (simp add: clean_backend_def py_space_def)
  from backends_roundtrip [OF this] show ?thesis .
qed

text \<open>C40: When every worker has been reported once, in any order, and whatever signals and reports of other
  processes come between, the supervisor ends. Its status is the exit code of the last worker that failed (1
  for a signal), 0 if none did, and every worker but the first to end has been sent SIGTERM.\<close>

theorem supervisor_ends:
  assumes "distinct pids" and "No_child \<notin> set ws" and "mset (map fst (reported (set pids) ws)) = mset pids"
  shows "run_supervisor True (length pids) (map Forked pids) ws =
      Some (last (0 # failures (reported (set pids) ws))) \<and>
    (\<exists>s. wait_loop ws (forked pids) = Some s \<and> sup_children s = [] \<and>
      set (tl (map fst (reported (set pids) ws))) \<subseteq> set (sup_sent s))"
proof -
  have "fork_loop (length pids) (map Forked pids) (forked []) = Some (Returned (forked pids))"
    by (simp add: fork_loop_forks) (simp add: forked_def)
  with wait_loop_ends [of "forked pids" ws] assms show ?thesis by (auto simp: run_supervisor_def forked_def)
qed

theorem supervisor_ends_witness:
  "run_supervisor True 3 (map Forked [10, 11, 12])
     [Waited 11 (Exited 3), Interrupted, Waited 99 (Exited 7), Waited 12 (Signaled 15), Waited 10 (Exited 0)] = Some 1"
proof -
  let ?ws = "[Waited 11 (Exited 3), Interrupted, Waited 99 (Exited 7), Waited 12 (Signaled 15), Waited 10 (Exited 0)]"
  have r: "reported (set [10, 11, 12]) ?ws = [(11, Exited 3), (12, Signaled 15), (10, Exited 0)]" by simp
  have "distinct [10 :: int, 11, 12]" "No_child \<notin> set ?ws"
    "mset (map fst (reported (set [10, 11, 12]) ?ws)) = mset [10, 11, 12]"
    unfolding r by simp_all
  from supervisor_ends [OF this, THEN conjunct1] show ?thesis
    unfolding r by (simp add: failures_def status_code_def numeral_3_eq_3)
qed

text \<open>A signal that reaches the supervisor before its first fork is lost: the handler finds no children
  and does not end the process, all workers are forked after it, none of them is told, and the supervisor
  waits for them.\<close>

theorem early_signal_is_lost:
  assumes "pids \<noteq> []"
  shows "\<exists>s. fork_loop (length pids) (Signalled # map Forked pids) (forked []) = Some (Returned s) \<and>
    sup_children s = pids \<and> sup_sent s = [] \<and>
    run_supervisor True (length pids) (Signalled # map Forked pids) [] = None"
proof -
  obtain n where n: "length pids = Suc n" using assms by (cases pids) auto
  have "fork_loop (length pids) (Signalled # map Forked pids) (forked []) =
      fork_loop (length pids) (map Forked pids) (terminate_children (forked []))"
    unfolding n by simp
  also have "\<dots> = Some (Returned (forked pids))"
    by (simp add: fork_loop_forks) (simp add: terminate_children_def forked_def)
  finally have f: "fork_loop (length pids) (Signalled # map Forked pids) (forked []) = Some (Returned (forked pids))" .
  with assms show ?thesis by (simp add: run_supervisor_def forked_def)
qed

theorem early_signal_is_lost_witness:
  "run_supervisor True 2 [Signalled, Forked 10, Forked 11] [] = None"
  using early_signal_is_lost [of "[10, 11]"] by (simp add: numeral_2_eq_2)

text \<open>A failing \<open>fork\<close> ends the supervisor with 1, and the workers it has are not told either.\<close>

lemma failing_fork_leaves_workers:
  "fork_loop (Suc (length pids + n)) (map Forked pids @ [Fork_raises]) (forked []) = Some (Raised (forked pids)) \<and>
    run_supervisor True (Suc (length pids + n)) (map Forked pids @ [Fork_raises]) ws = Some 1"
proof -
  have "fork_loop (Suc (length pids + n)) (map Forked pids @ [Fork_raises]) (forked []) = Some (Raised (forked pids))"
    using fork_loop_more [of pids "Suc n" "[Fork_raises]"] by (simp add: forked_def)
  then show ?thesis by (simp add: run_supervisor_def)
qed

text \<open>Whatever options are accepted, the algorithm is one the router knows: the ValueError of
  create_router cannot come from the command line. An option that is given twice counts as the last one.\<close>

theorem accepted_algorithm_is_known:
  assumes "parse_args us = Inr a"
  shows "(\<exists>rt. create_router (args_algorithm a) backends = Inr rt) \<and>
    args_algorithm a = last (ROUTING_ALGORITHM # List.map_filter (\<lambda>u. case u of Algorithm n \<Rightarrow> Some n | _ \<Rightarrow> None) us)"
proof -
  let ?alg = "List.map_filter (\<lambda>u. case u of Algorithm n \<Rightarrow> Some n | _ \<Rightarrow> None)"
  have "args_algorithm a \<in> {''round_robin'', ''least_connections''} \<and> args_algorithm a = last (args_algorithm a0 # ?alg us)"
    if "use_options us a0 = Inr a" "args_algorithm a0 \<in> {''round_robin'', ''least_connections''}" for a0
    using that
  proof (induction us arbitrary: a0)
    case (Cons u us)
    from Cons.prems(1) obtain a1 where a1: "use_option u a0 = Inr a1" "use_options us a1 = Inr a"
      by (auto split: sum.splits)
    with Cons.prems(2) have "args_algorithm a1 \<in> {''round_robin'', ''least_connections''}"
      by (cases u) (auto simp: int_argument_def split: option.splits if_splits)
    from Cons.IH [OF a1(2) this] a1(1) show ?case
      by (cases u) (auto simp: int_argument_def List.map_filter_simps split: option.splits if_splits)
  qed (simp add: List.map_filter_simps)
  from this [of default_args] assms show ?thesis
    by (auto simp: parse_args_def default_args_def ROUTING_ALGORITHM_def create_router_def)
qed

theorem accepted_algorithm_is_known_witness:
  "\<exists>a. parse_args [Algorithm ''least_connections'', Port ''9090'', Algorithm ''round_robin''] = Inr a \<and>
     args_algorithm a = ''round_robin''"
proof -
  have "py_int ''9090'' = Some 9090" by code_simp
  then have "\<exists>a. parse_args [Algorithm ''least_connections'', Port ''9090'', Algorithm ''round_robin''] = Inr a"
    by (simp add: parse_args_def int_argument_def)
  with accepted_algorithm_is_known [of _ _ "[]"] show ?thesis by (fastforce simp: List.map_filter_simps)
qed

text \<open>A bare port is accepted, for an empty host; a bare host is a \<open>ValueError\<close>.\<close>

lemma port_without_host:
  "parse_backends ''8001'' = Inr [([], 8001)]"
  "parse_backends ''localhost'' = Inl (ValueError ''localhost'')"
  by code_simp+

end
