(* ===== verification/WatchTheorems.thy ===== *)
theory WatchTheorems
  imports StaleRegistration CommandLine
begin

text \<open>
  The properties of the reactor under the law of \<open>ReactorWatch\<close>: nothing it waits for goes unwatched, its loop is
  left by a signal only, and what a stopped worker leaves behind.
\<close>

declare split_paired_All [simp del] split_paired_Ex [simp del]

section \<open>A run to look at\<close>

text \<open>
  A client whose backend refuses late: the second backend's socket gets the descriptor of the first.
\<close>

definition demo_retrying :: "round_io list" where
  "demo_retrying = demo_waiting @ [refusing_on_5 {} [] []]"

lemma demo_retries:
  "orderly demo_retrying (demo_reactor real) \<and>
   (case loop demo_retrying (demo_reactor real) of
      Some (Returned r) \<Rightarrow> r_connections r = [(4, 7)] \<and> state (r_objs r 7) = CONNECTING_TO_BACKEND \<and>
        client_sock (r_objs r 7) = 1 \<and> backend_sock (r_objs r 7) = Some 3
    | _ \<Rightarrow> False)"
  by code_simp

lemma demo_retriesE:
  obtains r where "loop demo_retrying (demo_reactor real) = Some (Returned r)"
    "serving_smoothly (LC (lc_init [(''b'', 1), (''c'', 2), (''d'', 3)])) real demo_fd r"
    "r_connections r = [(4, 7)]" "state (r_objs r 7) = CONNECTING_TO_BACKEND"
    "client_sock (r_objs r 7) = 1" "backend_sock (r_objs r 7) = Some 3"
proof -
  have "\<forall>rio \<in> set demo_retrying. \<forall>i ev. unrefused (io_handlers rio i ev)"
    by (simp add: demo_retrying_def demo_waiting_def demo_unrefused)
  then obtain r where r: "loop demo_retrying (demo_reactor real) = Some (Returned r)"
      "serving_smoothly (LC (lc_init [(''b'', 1), (''c'', 2), (''d'', 3)])) real demo_fd r"
    by (rule demo_smooth) (use demo_retries in blast)
  with demo_retries that show thesis by simp
qed

section \<open>Nothing goes unwatched\<close>

lemma attended_watch:
  assumes r: "attended r" "lawful r" and cid: "cid \<in> cids r" "state (r_objs r cid) \<noteq> DONE" and s: "s \<in> owns (r_objs r cid)"
  shows "watched (r_sockets r) (r_selector r) s = interest (r_objs r cid) s \<and>
    (\<forall>ev m. interest (r_objs r cid) s = Some ev \<longrightarrow> select_ready [(r_fd r s, m)] (r_selector r) =
       [(\<lparr>key_fileobj = s, key_events = ev, key_data = Conn cid\<rparr>, m AND ev)])"
proof -
  have tidy: "tidy (r_sockets r) (open_socks r) (r_selector r)" and law: "descriptors (r_sockets r) (open_socks r)"
    using r by (simp_all add: attended_def lawful_def)
  have reg: "s \<in> open_socks r" "regs (r_selector r) s = map_option (\<lambda>ev. (ev, Conn cid)) (interest (r_objs r cid) s)"
    using attended_conn(1) [OF r(1) cid(1)] cid(2) s by (auto simp: served_def)
  have "watched (r_sockets r) (r_selector r) s = interest (r_objs r cid) s"
    by (simp add: tidy_watched [OF law tidy reg(1)] reg(2) option.map_comp comp_def option.map_ident)
  moreover have "select_ready [(r_fd r s, m)] (r_selector r) =
      [(\<lparr>key_fileobj = s, key_events = ev, key_data = Conn cid\<rparr>, m AND ev)]"
    if "interest (r_objs r cid) s = Some ev" for ev m
    by (rule ready_of [OF r(2) tidy]) (simp add: reg(2) that)
  ultimately show ?thesis by blast
qed

lemma attended_opens:
  assumes r: "attended r" "lawful r"
  shows "\<exists>sv. r_server r = Some sv \<and> watched (r_sockets r) (r_selector r) sv = Some EVENT_READ \<and>
    open_socks r = insert sv (\<Union>(sockfd, cid) \<in> set (r_connections r). owns (r_objs r cid))"
proof -
  obtain sv where sv: "r_server r = Some sv" "sv \<in> open_socks r" "regs (r_selector r) sv = Some (EVENT_READ, Accept)"
    "open_socks r \<subseteq> insert sv (\<Union>cid \<in> cids r. owns (r_objs r cid))"
    using r(1) unfolding attended_def attends_def by blast
  have "owns (r_objs r cid) \<subseteq> open_socks r" if "cid \<in> cids r" for cid
    using attended_conn(1) [OF r(1) that] by (simp add: served_def)
  with sv(2,4) have "open_socks r = insert sv (\<Union>cid \<in> cids r. owns (r_objs r cid))" by auto
  also have "... = insert sv (\<Union>(sockfd, cid) \<in> set (r_connections r). owns (r_objs r cid))"
    by (simp add: cids_def case_prod_unfold)
  finally have "open_socks r = insert sv (\<Union>(sockfd, cid) \<in> set (r_connections r). owns (r_objs r cid))" .
  moreover have "watched (r_sockets r) (r_selector r) sv = Some EVENT_READ"
    using tidy_watched [of "r_sockets r" "open_socks r" "r_selector r" sv] r sv(2,3) by (simp add: attended_def lawful_def)
  ultimately show ?thesis using sv(1) by blast
qed

text \<open>C9: No wake-up is lost. As long as the kernel numbers open sockets apart and no attempt to connect fails on the
  spot, at every moment and whatever else happens, the kernel watches each socket of each live connection for
  exactly the event its state waits for (the client while the request or the response is awaited, the backend
  while connecting, sending or reading, the client for writing in the end), and reports it to that connection; it
  watches the listening socket; and the process has no other socket open.\<close>

theorem no_wakeup_is_lost:
  assumes "create_router algorithm backends = Inr rt" and "distinct backends" and "serving_smoothly rt clock fd r"
  shows "(\<forall>(sockfd, cid) \<in> set (r_connections r). state (r_objs r cid) \<noteq> DONE \<longrightarrow>
      (\<forall>s \<in> owns (r_objs r cid). watched (r_sockets r) (r_selector r) s = interest (r_objs r cid) s \<and>
         (\<forall>ev m. interest (r_objs r cid) s = Some ev \<longrightarrow> select_ready [(r_fd r s, m)] (r_selector r) =
            [(\<lparr>key_fileobj = s, key_events = ev, key_data = Conn cid\<rparr>, m AND ev)]))) \<and>
    (\<exists>sv. r_server r = Some sv \<and> watched (r_sockets r) (r_selector r) sv = Some EVENT_READ \<and>
       open_socks r = insert sv (\<Union>(sockfd, cid) \<in> set (r_connections r). owns (r_objs r cid)))"
proof -
  have r: "attended r" "lawful r"
    using serving_attends [OF _ assms(3)] create_router_ok [OF assms(2,1)] by blast+
  show ?thesis
  proof (rule conjI [OF _ attended_opens [OF r]], rule ballI)
    fix x assume "x \<in> set (r_connections r)"
    then have "snd x \<in> cids r" by (simp add: cids_def)
    then show "case x of (sockfd, cid) \<Rightarrow> state (r_objs r cid) \<noteq> DONE \<longrightarrow>
      (\<forall>s \<in> owns (r_objs r cid). watched (r_sockets r) (r_selector r) s = interest (r_objs r cid) s \<and>
         (\<forall>ev m. interest (r_objs r cid) s = Some ev \<longrightarrow> select_ready [(r_fd r s, m)] (r_selector r) =
            [(\<lparr>key_fileobj = s, key_events = ev, key_data = Conn cid\<rparr>, m AND ev)]))"
      unfolding case_prod_unfold using attended_watch [OF r] by blast
  qed
qed

theorem no_wakeup_is_lost_witness:
  "\<exists>r. loop demo_retrying (demo_reactor real) = Some (Returned r) \<and>
     watched (r_sockets r) (r_selector r) 1 = Some EVENT_READ \<and> watched (r_sockets r) (r_selector r) 3 = Some EVENT_WRITE"
proof -
  obtain r where r: "loop demo_retrying (demo_reactor real) = Some (Returned r)"
    "serving_smoothly (LC (lc_init [(''b'', 1), (''c'', 2), (''d'', 3)])) real demo_fd r"
    "r_connections r = [(4, 7)]" "state (r_objs r 7) = CONNECTING_TO_BACKEND"
    "client_sock (r_objs r 7) = 1" "backend_sock (r_objs r 7) = Some 3"
    by (rule demo_retriesE)
  have "distinct [(''b'', 1 :: int), (''c'', 2), (''d'', 3)]" by simp
  from no_wakeup_is_lost [OF demo_router this r(2)] r(3,4)
  have "\<forall>s \<in> owns (r_objs r 7). watched (r_sockets r) (r_selector r) s = interest (r_objs r 7) s" by simp
  moreover have "1 \<in> owns (r_objs r 7)" "3 \<in> owns (r_objs r 7)" using r(5,6) by (simp_all add: owns_def)
  moreover have "interest (r_objs r 7) 1 = Some EVENT_READ" "interest (r_objs r 7) 3 = Some EVENT_WRITE"
    using r(4-6) by (simp_all add: interest_def)
  ultimately show ?thesis using r(1) by auto
qed

section \<open>How a worker ends\<close>

text \<open>What a worker comes to: with a signal in one of the rounds it stops, and its health checker with it; without one it goes on.\<close>

lemma worker_runs:
  assumes "create_router (args_algorithm a) backends = Inr rt" and "distinct backends"
    and "args_no_health_check a \<or> p_threads p"
    and "listen (has_reuseport p) (1 < args_workers a) (bind_ok p) (initial_reactor rt (p_clock p) (p_fd p)) = Returned r0"
    and "smooth_run (worker_rounds p a rt) r0"
  shows "\<exists>r. attended r \<and> run_worker p a backends =
    (if \<exists>rio \<in> set (p_rounds p). io_signal rio
     then Some (Inr (Returned (shutdown r), if args_no_health_check a then None
       else Some (new_checker\<lparr>hc_started := True, hc_stop_event := True\<rparr>, HEALTH_CHECK_INTERVAL + 2)))
     else None)"
proof -
  have "bind_ok p" using assms(4) by (auto simp: listen_def Let_def case_prod_unfold split: if_splits)
  with assms(4) have r0: "attended r0" "r_running r0"
    using listening_attends [of rt] create_router_ok [OF assms(2,1)] by auto
  from smooth_loop [OF r0(1) assms(5)] obtain r where r: "loop (worker_rounds p a rt) r0 = Some (Returned r)" "attended r"
    "r_running r \<longleftrightarrow> r_running r0 \<and> \<not> (\<exists>rio \<in> set (p_rounds p). io_signal rio)"
    unfolding worker_rounds_keep(1) by blast
  then have "start (has_reuseport p) (1 < args_workers a) (bind_ok p) (worker_rounds p a rt) (initial_reactor rt (p_clock p) (p_fd p)) =
      (if \<exists>rio \<in> set (p_rounds p). io_signal rio then Some (Returned (shutdown r)) else None)"
    using r0(2) assms(4) by (auto simp: start_def)
  with r(2) run_worker_checked [OF assms(1,3)] show ?thesis by auto
qed



section \<open>Two workers\<close>

text \<open>
  The retrying client, and then a signal, or none but a signal before the loop. The health checker finds the first
  backend down after the client's request has been handled, and the others up before and after the retry.
\<close>

definition demo_platform :: "bool \<Rightarrow> round_io list \<Rightarrow> platform" where
  "demo_platform early rios = \<lparr>has_reuseport = True, bind_ok = True, p_clock = real, p_fd = demo_fd,
     p_early_signal = early, p_rounds = rios, p_threads = True, p_sweeps = 1,
     p_probes = (\<lambda>k i. if i = 0 then Connect_fails else Answer ''HTTP/1.1 200 OK''), p_pace = [[], [0, 1], [1, 1]]\<rparr>"

definition demo_args :: args where
  "demo_args = \<lparr>args_host = LISTEN_HOST, args_port = LISTEN_PORT, args_algorithm = ''least_connections'',
     args_backends = None, args_no_health_check = False, args_workers = 1\<rparr>"

definition demo_stopped :: "round_io list" where
  "demo_stopped = demo_retrying @ [quiet\<lparr>io_signal := True\<rparr>]"

abbreviation demo_pool :: router where
  "demo_pool \<equiv> LC (lc_init [(''b'', 1), (''c'', 2), (''d'', 3)])"

lemma demo_marks:
  "map io_marks (worker_rounds (demo_platform early demo_stopped) demo_args demo_pool) =
    [[], [[], [((''b'', 1), False)]], [[((''c'', 2), True)], [((''d'', 3), True)]], []]"
  by code_simp

lemma demo_stops:
  "orderly (worker_rounds (demo_platform early demo_stopped) demo_args demo_pool) (demo_reactor real)"
  "orderly (worker_rounds (demo_platform early demo_retrying) demo_args demo_pool) (demo_reactor real)"
  by code_simp+

lemma demo_workers:
  "create_router (args_algorithm demo_args) [(''b'', 1), (''c'', 2), (''d'', 3)] = Inr demo_pool"
  "distinct [(''b'', 1 :: int), (''c'', 2), (''d'', 3)]"
  "args_no_health_check demo_args \<or> p_threads (demo_platform early rios)"
  "listen (has_reuseport (demo_platform early rios)) (1 < args_workers demo_args) (bind_ok (demo_platform early rios))
     (initial_reactor demo_pool (p_clock (demo_platform early rios)) (p_fd (demo_platform early rios))) =
   Returned (demo_reactor real)"
  "smooth_run (worker_rounds (demo_platform early demo_retrying) demo_args demo_pool) (demo_reactor real)"
  "smooth_run (worker_rounds (demo_platform early demo_stopped) demo_args demo_pool) (demo_reactor real)"
proof -
  have "unrefused (io_handlers (quiet\<lparr>io_signal := True\<rparr>) i ev)" for i ev
    using demo_unrefused(1) [of i ev] by simp
  then have "\<forall>rio \<in> set (worker_rounds (demo_platform early demo_stopped) demo_args demo_pool). \<forall>i ev. unrefused (io_handlers rio i ev)"
    "\<forall>rio \<in> set (worker_rounds (demo_platform early demo_retrying) demo_args demo_pool). \<forall>i ev. unrefused (io_handlers rio i ev)"
    unfolding worker_rounds_keep(2) [of _ _ _ "\<lambda>f. \<forall>i ev. unrefused (f i ev)"]
    by (simp_all add: demo_platform_def demo_stopped_def demo_retrying_def demo_waiting_def demo_unrefused)
  with demo_stops
  show "smooth_run (worker_rounds (demo_platform early demo_retrying) demo_args demo_pool) (demo_reactor real)"
    "smooth_run (worker_rounds (demo_platform early demo_stopped) demo_args demo_pool) (demo_reactor real)"
    by (simp_all add: orderly_smooth)
  show "listen (has_reuseport (demo_platform early rios)) (1 < args_workers demo_args) (bind_ok (demo_platform early rios))
     (initial_reactor demo_pool (p_clock (demo_platform early rios)) (p_fd (demo_platform early rios))) =
   Returned (demo_reactor real)"
    using demo_listening [of real] by (simp add: demo_platform_def demo_args_def)
qed (use demo_router in \<open>simp_all add: demo_args_def demo_platform_def\<close>)



end
