(* ===== verification/MockBackends.thy ===== *)
theory MockBackends
  imports HttpRequest Config
begin

text \<open>
  \<open>mock_backends.py\<close>: the test servers, handlers of \<open>http.server\<close>. What that library gives a handler
  (the parsed request, the text of its \<open>Server\<close> and \<open>Date\<close> headers, the reason phrases) is an
  argument; \<open>send_response\<close>, \<open>send_header\<close> and \<open>json.dumps\<close> are written out as far as they are used.
\<close>

section \<open>JSON\<close>

text \<open>A number that is not an integer is given as its text.\<close>

datatype json = JString string | JInt int | JFloat string

definition json_hex :: "char \<Rightarrow> string" where
  "json_hex c = (let n = of_char c in [digit_char (n div 16), digit_char (n mod 16)])"

text \<open>Python escapes everything that is not printable ASCII (\<open>ensure_ascii\<close>).\<close>

definition json_char :: "char \<Rightarrow> string" where
  "json_char c =
     (if c = CHR 0x22 then [CHR 0x5C, CHR 0x22]
      else if c = CHR 0x5C then [CHR 0x5C, CHR 0x5C]
      else if c = CHR 0x0A then [CHR 0x5C, CHR ''n'']
      else if c = CHR 0x0D then [CHR 0x5C, CHR ''r'']
      else if c = CHR 0x09 then [CHR 0x5C, CHR ''t'']
      else if c = CHR 0x0C then [CHR 0x5C, CHR ''f'']
      else if c = CHR 0x08 then [CHR 0x5C, CHR ''b'']
      else if 32 \<le> (of_char c :: nat) \<and> (of_char c :: nat) \<le> 126 then [c]
      else CHR 0x5C # ''u00'' @ json_hex c)"

definition json_string :: "string \<Rightarrow> string" where
  "json_string s = CHR 0x22 # concat (map json_char s) @ [CHR 0x22]"

fun json_value :: "json \<Rightarrow> string" where
  "json_value (JString s) = json_string s"
| "json_value (JInt i) = show_int i"
| "json_value (JFloat text) = text"

definition json_dumps :: "(string \<times> json) list \<Rightarrow> string" where
  "json_dumps kvs = ''{'' @ py_join '', '' (map (\<lambda>(k, v). json_string k @ '': '' @ json_value v) kvs) @ ''}''"

section \<open>The server and its handlers\<close>

text \<open>
  A server at the time of a response: its port, the version of Python, the date, \<open>time.time()\<close>
  as \<open>json\<close> renders it, and the table of reason phrases of the library.
\<close>

record mock_server =
  srv_port :: int
  srv_python :: string
  srv_date :: string
  srv_time :: string
  srv_phrase :: "int \<Rightarrow> string"

text \<open>A request as a handler sees it: \<open>in_rest\<close> is what can be read after the headers.\<close>

record mock_request =
  in_path :: string
  in_version :: string
  in_length :: "string option"
  in_rest :: bytes

definition server_version :: string where
  "server_version = ''MockBackend/1.0''"

definition response_headers :: "mock_server \<Rightarrow> nat \<Rightarrow> (string \<times> string) list" where
  "response_headers srv n =
     [(''Server'', server_version @ '' '' @ srv_python srv), (''Date'', srv_date srv),
      (''Content-Type'', ''application/json''), (''Content-Length'', show_int (int n)),
      (''Connection'', ''close'')]"

text \<open>\<open>_respond\<close>. To a request of version 0.9 the library sends neither a status line nor headers.\<close>

definition respond :: "mock_server \<Rightarrow> mock_request \<Rightarrow> int \<Rightarrow> (string \<times> json) list \<Rightarrow> bytes" where
  "respond srv q status body =
     (let payload = json_dumps body
      in if in_version q = ''HTTP/0.9'' then payload
         else ''HTTP/1.0 '' @ show_int status @ '' '' @ srv_phrase srv status @ LINE_DELIM @
              concat (map (\<lambda>h. header_line h @ LINE_DELIM) (response_headers srv (length payload))) @
              LINE_DELIM @ payload)"

definition get_body :: "mock_server \<Rightarrow> mock_request \<Rightarrow> (string \<times> json) list" where
  "get_body srv q =
     [(''backend'', JString ('':'' @ show_int (srv_port srv))), (''path'', JString (in_path q)),
      (''method'', JString ''GET''), (''timestamp'', JFloat (srv_time srv))] @
     (if in_path q = ''/health'' then [(''status'', JString ''healthy'')] else [])"

definition do_GET :: "mock_server \<Rightarrow> mock_request \<Rightarrow> bytes option" where
  "do_GET srv q = Some (respond srv q 200 (get_body srv q))"

text \<open>\<open>rfile.read(n)\<close>: up to \<open>n\<close> bytes, everything for -1, a \<open>ValueError\<close> for less.\<close>

definition rfile_read :: "int \<Rightarrow> bytes \<Rightarrow> bytes option" where
  "rfile_read n rest =
     (if n < - 1 then None else if n = - 1 then Some rest else Some (take (nat n) rest))"

definition post_body :: "mock_server \<Rightarrow> mock_request \<Rightarrow> bytes \<Rightarrow> (string \<times> json) list" where
  "post_body srv q request_body =
     [(''backend'', JString ('':'' @ show_int (srv_port srv))), (''path'', JString (in_path q)),
      (''method'', JString ''POST''), (''received_bytes'', JInt (int (length request_body))),
      (''timestamp'', JFloat (srv_time srv))]"

text \<open>\<open>None\<close> is the \<open>ValueError\<close> of a Content-Length that is no number or below -1: no response.\<close>

definition do_POST :: "mock_server \<Rightarrow> mock_request \<Rightarrow> bytes option" where
  "do_POST srv q =
     (case (case in_length q of None \<Rightarrow> Some 0 | Some v \<Rightarrow> py_int v) of
        None \<Rightarrow> None
      | Some content_length \<Rightarrow>
          map_option (\<lambda>request_body. respond srv q 200 (post_body srv q request_body))
            (if content_length \<noteq> 0 then rfile_read content_length (in_rest q) else Some []))"

definition do_PUT :: "mock_server \<Rightarrow> mock_request \<Rightarrow> bytes option" where
  "do_PUT srv q = do_POST srv q"

definition do_DELETE :: "mock_server \<Rightarrow> mock_request \<Rightarrow> bytes option" where
  "do_DELETE srv q = do_GET srv q"

definition do_PATCH :: "mock_server \<Rightarrow> mock_request \<Rightarrow> bytes option" where
  "do_PATCH srv q = do_POST srv q"

text \<open>The handler of a method; the library answers the others itself.\<close>

definition mock_handler :: "string \<Rightarrow> (mock_server \<Rightarrow> mock_request \<Rightarrow> bytes option) option" where
  "mock_handler meth =
     map_of [(''GET'', do_GET), (''POST'', do_POST), (''PUT'', do_PUT), (''DELETE'', do_DELETE),
       (''PATCH'', do_PATCH)] meth"

section \<open>Ports\<close>

text \<open>The option \<open>--ports\<close>: one or more numbers. \<open>None\<close> is an error of the parser.\<close>

definition mock_ports :: "string list option \<Rightarrow> int list option" where
  "mock_ports raw =
     (case raw of
        None \<Rightarrow> Some [8001, 8002, 8003]
      | Some ports \<Rightarrow> if ports = [] then None else those (map py_int ports))"

definition mock_addresses :: "int list \<Rightarrow> (string \<times> int) list" where
  "mock_addresses ports = map (\<lambda>port. (''127.0.0.1'', port)) ports"

text \<open>The balancer's default backends are the servers that are started by default.\<close>

lemma default_backends_are_mocks: "map_option mock_addresses (mock_ports None) = Some BACKENDS"
  by (simp add: mock_ports_def mock_addresses_def BACKENDS_def)

section \<open>The process\<close>

text \<open>
  The launcher: the ports whose thread has not been started, the threads started, those of them that have
  reached their server, the ports that are served, the events that were set, and the lines printed.
\<close>

datatype mock_line = Starting nat | Listening int | Shutting_down

record mock_process =
  mp_todo :: "int list"
  mp_threads :: "int list"
  mp_reached :: "nat set"
  mp_serving :: "int list"
  mp_events :: "nat set"
  mp_lines :: "mock_line list"

text \<open>
  \<open>run_backend\<close>, up to \<open>serve_forever\<close>, in which the thread stays. \<open>bind\<close> is the kernel: the port it gives for the one
  asked for, beside those served already. When it gives none the constructor of the server raises, which ends the
  thread and nothing else.
\<close>

definition run_backend :: "(int list \<Rightarrow> int \<Rightarrow> int option) \<Rightarrow> int \<Rightarrow> nat option \<Rightarrow> mock_process \<Rightarrow> mock_process" where
  "run_backend bind port ready_event m =
     (case bind (mp_serving m) port of
        None \<Rightarrow> m
      | Some server_port \<Rightarrow>
          m\<lparr>mp_serving := mp_serving m @ [server_port], mp_lines := mp_lines m @ [Listening port],
            mp_events := mp_events m \<union> set_option ready_event\<rparr>)"

text \<open>
  What happens to the process, in order: the main thread starts the next thread, thread \<open>i\<close> gets to its server, the
  main thread wakes up, or a \<open>KeyboardInterrupt\<close> arrives.
\<close>

datatype mock_event = Start_next | Runs nat | Wakes | Interrupts

definition launched :: "int list \<Rightarrow> mock_process" where
  "launched ports = \<lparr>mp_todo = ports, mp_threads = [], mp_reached = {}, mp_serving = [], mp_events = {},
     mp_lines = [Starting (length ports)]\<rparr>"

definition thread_runs :: "(int list \<Rightarrow> int \<Rightarrow> int option) \<Rightarrow> nat \<Rightarrow> mock_process \<Rightarrow> mock_process" where
  "thread_runs bind i m =
     (if i < length (mp_threads m) \<and> i \<notin> mp_reached m
      then run_backend bind (mp_threads m ! i) None (m\<lparr>mp_reached := insert i (mp_reached m)\<rparr>) else m)"

text \<open>
  \<open>main\<close> after the options. The interrupt is caught in the loop that sleeps only; while threads are still to be
  started it leaves \<open>main\<close>. \<open>None\<close> while the process runs.
\<close>

fun mock_main :: "(int list \<Rightarrow> int \<Rightarrow> int option) \<Rightarrow> mock_event list \<Rightarrow> mock_process \<Rightarrow> mock_process outcome option" where
  "mock_main bind [] m = None"
| "mock_main bind (Start_next # es) m =
     (case mp_todo m of
        [] \<Rightarrow> mock_main bind es m
      | port # ports \<Rightarrow> mock_main bind es (m\<lparr>mp_todo := ports, mp_threads := mp_threads m @ [port]\<rparr>))"
| "mock_main bind (Runs i # es) m = mock_main bind es (thread_runs bind i m)"
| "mock_main bind (Wakes # es) m = mock_main bind es m"
| "mock_main bind (Interrupts # es) m =
     Some (if mp_todo m = [] then Returned (m\<lparr>mp_lines := mp_lines m @ [Shutting_down]\<rparr>) else Raised m)"

text \<open>What is served by which thread, however the threads run.\<close>

definition mock_inv :: "(int list \<Rightarrow> int \<Rightarrow> int option) \<Rightarrow> int list \<Rightarrow> mock_process \<Rightarrow> bool" where
  "mock_inv bind ports m \<longleftrightarrow> mp_threads m @ mp_todo m = ports \<and> mp_reached m \<subseteq> {..<length (mp_threads m)} \<and>
     distinct (mp_serving m) \<and> length (mp_serving m) \<le> card (mp_reached m)"

lemma thread_runs_inv:
  assumes "mock_inv bind ports m" and "\<And>ps p q. bind ps p = Some q \<Longrightarrow> q \<notin> set ps"
  shows "mock_inv bind ports (thread_runs bind i m)"
proof (cases "i < length (mp_threads m) \<and> i \<notin> mp_reached m")
  case True
  have "finite (mp_reached m)" using assms(1) by (auto simp: mock_inv_def intro: finite_subset)
  with True assms(1) assms(2) [of "mp_serving m" "mp_threads m ! i"] show ?thesis
    by (auto simp: thread_runs_def run_backend_def mock_inv_def split: option.split)
qed (use assms(1) in \<open>auto simp: thread_runs_def\<close>)

text \<open>
  The process ends by an interrupt only, normally once all threads have been started; no port is served twice,
  and there are at most as many servers as ports.
\<close>

lemma mock_main_ends:
  assumes "mock_inv bind ports m" and "\<And>ps p q. bind ps p = Some q \<Longrightarrow> q \<notin> set ps"
    and "mock_main bind es m = Some res"
  shows "Interrupts \<in> set es \<and> mock_inv bind ports (final res) \<and>
    (\<forall>m'. res = Returned m' \<longrightarrow> mp_threads m' = ports \<and> last (mp_lines m') = Shutting_down)"
  using assms
proof (induction bind es m rule: mock_main.induct)
  case (2 bind es m)
  show ?case
  proof (cases "mp_todo m")
    case (Cons port ports')
    have "mock_inv bind ports (m\<lparr>mp_todo := ports', mp_threads := mp_threads m @ [port]\<rparr>)"
      using 2(3) Cons by (auto simp: mock_inv_def)
    from 2(2) [OF Cons this 2(4)] 2(5) Cons show ?thesis by simp
  qed (use 2 in simp)
next
  case (3 bind i es m)
  from 3(1) [OF thread_runs_inv [OF 3(2,3)] 3(3)] 3(4) show ?case by simp
next
  case (4 bind es m)
  from 4(1) [OF 4(2,3)] 4(4) show ?case by simp
next
  case (5 bind es m)
  then have "res = (if mp_todo m = [] then Returned (m\<lparr>mp_lines := mp_lines m @ [Shutting_down]\<rparr>) else Raised m)" by simp
  with 5(1) show ?case by (auto simp: mock_inv_def)
qed simp

text \<open>
  A port that is taken is not noticed: the thread ends, and the launcher goes on with the servers that are left,
  or with none.
\<close>

lemma taken_port_unnoticed:
  "mock_main (\<lambda>ps p. if p = 8002 \<or> p \<in> set ps then None else Some p)
     [Start_next, Start_next, Runs 1, Start_next, Runs 2, Runs 0, Wakes, Interrupts] (launched [8001, 8002, 8003]) =
   Some (Returned \<lparr>mp_todo = [], mp_threads = [8001, 8002, 8003], mp_reached = {0, 1, 2}, mp_serving = [8003, 8001],
     mp_events = {}, mp_lines = [Starting 3, Listening 8003, Listening 8001, Shutting_down]\<rparr>)"
  by (simp add: launched_def thread_runs_def run_backend_def numeral_2_eq_2 insert_commute)

section \<open>The text of a response\<close>

lemma respond_lines:
  assumes "in_version q \<noteq> ''HTTP/0.9''"
  shows "respond srv q status body =
    py_join LINE_DELIM ((''HTTP/1.0 '' @ show_int status @ '' '' @ srv_phrase srv status) #
      map header_line (response_headers srv (length (json_dumps body)))) @ HEADER_DELIM @ json_dumps body"
  using assms by (simp add: respond_def response_headers_def delims(1) Let_def)

text \<open>The text is printable ASCII, so that \<open>encode()\<close> is the identity on it.\<close>

definition printable :: "string \<Rightarrow> bool" where
  "printable s \<longleftrightarrow> (\<forall>c \<in> set s. 32 \<le> (of_char c :: nat) \<and> (of_char c :: nat) \<le> 126)"

lemma printable_simps [simp]:
  "printable []"
  "printable (c # s) \<longleftrightarrow> 32 \<le> (of_char c :: nat) \<and> (of_char c :: nat) \<le> 126 \<and> printable s"
  "printable (s @ t) \<longleftrightarrow> printable s \<and> printable t"
  by (auto simp: printable_def)

lemma printable_concat [simp]: "printable (concat ss) \<longleftrightarrow> (\<forall>s \<in> set ss. printable s)"
  by (induction ss) simp_all

lemma printable_join: "printable sep \<Longrightarrow> \<forall>s \<in> set ss. printable s \<Longrightarrow> printable (py_join sep ss)"
  by (induction sep ss rule: py_join.induct) simp_all

lemma printable_digit: "d < 16 \<Longrightarrow> printable [digit_char d]"
  by (simp add: of_char_digit)

lemma printable_base: "printable (show_base 10 n)"
  unfolding printable_def
proof
  fix c assume "c \<in> set (show_base 10 n)"
  then obtain d where "d < 10" "c = digit_char d" using show_base_digits [of 10 c n] by auto
  then show "32 \<le> (of_char c :: nat) \<and> (of_char c :: nat) \<le> 126" by (simp add: of_char_digit)
qed

lemma printable_int: "printable (show_int i)"
  by (simp add: show_int_def printable_base)

lemma of_char_less: "(of_char c :: nat) < 256"
  using mod_less_divisor [of 256 "of_char c :: nat"] by simp

lemma printable_hex: "printable (json_hex c)"
  using printable_digit [of "of_char c div 16"] printable_digit [of "of_char c mod 16"] of_char_less [of c]
  by (simp add: json_hex_def Let_def less_mult_imp_div_less)

lemma printable_char: "printable (json_char c)"
  by (simp add: json_char_def printable_hex)

lemma printable_string: "printable (json_string s)"
  by (simp add: json_string_def printable_char)

definition printable_value :: "json \<Rightarrow> bool" where
  "printable_value v = (case v of JFloat text \<Rightarrow> printable text | _ \<Rightarrow> True)"

lemma printable_dumps:
  assumes "\<forall>(k, v) \<in> set kvs. printable_value v"
  shows "printable (json_dumps kvs)"
proof -
  have "printable (json_value v)" if "printable_value v" for v
    using that by (cases v) (simp_all add: printable_value_def printable_string printable_int)
  with assms have "\<forall>s \<in> set (map (\<lambda>(k, v). json_string k @ '': '' @ json_value v) kvs). printable s"
    by (auto simp: printable_string)
  then have "printable (py_join '', '' (map (\<lambda>(k, v). json_string k @ '': '' @ json_value v) kvs))"
    by (intro printable_join) simp_all
  then show ?thesis by (simp add: json_dumps_def)
qed

lemma payload_printable:
  assumes "printable (srv_time srv)"
  shows "printable (json_dumps (get_body srv q))" and "printable (json_dumps (post_body srv q d))"
  using assms by (auto intro!: printable_dumps simp: get_body_def post_body_def printable_value_def)

section \<open>Reading a string back\<close>

definition short_escapes :: "(char \<times> char) list" where
  "short_escapes = [(CHR 0x22, CHR 0x22), (CHR 0x5C, CHR 0x5C), (CHR ''n'', CHR 0x0A), (CHR ''r'', CHR 0x0D),
     (CHR ''t'', CHR 0x09), (CHR ''f'', CHR 0x0C), (CHR ''b'', CHR 0x08)]"

text \<open>What stands after a backslash: the character it means, and the rest.\<close>

definition escaped :: "string \<Rightarrow> (char \<times> string) option" where
  "escaped s =
     (case s of
        [] \<Rightarrow> None
      | e # cs \<Rightarrow>
          if e = CHR ''u''
          then (case cs of
                  a # b # x # y # cs' \<Rightarrow>
                    (case (digit_val 16 x, digit_val 16 y) of
                       (Some m, Some n) \<Rightarrow>
                         if a = CHR ''0'' \<and> b = CHR ''0'' then Some (char_of (16 * m + n), cs') else None
                     | _ \<Rightarrow> None)
                | _ \<Rightarrow> None)
          else map_option (\<lambda>d. (d, cs)) (map_of short_escapes e))"

lemma escaped_shorter: "escaped s = Some (d, cs) \<Longrightarrow> length cs < length s"
  by (auto simp: escaped_def split: list.splits option.splits if_splits)

text \<open>The rest of a JSON string after its opening quote: its characters, and what follows.\<close>

function json_unescape :: "string \<Rightarrow> (string \<times> string) option" where
  "json_unescape s =
     (case s of
        [] \<Rightarrow> None
      | c # cs \<Rightarrow>
          if c = CHR 0x22 then Some ([], cs)
          else if c \<noteq> CHR 0x5C then map_option (apfst ((#) c)) (json_unescape cs)
          else (case escaped cs of
                  None \<Rightarrow> None
                | Some (d, cs') \<Rightarrow> map_option (apfst ((#) d)) (json_unescape cs')))"
  by pat_completeness auto
termination
  by (relation "measure length") (auto dest: escaped_shorter)

declare json_unescape.simps [simp del]

lemma escaped_hex: "escaped (CHR ''u'' # CHR ''0'' # CHR ''0'' # json_hex c @ s) = Some (c, s)"
proof -
  have "(of_char c :: nat) div 16 < 16" "(of_char c :: nat) mod 16 < 16"
    using of_char_less [of c] by (simp_all add: less_mult_imp_div_less)
  then show ?thesis by (simp add: escaped_def json_hex_def Let_def digit_val_digit_char)
qed

lemma escaped_short: "map_of short_escapes e = Some d \<Longrightarrow> escaped (e # s) = Some (d, s)"
  by (auto simp: escaped_def short_escapes_def)

lemma unescape_escape:
  "escaped (e @ s) = Some (c, s) \<Longrightarrow>
    json_unescape (CHR 0x5C # e @ s) = map_option (apfst ((#) c)) (json_unescape s)"
  by (subst json_unescape.simps) simp

lemma unescape_char: "json_unescape (json_char c @ s) = map_option (apfst ((#) c)) (json_unescape s)"
proof -
  have short: "json_unescape (CHR 0x5C # e # s) = map_option (apfst ((#) d)) (json_unescape s)"
    if "map_of short_escapes e = Some d" for e d
    using unescape_escape [of "[e]"] escaped_short [OF that, of s] by simp
  have hex: "json_unescape (CHR 0x5C # CHR ''u'' # CHR ''0'' # CHR ''0'' # json_hex c @ s) =
      map_option (apfst ((#) c)) (json_unescape s)"
    using unescape_escape [of "CHR ''u'' # CHR ''0'' # CHR ''0'' # json_hex c"] escaped_hex [of c s] by simp
  have plain: "json_unescape (c # s) = map_option (apfst ((#) c)) (json_unescape s)"
    if "c \<noteq> CHR 0x22" "c \<noteq> CHR 0x5C"
    using that by (subst json_unescape.simps) simp
  show ?thesis using hex plain by (auto simp: json_char_def short short_escapes_def)
qed

lemma json_string_back: "json_unescape (concat (map json_char s) @ CHR 0x22 # t) = Some (s, t)"
proof (induction s)
  case Nil
  show ?case by (subst json_unescape.simps) simp
qed (simp add: unescape_char)

end
