(* ===== verification/MockTheorems.thy ===== *)
theory MockTheorems
  imports MockBackends Served RouterTheorems
begin

text \<open>
  The balancer in front of the test servers: their responses are framed as they were sent, their health
  path is seen as healthy, and the JSON text gives back the path that was asked.
\<close>

section \<open>Head and body\<close>

lemma head_of_lines:
  assumes "clean_line l" and "\<forall>h \<in> set hs. clean_header h"
    and "head = py_join LINE_DELIM (l # map header_line hs) @ HEADER_DELIM"
  shows "head_ok head"
    and "is_chunked_response head = Some (chunked_in_lines (map header_line hs))"
    and "get_response_content_length head = length_of_lines (map header_line hs)"
proof -
  let ?ls = "l # map header_line hs" let ?i = "length (py_join LINE_DELIM ?ls)"
  have clean: "\<forall>x \<in> set ?ls. clean_line x" using assms(1,2) clean_header_line by auto
  have find: "find_sub HEADER_DELIM head = Some ?i"
    using find_blank_joined [OF _ clean, of "[]"] by (simp add: assms(3))
  have split: "py_split LINE_DELIM (take ?i head) = ?ls"
    using py_split_joined [OF _ clean] by (simp add: assms(3))
  show "head_ok head" using find by (simp add: head_ok_def assms(3) delims(3))
  show "is_chunked_response head = Some (chunked_in_lines (map header_line hs))"
    unfolding is_chunked_eq(1) [OF find] split by simp
  show "get_response_content_length head = length_of_lines (map header_line hs)"
    unfolding response_length_eq [OF find] split by simp
qed

text \<open>What the library puts into the headers, and its reason phrase for 200.\<close>

definition clean_server :: "mock_server \<Rightarrow> bool" where
  "clean_server srv \<longleftrightarrow> clean_header (''Server'', server_version @ '' '' @ srv_python srv) \<and>
     clean_header (''Date'', srv_date srv) \<and> srv_phrase srv 200 = ''OK''"

definition mock_head :: "mock_server \<Rightarrow> nat \<Rightarrow> bytes" where
  "mock_head srv n =
     py_join LINE_DELIM (''HTTP/1.0 200 OK'' # map header_line (response_headers srv n)) @ HEADER_DELIM"

lemma mock_headers_clean: "clean_server srv \<Longrightarrow> \<forall>h \<in> set (response_headers srv n). clean_header h"
proof -
  assume "clean_server srv"
  moreover have "clean_header (''Content-Type'', ''application/json'')" by code_simp
  ultimately show ?thesis using page_headers_clean
    by (simp add: response_headers_def clean_server_def show_int_def)
qed

lemma mock_head_framing:
  assumes "clean_server srv" and "n < 10 ^ 20"
  shows "head_ok (mock_head srv n)"
    and "is_chunked_response (mock_head srv n) = Some False"
    and "get_response_content_length (mock_head srv n) = int n"
proof -
  have "clean_line ''HTTP/1.0 200 OK''" by code_simp
  note head = head_of_lines [OF this mock_headers_clean [OF assms(1)] mock_head_def]
  show "head_ok (mock_head srv n)" by (rule head(1))
  note headers = mock_headers_clean [OF assms(1), of n, unfolded response_headers_def, simplified]
  have low: "py_lower ''Server'' = ''server''" "py_lower ''Date'' = ''date''"
    "py_lower ''Content-Type'' = ''content-type''" "py_lower ''Content-Length'' = ''content-length''"
    "py_lower ''Connection'' = ''connection''"
    by code_simp+
  have "length (show_base 10 n) \<le> 20" by (rule length_show_base_bound) (use assms(2) in simp_all)
  then have "py_int (show_base 10 n) = Some (int n)" by (intro py_int_show) (simp add: max_str_digits_def)
  then have "py_int (show_int (int n)) = Some (int n)" by (simp add: show_int_def)
  then show "is_chunked_response (mock_head srv n) = Some False"
    "get_response_content_length (mock_head srv n) = int n"
    using headers by (simp_all add: head(2,3) response_headers_def header_of_line_back low)
qed

lemma mock_response_split:
  assumes "clean_server srv" and "in_version q \<noteq> ''HTTP/0.9''"
  shows "respond srv q 200 body = mock_head srv (length (json_dumps body)) @ json_dumps body"
proof -
  have "show_int 200 = ''200''" by code_simp
  then show ?thesis using assms by (simp add: respond_lines mock_head_def clean_server_def)
qed

text \<open>Every handler that responds does so with \<open>_respond\<close> and the status 200.\<close>

lemma mock_handler_responds:
  assumes "mock_handler meth = Some handler" and "handler srv q = Some resp"
  obtains body where "resp = respond srv q 200 body"
proof -
  have "handler \<in> {do_GET, do_POST, do_PUT, do_DELETE, do_PATCH}"
    using map_of_SomeD [OF assms(1) [unfolded mock_handler_def]] by auto
  with assms(2) that show thesis
    by (auto simp: do_GET_def do_POST_def do_PUT_def do_DELETE_def do_PATCH_def Let_def split: option.splits)
qed

lemma mock_response_message:
  assumes "mock_handler meth = Some handler" and "handler srv q = Some resp"
    and "clean_server srv" and "in_version q \<noteq> ''HTTP/0.9''" and "length resp < 10 ^ 20"
  shows "response_message resp"
proof -
  obtain body where "resp = respond srv q 200 body" by (rule mock_handler_responds [OF assms(1,2)])
  with mock_response_split [OF assms(3,4)] have
    resp: "resp = mock_head srv (length (json_dumps body)) @ json_dumps body" by simp
  have "length (json_dumps body) < 10 ^ 20" using assms(5) by (simp add: resp)
  from response_messages(1) [OF mock_head_framing [OF assms(3) this]] show ?thesis by (simp add: resp)
qed

lemma post_counts_body:
  assumes "in_length q = Some (show_int (int (length d)))" and "in_rest q = d @ rest" and "length d < 10 ^ 20"
  shows "do_POST srv q = Some (respond srv q 200 (post_body srv q d))"
proof -
  have "length (show_base 10 (length d)) \<le> 20" by (rule length_show_base_bound) (use assms(3) in simp_all)
  then have "py_int (show_base 10 (length d)) = Some (int (length d))"
    by (intro py_int_show) (simp add: max_str_digits_def)
  then have "py_int (show_int (int (length d))) = Some (int (length d))" by (simp add: show_int_def)
  with assms show ?thesis by (simp add: do_POST_def rfile_read_def)
qed

section \<open>Properties\<close>

text \<open>C36: However its bytes are cut, the response of a test server, to any method it serves and any
  request that does not ask for version 0.9, is relayed byte for byte when its last byte has arrived and not
  before.\<close>

theorem mock_response_relayed:
  assumes "awaiting [] s" and "\<forall>d \<in> set ds. piece BACKEND_RECV_SIZE d" and "concat ds = resp"
    and "mock_handler meth = Some handler" and "handler srv q = Some resp"
    and "clean_server srv" and "in_version q \<noteq> ''HTTP/0.9''" and "length resp < 10 ^ 20"
  shows "(\<exists>s'. feed_backend io ds s = Some (Returned s') \<and> relaying resp s')
    \<and> (\<forall>k < length ds. \<exists>s'. feed_backend io (take k ds) s = Some (Returned s') \<and>
        awaiting (concat (take k ds)) s')"
proof -
  have msg: "response_message resp" by (rule mock_response_message [OF assms(4-8)])
  then have "resp \<noteq> []" "framing resp = Some (Some resp)"
    and part: "\<And>p. strict_prefix p resp \<Longrightarrow> framing p = Some None" by (simp_all add: response_message_def)
  note feed = feed_message [OF assms(1,2,3) this(1) part this(2)]
  have "\<exists>s'. feed_backend io (take k ds) s = Some (Returned s') \<and> awaiting (concat (take k ds)) s'"
    if "k < length ds" for k
    by (rule feed(2) [OF _ id_take_nth_drop [OF that]])
  with feed(1) show ?thesis by blast
qed

definition demo_server :: mock_server where
  "demo_server = \<lparr>srv_port = 81, srv_python = ''Python/3.12.3'', srv_date = ''Mon, 07 Jul 2026 12:34:56 GMT'',
     srv_time = ''1783427696.5'', srv_phrase = (\<lambda>n. if n = 200 then ''OK'' else [])\<rparr>"

definition demo_asked_path :: mock_request where
  "demo_asked_path = \<lparr>in_path = ''/health'', in_version = ''HTTP/1.1'', in_length = None, in_rest = []\<rparr>"

lemma demo_server_clean: "clean_server demo_server"
  by code_simp

theorem mock_response_relayed_witness:
  "\<exists>s s' resp. session_step\<^sup>*\<^sup>* demo_start s \<and> do_GET demo_server demo_asked_path = Some resp \<and>
     feed_backend demo_io [resp] s = Some (Returned s') \<and> relaying resp s'"
proof -
  obtain s where s: "session_step\<^sup>*\<^sup>* demo_start s" "awaiting [] s" by (rule demo_awaiting)
  obtain resp where resp: "do_GET demo_server demo_asked_path = Some resp" by (simp add: do_GET_def)
  have "map_option length (do_GET demo_server demo_asked_path) = Some 269" by code_simp
  with resp have len: "length resp = 269" "resp \<noteq> []" by auto
  then have "\<forall>d \<in> set [resp]. piece BACKEND_RECV_SIZE d" by (simp add: piece_def BACKEND_RECV_SIZE_def)
  moreover have "mock_handler ''GET'' = Some do_GET" by (simp add: mock_handler_def)
  moreover have "in_version demo_asked_path \<noteq> ''HTTP/0.9''" by (simp add: demo_asked_path_def)
  ultimately obtain s' where "feed_backend demo_io [resp] s = Some (Returned s')" "relaying resp s'"
    using mock_response_relayed [of s "[resp]" resp "''GET''" do_GET demo_server demo_asked_path demo_io]
      s(2) resp demo_server_clean len by (auto simp del: feed_backend.simps)
  with s(1) resp show ?thesis by blast
qed

text \<open>The JSON text of a GET gives back the path that was asked, whatever bytes it has: after the key
  stands a string that reads back as the path, so a path cannot forge another field.\<close>

theorem mock_echoes_path:
  "\<exists>before after rest. json_dumps (get_body srv q) = before @ ''\"path\": \"'' @ after \<and>
     before = ''{\"backend\": '' @ json_string ('':'' @ show_int (srv_port srv)) @ '', '' \<and>
     json_unescape after = Some (in_path q, rest)"
proof -
  have k: "json_string ''backend'' = ''\"backend\"''" "json_string ''path'' = ''\"path\"''" by code_simp+
  let ?before = "''{\"backend\": '' @ json_string ('':'' @ show_int (srv_port srv)) @ '', ''"
  have "\<exists>rest. json_dumps (get_body srv q) =
      ?before @ ''\"path\": \"'' @ concat (map json_char (in_path q)) @ CHR 0x22 # rest"
    by (simp add: json_dumps_def get_body_def k json_string_def [of "in_path q"])
  then show ?thesis using json_string_back [of "in_path q"] by blast
qed

text \<open>Every backend that is a test server is in the pool after a sweep: its answer to the health path is
  recognised, whatever the pool was before.\<close>

theorem mocks_stay_healthy:
  assumes "create_router algorithm backends = Inr r" and "distinct backends"
    and "\<forall>i < length backends. \<exists>srv q resp. do_GET srv q = Some resp \<and> in_path q = HEALTH_CHECK_PATH \<and>
      in_version q = ''HTTP/1.1'' \<and> answers i = Answer resp"
  shows "set backends \<subseteq> healthy_pool (snd (sweep answers (router_run r ops))) \<and>
    fst (sweep answers (router_run r ops))"
proof -
  have healthy: "probe (answers i) = Some True" if "i < length backends" for i
  proof -
    from assms(3) that obtain srv q resp where q: "do_GET srv q = Some resp" "in_version q = ''HTTP/1.1''"
      "answers i = Answer resp" by blast
    then have "prefix ''HTTP/'' (take 1024 resp)" "take 1024 resp \<noteq> []" by (auto simp: do_GET_def respond_def Let_def)
    with q(3) show ?thesis by (simp add: probe_def Let_def)
  qed
  have returns: "probes_return answers (length backends)"
    unfolding probes_return_def using healthy by (metis probe_None option.distinct(1))
  note run = created_run [OF assms(1,2), of ops]
  note swept = sweep_decides [OF run(1), of answers, unfolded run(3), OF assms(2) returns]
  have "b \<in> healthy_pool (snd (sweep answers (router_run r ops)))" if "b \<in> set backends" for b
    unfolding swept(2) using that healthy by (auto simp: in_set_conv_nth)
  with swept(1) show ?thesis by blast
qed

theorem mocks_stay_healthy_witness:
  "set BACKENDS \<subseteq> healthy_pool (snd (sweep (\<lambda>i. Answer (the (do_GET demo_server demo_asked_path)))
     (LC (lc_init BACKENDS))))"
proof -
  have "create_router ''least_connections'' BACKENDS = Inr (LC (lc_init BACKENDS))" by (simp add: create_router_def)
  moreover have "distinct BACKENDS" by code_simp
  moreover have "\<exists>srv q resp. do_GET srv q = Some resp \<and> in_path q = HEALTH_CHECK_PATH \<and>
      in_version q = ''HTTP/1.1'' \<and> Answer (the (do_GET demo_server demo_asked_path)) = Answer resp"
    by (rule exI [of _ demo_server], rule exI [of _ demo_asked_path])
      (simp add: do_GET_def demo_asked_path_def HEALTH_CHECK_PATH_def)
  ultimately have "set BACKENDS \<subseteq> healthy_pool (snd (sweep (\<lambda>i. Answer (the (do_GET demo_server demo_asked_path)))
     (router_run (LC (lc_init BACKENDS)) [])))"
    using mocks_stay_healthy [of _ BACKENDS "LC (lc_init BACKENDS)" "\<lambda>i. Answer (the (do_GET demo_server demo_asked_path))" "[]"]
    by blast
  then show ?thesis by (simp add: router_run_def)
qed

end
