(* ===== verification/Spec2Isabelle.thy ===== *)
theory Spec2Isabelle
  imports ParserTheorems RouterTheorems ConnectionTheorems FailedOver ReactorTheorems ReusedIdentity StaleRegistration WatchTheorems MockTheorems CommandLine
begin

text \<open>
  A verification development for an HTTP load balancer: a single-threaded, selector-based reverse proxy
  in Python that reads one request per connection, adds the client's address to it, forwards it to a
  backend chosen by round robin or least connections, retries idempotent requests on other backends, and
  relays the one response. A health checker thread keeps the pool of backends; a supervisor may fork
  several workers that share the port.

  \<^bold>\<open>Parts and how they interact.\<close> The reactor accepts clients, asks the selector which sockets are
  ready and calls the handlers of the connection a socket belongs to; it ends the connections whose
  deadline has passed and closes those that are done. A connection parses the request, asks the router for a
  backend, opens the socket to it, forwards, reads the response up to the end its framing announces, and relays it;
  it gives the slot of the backend back. The health checker marks backends in the router. All of them
  see the same router, whose methods run under a lock: an execution is a sequence of calls. The marks of the
  health checker's thread fall between the rounds of the loop and, within a round, before any of its events and after
  the last (\<open>io_marks\<close>); one that would fall between two calls of the same handler is taken to fall before or after that handler.

  \<^bold>\<open>Theories.\<close>
  \<^item> \<open>Prelude\<close>, \<open>PyText\<close>, \<open>Heapq\<close>, \<open>Selector\<close>: what the source uses of Python. Bytes and strings are
    lists of 8-bit characters (every text is decoded as latin-1); \<open>find\<close>, slices with clamped and negative
    bounds, \<open>split\<close>, \<open>strip\<close>, \<open>upper\<close>, \<open>int\<close> in base 10 and 16; \<open>heappush\<close> and \<open>heappop\<close> as in
    \<open>heapq.py\<close>; the selector's table of registrations and the kernel's interest list behind it.
  \<^item> \<open>Config\<close> (\<open>config.py\<close>), \<open>AccessLog\<close> (\<open>logger.py\<close>): the constants; the record and the line of the access log,
    and the application's logger, whose handler is installed once.
  \<^item> \<open>RouterSpec\<close>, \<open>RoundRobin\<close>, \<open>LeastConn\<close>, \<open>Router\<close> (\<open>router.py\<close>): \<open>RouterSpec\<close> is the interface
    the rest relies on, as a locale; both classes and their sum \<open>router\<close> interpret it. The fields of
    \<open>rr_router\<close> and \<open>lc_router\<close> are those of the objects, one function per method.
  \<^item> \<open>HttpRequest\<close>, \<open>HttpResponse\<close> (\<open>http_parser.py\<close>): parsing and serialising requests, the status line,
    Content-Length and chunked framing of responses.
  \<^item> \<open>World\<close>, \<open>Connection\<close> (\<open>connection.py\<close>): \<open>proxy_connection\<close> has the slots of \<open>ProxyConnection\<close>,
    \<open>world\<close> what a handler sees beside it (clock, sockets and their wires, router, log), and a handler maps
    the pair and the answers of the operating system (\<open>io\<close>) to the pair after it. An exception that leaves a
    handler is \<open>Raised\<close>. \<open>_initiate_backend_connect\<close> and \<open>_fail_backend\<close> call each other and end
    because the attempts are bounded.
  \<^item> \<open>ConnectionInv\<close>, \<open>ConnectionPhases\<close>, \<open>ConnectionRuns\<close>, \<open>Exchange\<close>, \<open>Confined\<close>, \<open>Logged\<close>, \<open>Raising\<close>, \<open>Served\<close>,
    \<open>FailedOver\<close>, \<open>SocketMoves\<close>: lemmas on the handlers. The locale \<open>connect_contract\<close> does the induction over the attempts once; the slots, the
    phases, the release of slots, the request asked, the sockets in reach, the log records and what an exception
    leaves behind are its interpretations. \<open>phase_ok\<close> is the well-formedness of a connection in each state;
    \<open>Confined\<close> says which sockets a handler can touch, \<open>SocketMoves\<close> what it does with them (nothing, one
    opened, one given up for at most another); \<open>Served\<close> composes all steps of an exchange, and \<open>FailedOver\<close> puts the
    faults of backends before it.
  \<^item> \<open>HealthChecker\<close> (\<open>health_checker.py\<close>): its lifecycle, a probe, a sweep, the rounds of the thread, and its calls on
    the router in order (\<open>thread_ops\<close>).
  \<^item> \<open>Reactor\<close> (\<open>reactor.py\<close>): the record \<open>reactor\<close> has the fields of \<open>Reactor\<close> and the store of connection
    objects, which tables and heap refer to by identity; one function per method, one round of the loop as a
    function of what the kernel answers in it (\<open>round_io\<close>). What keeps an object alive (\<open>references\<close>) includes the local
    variables of \<open>_loop\<close>: the connection dispatched last and those in the list of events.
  \<^item> \<open>ReactorInv\<close>, \<open>ReactorSessions\<close>, \<open>ReactorTimers\<close>: the locale \<open>reactor_contract\<close> does the induction over
    events, rounds and executions (\<open>lb_step\<close>, \<open>serving\<close>) once; well-formed objects with disjoint sockets, the
    run of each object (the refinement of the single connection), the router's books and the clock are its
    interpretations. \<open>ReactorTimers\<close> has the invariant of the deadline heap.
  \<^item> \<open>SelectorTable\<close>, \<open>ReactorWatch\<close>, \<open>WatchedRuns\<close>: the selector as a map from sockets to events and data while
    nothing in it is stale (\<open>tidy\<close>); the invariant \<open>attended\<close>, that this map is what the states of the connections ask
    for (\<open>interest\<close>), kept by handlers and their transitions, by accepting, expiring and reaping; executions that obey the law
    it rests on (\<open>round_law\<close>, \<open>smooth_step\<close>), and the shutdown.
  \<^item> \<open>ReusedIdentity\<close>, \<open>StaleRegistration\<close>: what follows from an identity that is given to a second object, and
    from two failures of backends in one step, each for all executions in which it can happen.
  \<^item> \<open>CommandLine\<close> (\<open>main.py\<close>): the options, one worker with its health checker, the supervisor's forking and
    waiting, the exit status. \<open>platform\<close> is all a worker runs on; its pace says where the marks of the thread fall.
  \<^item> \<open>MockBackends\<close> (\<open>mock_backends.py\<close>): the handlers of the test servers, the text of their responses, and
    the launcher with its threads.
  \<^item> \<open>AccessLog\<close>, \<open>ParserTheorems\<close>, \<open>RouterTheorems\<close>, \<open>ConnectionTheorems\<close>, \<open>Served\<close>, \<open>FailedOver\<close>,
    \<open>ReactorTheorems\<close>, \<open>ReusedIdentity\<close>, \<open>StaleRegistration\<close>, \<open>WatchTheorems\<close>, \<open>MockTheorems\<close>, \<open>CommandLine\<close> and this
    theory: the properties, each with its witness. Here it is the one from the command line to the exit status.

  \<^bold>\<open>What is shown.\<close> For one connection: an exchange that goes well is served, also when up to
  \<open>MAX_BACKEND_RETRIES\<close> backends fail first, each in its own way; on
  every run the client gets a part of one answer only, the backend the whole request, at most three attempts
  on different backends; messages are put together correctly however they are cut; slots are accounted for,
  and it is logged once. For the reactor, in every execution: each object follows a run of the single
  connection, all are well formed and share no socket, the books of the router cover all held slots, every
  live connection is scheduled, none is left overdue, a silent balancer drains. In every execution in which no
  attempt to connect fails on the spot: each socket is watched for what its connection waits for, no exception
  leaves the loop, a worker ends on a signal exactly, with the health checker running beside it or switched off, and
  closes every socket and its selector then; so the whole program, started with one worker, ends on a signal with status 0. For the parsers: round trips
  and exact framing. For the routers: refinement of the least-loaded choice, fairness of the round robin,
  the pool a sweep leaves. For the supervisor: it ends, with the status of the last failure. The responses
  of the test servers are relayed as they are.

  Some theorems state what goes wrong: a slot that leaks when sending to the client fails, a chunk size
  that makes the scan hang, a blank line taken for the end of trailers, a truncated response that is
  relayed, a heap that grows, a backend that is listed twice, a registration left behind by two failures in
  a row, which stops a worker whenever the next client gets its descriptor, or leaves a socket unwatched, a deadline
  inherited with an identity, which ends a new client before its time, an exception that loses a request and its slot, a probe that ends the health checker, a
  signal that is lost by a supervisor that forks or a worker that starts.

  \<^bold>\<open>Bounds and fuel.\<close> \<open>expire_loop\<close> is given the length of the heap, and
  each of its rounds pops one entry. \<open>chunk_loop\<close> is a partial function, because the scan may
  indeed not return; the handlers and the loop that use it return \<open>None\<close> then, and that it ends
  for sizes that are not negative is proved. All other loops are structural or have a measure. The attempts
  are bounded by \<open>MAX_BACKEND_RETRIES\<close>.

  \<^bold>\<open>Assumed of the outside.\<close> The clock is any sequence of readings (that it passes every time is a hypothesis of the
  draining property only); the kernel's answers are arbitrary arguments; the descriptor of a socket is
  any function of the socket; a new object gets any identity that no reachable object has. Only the theorems of
  \<open>StaleRegistration\<close>, of \<open>WatchTheorems\<close> and of this theory ask more: that sockets open together have different descriptors, which is the kernel's promise,
  and that \<open>connect_ex\<close> gives 0 or \<open>EINPROGRESS\<close>. Without the second they are false, as the stale registration shows.

  What \<open>http.server\<close> gives a handler of a test server, and the text of dates and times, are arguments.

  \<^bold>\<open>Not modelled.\<close> How \<open>argparse\<close> finds the options in the words of the command line; the lines of the log other
  than the access log; the moment within a round at which a signal reaches a worker (\<open>io_signal\<close>: the flag is read between
  rounds only), and \<open>KeyboardInterrupt\<close> in the reactor, which the worker's own handler of SIGINT keeps away; a signal
  between a \<open>fork\<close> and what parent and child do right after it; sockets beyond what was accepted for sending;
  the threads and the printing of \<open>mock_backends.py\<close>; the tests. Text that is not latin-1 does not occur
  in \<open>http_parser.py\<close>, but could on the command line.
\<close>

section \<open>The whole program\<close>

text \<open>C24: From the command line to the exit status: a balancer started with accepted options and one worker, whose address
  can be bound, ends with status 0 in the execution exactly when a signal arrives in it, and goes on otherwise. The
  router exists for every accepted algorithm, and listening cannot fail, so what is asked is the kernel's law in the
  rounds and that handlers return, with the marks of the health checker among them unless it was switched off.\<close>

theorem program_ends_on_signal:
  assumes "parse_args us = Inr a" and "configure a = Inr backends" and "args_workers a = 1" and "distinct backends"
    and "args_no_health_check a \<or> p_threads p" and "bind_ok p" and "0 \<le> p_fd p 0"
    and "\<forall>rt. create_router (args_algorithm a) backends = Inr rt \<longrightarrow> smooth_run (worker_rounds p a rt)
      (final (listen (has_reuseport p) False True (initial_reactor rt (p_clock p) (p_fd p))))"
  shows "main_status p us evs ws = (if \<exists>rio \<in> set (p_rounds p). io_signal rio then Some 0 else None)"
proof -
  obtain rt where rt: "create_router (args_algorithm a) backends = Inr rt"
    using accepted_algorithm_is_known [OF assms(1)] by blast
  obtain r0 where r0: "listen (has_reuseport p) False True (initial_reactor rt (p_clock p) (p_fd p)) = Returned r0"
    using assms(7) by (simp add: listen_def new_socket_def initial_reactor_def sel_register_def fileobj_lookup_def
        fileno_def r_sockets_def Let_def)
  have "\<exists>r. attended r \<and> run_worker p a backends =
    (if \<exists>rio \<in> set (p_rounds p). io_signal rio
     then Some (Inr (Returned (shutdown r), if args_no_health_check a then None
       else Some (new_checker\<lparr>hc_started := True, hc_stop_event := True\<rparr>, HEALTH_CHECK_INTERVAL + 2)))
     else None)"
    by (rule worker_runs [OF rt assms(4,5)]) (use assms(3,6,8) rt r0 in auto)
  then have "worker_exit (run_worker p a backends) = (if \<exists>rio \<in> set (p_rounds p). io_signal rio then Some 0 else None)"
    by auto
  with assms(1-3) show ?thesis by (simp add: main_status_def)
qed

theorem program_ends_on_signal_witness:
  "main_status (demo_platform False demo_stopped) [Backends ''b:1,c:2,d:3'', Algorithm ''least_connections''] [] [] = Some 0"
proof -
  let ?a = "demo_args\<lparr>args_backends := Some ''b:1,c:2,d:3''\<rparr>" let ?bs = "[(''b'', 1 :: int), (''c'', 2), (''d'', 3)]"
  have a: "parse_args [Backends ''b:1,c:2,d:3'', Algorithm ''least_connections''] = Inr ?a" "configure ?a = Inr ?bs"
    by code_simp+
  have rounds: "worker_rounds p ?a rt = worker_rounds p demo_args rt" for p rt by (simp add: worker_rounds_def)
  have "\<forall>rt. create_router (args_algorithm ?a) ?bs = Inr rt \<longrightarrow> smooth_run (worker_rounds (demo_platform False demo_stopped) ?a rt)
      (final (listen (has_reuseport (demo_platform False demo_stopped)) False True
        (initial_reactor rt (p_clock (demo_platform False demo_stopped)) (p_fd (demo_platform False demo_stopped)))))"
    using demo_workers(1) demo_workers(6) [of False] unfolding rounds
    by (simp add: demo_platform_def demo_listening)
  from program_ends_on_signal [OF a _ _ _ _ _ this, of "[]" "[]"] show ?thesis
    by (simp add: demo_platform_def demo_args_def demo_fd_def demo_stopped_def)
qed

end
